(* ===== verification/OG_Prelude.thy ===== *)
theory OG_Prelude
  imports Main "HOL-Library.Word" "HOL-Library.Sublist"
begin

text \<open>
  The shared base of the development: how a run of the C code can stop (an exit, or one of
  the undefined behaviours the model tracks), the result type built on it with its
  sequencing operator, the conversions between mathematical integers and the C types, and
  generic list lemmas. Nothing in this theory mentions the web server.
\<close>

named_theorems res_simps \<open>rewriting of sequenced results\<close>
named_theorems cstr_simps \<open>facts on C strings\<close>

section \<open>How a run stops\<close>

text \<open>
  \<open>Exit n\<close> is a call of \<open>exit(n)\<close>. The other constructors are undefined behaviours
  of C that the code can run into: a read or write through a null pointer, an access outside
  a buffer, a \<open>free\<close> of memory that was not allocated, and a use of memory already freed.
\<close>

datatype stop = Exit int | NullDeref | OutOfBounds | BadFree | UseAfterFree

type_synonym 'a res = "stop + 'a"

definition bind_res :: "'a res \<Rightarrow> ('a \<Rightarrow> 'b res) \<Rightarrow> 'b res" where
  "bind_res m f = (case m of Inl e \<Rightarrow> Inl e | Inr x \<Rightarrow> f x)"

lemma bind_res_Inl [simp]: "bind_res (Inl e) f = Inl e"
  by (simp add: bind_res_def)

lemma bind_res_Inr [simp]: "bind_res (Inr x) f = f x"
  by (simp add: bind_res_def)

lemma bind_res_eq_Inr [res_simps]:
  "bind_res m f = Inr y \<longleftrightarrow> (\<exists>x. m = Inr x \<and> f x = Inr y)"
  by (cases m) auto

lemma bind_res_eq_Inl [res_simps]:
  "bind_res m f = Inl e \<longleftrightarrow> m = Inl e \<or> (\<exists>x. m = Inr x \<and> f x = Inl e)"
  by (cases m) auto

lemma bind_res_assoc: "bind_res (bind_res m f) g = bind_res m (\<lambda>x. bind_res (f x) g)"
  by (cases m) auto

lemma bind_res_split:
  "P (bind_res m f) \<longleftrightarrow> (\<forall>e. m = Inl e \<longrightarrow> P (Inl e)) \<and> (\<forall>x. m = Inr x \<longrightarrow> P (f x))"
  by (cases m) auto

lemma bind_res_cong [fundef_cong]:
  "m = m' \<Longrightarrow> (\<And>x. m' = Inr x \<Longrightarrow> f x = f' x) \<Longrightarrow> bind_res m f = bind_res m' f'"
  by (cases m') auto

text \<open>A pointer that the code follows without a check.\<close>

definition deref :: "'a option \<Rightarrow> 'a res" where
  "deref p = (case p of None \<Rightarrow> Inl NullDeref | Some x \<Rightarrow> Inr x)"

lemma deref_simps [simp]: "deref None = Inl NullDeref" "deref (Some x) = Inr x"
  by (simp_all add: deref_def)

lemma deref_eq_Inr [res_simps]: "deref p = Inr x \<longleftrightarrow> p = Some x"
  by (cases p) auto

section \<open>Sequences of actions\<close>

text \<open>A list of actions run in order, stopping at the first that stops.\<close>

fun run_res :: "('a \<Rightarrow> 's \<Rightarrow> 's res) \<Rightarrow> 'a list \<Rightarrow> 's \<Rightarrow> 's res" where
  "run_res act [] s = Inr s"
| "run_res act (a # as) s = bind_res (act a s) (run_res act as)"

lemma run_res_append:
  "run_res act (as @ bs) s = bind_res (run_res act as s) (run_res act bs)"
  by (induction as arbitrary: s) (auto simp: bind_res_def split: sum.split)

text \<open>
  The contract between a family of actions and an invariant of their state: each action keeps
  the invariant when it does not stop. A client gets the invariant for whole runs.
\<close>

locale action_system =
  fixes act :: "'a \<Rightarrow> 's \<Rightarrow> 's res"
    and inv :: "'s \<Rightarrow> bool"
  assumes act_keeps: "inv s \<Longrightarrow> act a s = Inr s' \<Longrightarrow> inv s'"
begin

lemma run_keeps: "inv s \<Longrightarrow> run_res act as s = Inr s' \<Longrightarrow> inv s'"
  by (induction as arbitrary: s) (auto simp: res_simps dest: act_keeps)

end

section \<open>C integers\<close>

text \<open>
  An \<open>int\<close> of the code is a mathematical integer of the model wherever its value stays
  inside the 32-bit range by construction. Where the code converts a wider value,
  \<open>to_int32\<close> is the conversion of the target's ABI (two's complement).
\<close>

definition to_int32 :: "int \<Rightarrow> int" where
  "to_int32 i = sint (word_of_int i :: 32 word)"

lemma to_int32_id: "- (2 ^ 31) \<le> i \<Longrightarrow> i < 2 ^ 31 \<Longrightarrow> to_int32 i = i"
  unfolding to_int32_def
  by (simp add: sint_sbintrunc' signed_take_bit_int_eq_self)

lemma to_int32_bounds: "- (2 ^ 31) \<le> to_int32 i \<and> to_int32 i < 2 ^ 31"
  unfolding to_int32_def
  using sint_range_size [of "word_of_int i :: 32 word"] by (simp add: word_size)

text \<open>The network byte order of a 16-bit value on a little-endian host.\<close>

unbundle bit_operations_syntax

definition htons :: "16 word \<Rightarrow> 16 word" where
  "htons w = push_bit 8 w OR drop_bit 8 w"

lemma htons_htons: "htons (htons w) = w"
  unfolding htons_def
  by (rule bit_word_eqI) (auto simp: bit_simps)

section \<open>Lists\<close>

lemma takeWhile_append_hit: "\<forall>x \<in> set xs. P x \<Longrightarrow> \<not> P y \<Longrightarrow> takeWhile P (xs @ y # ys) = xs"
  by (induction xs) auto

lemma find_append:
  "find P (xs @ ys) = (case find P xs of None \<Rightarrow> find P ys | Some x \<Rightarrow> Some x)"
  by (induction xs) auto

lemma list_all_update: "list_all P xs \<Longrightarrow> (i < length xs \<Longrightarrow> P y) \<Longrightarrow> list_all P (xs[i := y])"
  by (cases "i < length xs") (auto simp: list_all_length nth_list_update)

lemma last_snoc_cases: "xs \<noteq> [] \<Longrightarrow> \<exists>ys y. xs = ys @ [y]"
  by (metis append_butlast_last_id)

end
