(* ===== verification/OG_CStrings.thy ===== *)
theory OG_CStrings
  imports OG_Prelude
begin

text \<open>
  C strings and the library functions the server calls on them. A C string is the list of
  its bytes before the terminating NUL. A buffer with a cursor in it is the list of the bytes
  from the cursor to the end of the buffer, NUL bytes included, so that a read past the end
  is visible as \<open>OutOfBounds\<close>. Formatting and parsing of decimal numbers
  (\<open>%d\<close> and \<open>atoi\<close>) close the theory, with their round trip.
\<close>

section \<open>Whole strings\<close>

abbreviation NUL :: char where "NUL \<equiv> CHR 0x00"
abbreviation CR :: char where "CR \<equiv> CHR 0x0D"
abbreviation LF :: char where "LF \<equiv> CHR 0x0A"
abbreviation TAB :: char where "TAB \<equiv> CHR 0x09"

definition crlf :: string where "crlf = [CR, LF]"

text \<open>\<open>strncmp(s, t, n) == 0\<close>\<close>

fun strncmp0 :: "nat \<Rightarrow> string \<Rightarrow> string \<Rightarrow> bool" where
  "strncmp0 0 s t = True"
| "strncmp0 (Suc n) [] [] = True"
| "strncmp0 (Suc n) (x # xs) (y # ys) = (x = y \<and> strncmp0 n xs ys)"
| "strncmp0 (Suc n) _ _ = False"

lemma strncmp0_prefix [cstr_simps]: "strncmp0 (length t) s t = prefix t s"
proof (induction t arbitrary: s)
  case (Cons y ys)
  then show ?case by (cases s) auto
qed simp

text \<open>\<open>strchr(s, c)\<close>, \<open>strrchr(s, c)\<close> and \<open>strstr(s, t)\<close>: the suffix found.\<close>

fun strchr :: "string \<Rightarrow> char \<Rightarrow> string option" where
  "strchr [] c = None"
| "strchr (x # xs) c = (if x = c then Some (x # xs) else strchr xs c)"

fun strrchr :: "string \<Rightarrow> char \<Rightarrow> string option" where
  "strrchr [] c = None"
| "strrchr (x # xs) c =
     (case strrchr xs c of Some r \<Rightarrow> Some r | None \<Rightarrow> if x = c then Some (x # xs) else None)"

fun strstr :: "string \<Rightarrow> string \<Rightarrow> string option" where
  "strstr [] t = (if t = [] then Some [] else None)"
| "strstr (x # xs) t = (if prefix t (x # xs) then Some (x # xs) else strstr xs t)"

lemma strchr_None [cstr_simps]: "strchr s c = None \<longleftrightarrow> c \<notin> set s"
  by (induction s) auto

lemma strchr_Some:
  "strchr s c = Some r \<longleftrightarrow> (\<exists>a b. s = a @ c # b \<and> c \<notin> set a \<and> r = c # b)"
proof (induction s)
  case (Cons x xs)
  show ?case
  proof (cases "x = c")
    case True
    then show ?thesis by (auto simp: Cons_eq_append_conv)
  next
    case False
    then show ?thesis using Cons.IH by (auto simp: Cons_eq_append_conv)
  qed
qed auto

lemma strrchr_None [cstr_simps]: "strrchr s c = None \<longleftrightarrow> c \<notin> set s"
  by (induction s) (auto split: option.splits if_splits)

lemma strrchr_snoc [simp]: "c \<notin> set b \<Longrightarrow> strrchr (a @ c # b) c = Some (c # b)"
proof (induction a)
  case Nil
  then show ?case using strrchr_None [of b c] by simp
qed auto

lemma strstr_append:
  assumes "strstr s t = Some r" shows "\<exists>a. s = a @ r \<and> prefix t r"
  using assms
proof (induction s)
  case Nil
  then show ?case by (auto split: if_splits)
next
  case (Cons x xs)
  show ?case
  proof (cases "prefix t (x # xs)")
    case True
    with Cons.prems show ?thesis by auto
  next
    case False
    with Cons obtain a where "xs = a @ r \<and> prefix t r" by auto
    then have "x # xs = (x # a) @ r \<and> prefix t r" by simp
    then show ?thesis by blast
  qed
qed

lemma strstr_None_iff: "t \<noteq> [] \<Longrightarrow> strstr s t = None \<longleftrightarrow> \<not> sublist t s"
  by (induction s) (auto simp: sublist_Cons_right)

text \<open>The part of a string before its first \<open>c\<close>, and what follows that byte.\<close>

fun cut_char :: "char \<Rightarrow> string \<Rightarrow> (string \<times> string) option" where
  "cut_char c [] = None"
| "cut_char c (x # xs) =
     (if x = c then Some ([], xs)
      else case cut_char c xs of None \<Rightarrow> None | Some (t, r) \<Rightarrow> Some (x # t, r))"

lemma cut_char_append [simp]: "c \<notin> set a \<Longrightarrow> cut_char c (a @ c # b) = Some (a, b)"
  by (induction a) auto

lemma cut_char_None [cstr_simps]: "cut_char c s = None \<longleftrightarrow> c \<notin> set s"
  by (induction s) (auto split: option.splits)

lemma cut_char_Some: "cut_char c s = Some (a, b) \<longleftrightarrow> s = a @ c # b \<and> c \<notin> set a"
proof
  assume "cut_char c s = Some (a, b)"
  then show "s = a @ c # b \<and> c \<notin> set a"
  proof (induction s arbitrary: a)
    case (Cons x xs)
    then show ?case by (force split: if_splits option.splits)
  qed simp
next
  assume "s = a @ c # b \<and> c \<notin> set a"
  then show "cut_char c s = Some (a, b)" by simp
qed

section \<open>Cursors into a buffer\<close>

text \<open>
  \<open>cut_at c p\<close> is \<open>q = strchr(p, c)\<close> followed by \<open>*q++ = '\0'\<close>: the string that
  now starts at \<open>p\<close> and the new cursor, \<open>None\<close> if \<open>strchr\<close> returned a null pointer.
\<close>

fun cut_at :: "char \<Rightarrow> char list \<Rightarrow> (string \<times> char list) option res" where
  "cut_at c [] = Inl OutOfBounds"
| "cut_at c (x # xs) =
     (if x = c then Inr (Some ([], xs))
      else if x = NUL then Inr None
      else bind_res (cut_at c xs) (\<lambda>r.
        Inr (case r of None \<Rightarrow> None | Some (t, q) \<Rightarrow> Some (x # t, q))))"

fun strncmp_buf :: "char list \<Rightarrow> string \<Rightarrow> bool res" where
  \<comment> \<open>\<open>strncmp(p, t, strlen(t)) == 0\<close> on a cursor: stops at the first difference\<close>
  "strncmp_buf p [] = Inr True"
| "strncmp_buf [] (y # ys) = Inl OutOfBounds"
| "strncmp_buf (x # xs) (y # ys) = (if x = y then strncmp_buf xs ys else Inr False)"

fun strlen_buf :: "char list \<Rightarrow> nat res" where
  "strlen_buf [] = Inl OutOfBounds"
| "strlen_buf (x # xs) =
     (if x = NUL then Inr 0 else bind_res (strlen_buf xs) (\<lambda>n. Inr (Suc n)))"

lemma cut_at_hit [simp]:
  "c \<notin> set a \<Longrightarrow> NUL \<notin> set a \<Longrightarrow> cut_at c (a @ c # b) = Inr (Some (a, b))"
  by (induction a) auto

lemma cut_at_hit0 [simp]:
  "c \<notin> set a \<Longrightarrow> NUL \<notin> set a \<Longrightarrow> cut_at c (a @ [c]) = Inr (Some (a, []))"
  using cut_at_hit [of c a "[]"] by simp

lemma cut_at_miss:
  "c \<notin> set a \<Longrightarrow> NUL \<notin> set a \<Longrightarrow> c \<noteq> NUL \<Longrightarrow> cut_at c (a @ NUL # b) = Inr None"
  by (induction a) auto

lemma cut_at_SomeD:
  "cut_at c p = Inr (Some (t, q)) \<Longrightarrow> p = t @ c # q \<and> c \<notin> set t \<and> NUL \<notin> set t"
proof (induction p arbitrary: t)
  case (Cons x xs)
  show ?case
  proof (cases "x = c")
    case False
    with Cons.prems have "x \<noteq> NUL" by auto
    with False Cons.prems obtain t' where "cut_at c xs = Inr (Some (t', q))" "t = x # t'"
      by (auto simp: res_simps split: option.splits)
    with Cons.IH False \<open>x \<noteq> NUL\<close> show ?thesis by auto
  qed (use Cons.prems in auto)
qed simp

lemma strncmp_buf_prefix: "length t \<le> length p \<Longrightarrow> strncmp_buf p t = Inr (prefix t p)"
  by (induction p t rule: strncmp_buf.induct) auto

lemma strncmp_buf_term:
  "NUL \<notin> set t \<Longrightarrow> strncmp_buf (a @ NUL # b) t = Inr (prefix t a)"
proof (induction a arbitrary: t)
  case Nil
  then show ?case by (cases t) auto
next
  case (Cons x xs)
  then show ?case by (cases t) auto
qed

lemma strlen_buf_term: "NUL \<notin> set a \<Longrightarrow> strlen_buf (a @ NUL # b) = Inr (length a)"
  by (induction a) auto

section \<open>Decimal numbers\<close>

text \<open>
  \<open>%d\<close> and \<open>atoi\<close>. \<open>atoi\<close> skips leading white space, takes an optional sign and the
  longest run of digits; glibc's version reads the value as a 64-bit \<open>long\<close>, saturating,
  and keeps its low 32 bits.
\<close>

definition digit_char :: "nat \<Rightarrow> char" where
  "digit_char d = ''0123456789'' ! d"

fun show_nat :: "nat \<Rightarrow> string" where
  "show_nat n = (if n < 10 then [digit_char n] else show_nat (n div 10) @ [digit_char (n mod 10)])"

declare show_nat.simps [simp del]

definition fmt_d :: "int \<Rightarrow> string" where
  "fmt_d i = (if i < 0 then CHR ''-'' # show_nat (nat (- i)) else show_nat (nat i))"

definition is_digit :: "char \<Rightarrow> bool" where
  "is_digit c = (48 \<le> (of_char c :: nat) \<and> (of_char c :: nat) \<le> 57)"

definition digit_val :: "char \<Rightarrow> nat" where
  "digit_val c = (of_char c :: nat) - 48"

definition is_space :: "char \<Rightarrow> bool" where
  "is_space c = (c = CHR '' '' \<or> (9 \<le> (of_char c :: nat) \<and> (of_char c :: nat) \<le> 13))"

definition digits_val :: "string \<Rightarrow> nat" where
  "digits_val s = foldl (\<lambda>a c. 10 * a + digit_val c) 0 s"

definition strtol :: "string \<Rightarrow> int" where
  "strtol s =
     (let t = dropWhile is_space s;
          neg = (t \<noteq> [] \<and> hd t = CHR ''-'');
          u = (if t \<noteq> [] \<and> (hd t = CHR ''-'' \<or> hd t = CHR ''+'') then tl t else t);
          v = int (digits_val (takeWhile is_digit u));
          w = (if neg then - v else v)
      in max (- (2 ^ 63)) (min (2 ^ 63 - 1) w))"

definition atoi :: "string \<Rightarrow> int" where
  "atoi s = to_int32 (strtol s)"

lemma less_10_cases:
  "(d::nat) < 10 \<Longrightarrow> d = 0 \<or> d = 1 \<or> d = 2 \<or> d = 3 \<or> d = 4 \<or> d = 5 \<or> d = 6 \<or> d = 7 \<or> d = 8 \<or> d = 9"
  by arith

lemma digit_char_props:
  assumes "d < 10"
  shows "is_digit (digit_char d)" and "digit_val (digit_char d) = d"
    and "\<not> is_space (digit_char d)" and "digit_char d \<noteq> CHR ''-''" and "digit_char d \<noteq> CHR ''+''"
  using less_10_cases [OF assms]
  by (auto simp: digit_char_def is_digit_def digit_val_def is_space_def)

lemma digits_val_snoc: "digits_val (s @ [c]) = 10 * digits_val s + digit_val c"
  by (simp add: digits_val_def)

lemma show_nat_digits: "\<forall>c \<in> set (show_nat n). is_digit c"
proof (induction n rule: show_nat.induct)
  case (1 n)
  then show ?case by (subst show_nat.simps) (auto simp: digit_char_props)
qed

lemma show_nat_nonempty: "show_nat n \<noteq> []"
  by (subst show_nat.simps) simp

lemma digits_val_show_nat: "digits_val (show_nat n) = n"
proof (induction n rule: show_nat.induct)
  case (1 n)
  show ?case
  proof (cases "n < 10")
    case True
    then show ?thesis
      by (simp add: show_nat.simps [of n] digits_val_def digit_char_props)
  next
    case False
    with 1 show ?thesis
      by (simp add: show_nat.simps [of n] digits_val_snoc digit_char_props)
  qed
qed

lemma is_digit_not_special:
  "is_digit c \<Longrightarrow> \<not> is_space c \<and> c \<noteq> CHR ''-'' \<and> c \<noteq> CHR ''+'' \<and> c \<noteq> NUL \<and> c \<noteq> LF"
  by (auto simp: is_digit_def is_space_def)

lemma strtol_digits:
  assumes "\<forall>c \<in> set s. is_digit c" and "s \<noteq> []" and "rest = [] \<or> \<not> is_digit (hd rest)"
  shows "strtol (s @ rest) = min (2 ^ 63 - 1) (int (digits_val s))"
proof -
  from assms(2) obtain c cs where s: "s = c # cs" by (cases s) auto
  with assms(1) have "is_digit c" by simp
  then have c: "\<not> is_space c" "c \<noteq> CHR ''-''" "c \<noteq> CHR ''+''"
    using is_digit_not_special by blast+
  have "takeWhile is_digit (s @ rest) = s"
    using assms(1,3) by (cases rest) (auto simp: takeWhile_append2)
  with c show ?thesis by (simp add: strtol_def s)
qed

text \<open>Printing with \<open>%d\<close> and reading back with \<open>atoi\<close> gives the number, whatever follows it.\<close>

lemma atoi_fmt_d:
  assumes "0 \<le> i" and "i < 2 ^ 31" and "rest = [] \<or> \<not> is_digit (hd rest)"
  shows "atoi (fmt_d i @ rest) = i"
proof -
  have "strtol (show_nat (nat i) @ rest) = min (2 ^ 63 - 1) (int (digits_val (show_nat (nat i))))"
    using assms(3) by (intro strtol_digits show_nat_digits show_nat_nonempty)
  then have "strtol (show_nat (nat i) @ rest) = i"
    using assms(1,2) by (simp add: digits_val_show_nat)
  with assms(1,2) show ?thesis by (simp add: atoi_def fmt_d_def to_int32_id)
qed

lemma length_show_nat_le: "n < 10 ^ k \<Longrightarrow> 0 < k \<Longrightarrow> length (show_nat n) \<le> k"
proof (induction n arbitrary: k rule: show_nat.induct)
  case (1 n)
  show ?case
  proof (cases "n < 10")
    case True
    with 1 show ?thesis by (simp add: show_nat.simps [of n])
  next
    case False
    with "1.prems" have "k \<noteq> 0" "k \<noteq> 1" by auto
    then obtain j where k: "k = Suc j" "0 < j" by (cases k) auto
    with "1.prems" have "n div 10 < 10 ^ j" by (simp add: less_mult_imp_div_less mult.commute)
    with False k "1.IH" have "length (show_nat (n div 10)) \<le> j" by blast
    with False k show ?thesis by (simp add: show_nat.simps [of n])
  qed
qed

section \<open>Formatted output through a fixed buffer\<close>

text \<open>
  \<open>sz = snprintf(buf, n, ...)\<close> stores at most \<open>n - 1\<close> bytes and a NUL but returns the
  untruncated length; the code then sends or writes \<open>sz\<close> bytes from \<open>buf\<close>.
  \<open>emit_snprintf n s\<close> is the bytes it transmits, a read past the buffer if \<open>sz > n\<close>.
\<close>

definition emit_snprintf :: "nat \<Rightarrow> string \<Rightarrow> string res" where
  "emit_snprintf n s =
     (if n < length s then Inl OutOfBounds else Inr (take (length s) (take (n - 1) s @ [NUL])))"

lemma emit_snprintf_fits: "length s < n \<Longrightarrow> emit_snprintf n s = Inr s"
  by (simp add: emit_snprintf_def)

lemma emit_snprintf_overrun: "n < length s \<Longrightarrow> emit_snprintf n s = Inl OutOfBounds"
  by (simp add: emit_snprintf_def)

end
