(* ===== verification/OG_Types.thy ===== *)
theory OG_Types
  imports OG_CStrings
begin

text \<open>
  The data of the server: the constants and structs of \<^verbatim>\<open>serverlist.h\<close>,
  \<^verbatim>\<open>clients.h\<close>, \<^verbatim>\<open>mimeTypes.h\<close> and \<^verbatim>\<open>server.h\<close>. A chain of structs linked
  by \<open>next\<close> is a list. Where the code keeps a second pointer to a struct of a global chain
  (a server's log files, a location's upstream group, a group's server nodes), the pointer is
  the position of the struct in the chain's store, so that an update through one pointer is seen
  through the others.
\<close>

section \<open>Constants\<close>

unbundle bit_operations_syntax

type_synonym flags = "32 word"

definition TYPE_PROXY_PASS :: flags where "TYPE_PROXY_PASS = 1"
definition TYPE_DOC_ROOT :: flags where "TYPE_DOC_ROOT = 2"
definition TYPE_TRY_FILES :: flags where "TYPE_TRY_FILES = 4"
definition TYPE_UPSTREAM_GROUP :: flags where "TYPE_UPSTREAM_GROUP = 8"
definition TYPE_FASTCGI_PASS :: flags where "TYPE_FASTCGI_PASS = 16"

definition UNSET_MATCH :: int where "UNSET_MATCH = -1"
definition EQUAL_MATCH :: int where "EQUAL_MATCH = 0"
definition REGEX_MATCH :: int where "REGEX_MATCH = 1"
definition PREFIX_MATCH :: int where "PREFIX_MATCH = 2"

definition PROTOCOL_UNSET :: int where "PROTOCOL_UNSET = -1"
definition PROTOCOL_HTTP :: int where "PROTOCOL_HTTP = 0"
definition PROTOCOL_HTTPS :: int where "PROTOCOL_HTTPS = 1"
definition PROTOCOL_HTTP2 :: int where "PROTOCOL_HTTP2 = 2"

definition SERVER_NAME_EXACT :: int where "SERVER_NAME_EXACT = 0"
definition SERVER_NAME_WILDCARD_PREFIX :: int where "SERVER_NAME_WILDCARD_PREFIX = 1"
definition SERVER_NAME_WILDCARD_SUFFIX :: int where "SERVER_NAME_WILDCARD_SUFFIX = 2"

definition BUFF_SIZE :: nat where "BUFF_SIZE = 4096"

lemmas type_defs = TYPE_PROXY_PASS_def TYPE_DOC_ROOT_def TYPE_TRY_FILES_def
  TYPE_UPSTREAM_GROUP_def TYPE_FASTCGI_PASS_def

lemmas match_defs = UNSET_MATCH_def EQUAL_MATCH_def REGEX_MATCH_def PREFIX_MATCH_def

lemmas protocol_defs = PROTOCOL_UNSET_def PROTOCOL_HTTP_def PROTOCOL_HTTPS_def PROTOCOL_HTTP2_def

text \<open>\<open>type & FLAG\<close> as a condition of an \<open>if\<close>.\<close>

definition has_flag :: "flags \<Rightarrow> flags \<Rightarrow> bool" where
  "has_flag t f = (t AND f \<noteq> 0)"

lemma has_flag_exp: "f = 2 ^ n \<Longrightarrow> has_flag t f = bit t n"
  by (simp add: has_flag_def and_exp_eq_0_iff_not_bit)

lemma bit_flag_exp: "f = (2 :: flags) ^ n \<Longrightarrow> n < 32 \<Longrightarrow> bit f m \<longleftrightarrow> m = n"
  by (auto simp: bit_exp_iff possible_bit_def)

lemma type_exps:
  "TYPE_PROXY_PASS = 2 ^ 0" "TYPE_DOC_ROOT = 2 ^ 1" "TYPE_TRY_FILES = 2 ^ 2"
  "TYPE_UPSTREAM_GROUP = 2 ^ 3" "TYPE_FASTCGI_PASS = 2 ^ 4"
  by (simp_all add: type_defs)

lemma has_flag_bit:
  "has_flag t TYPE_PROXY_PASS = bit t 0"
  "has_flag t TYPE_DOC_ROOT = bit t 1"
  "has_flag t TYPE_TRY_FILES = bit t 2"
  "has_flag t TYPE_UPSTREAM_GROUP = bit t 3"
  "has_flag t TYPE_FASTCGI_PASS = bit t 4"
  by (rule has_flag_exp, rule type_exps)+

lemma bit_flag_consts:
  "bit TYPE_PROXY_PASS n \<longleftrightarrow> n = 0"
  "bit TYPE_DOC_ROOT n \<longleftrightarrow> n = 1"
  "bit TYPE_TRY_FILES n \<longleftrightarrow> n = 2"
  "bit TYPE_UPSTREAM_GROUP n \<longleftrightarrow> n = 3"
  "bit TYPE_FASTCGI_PASS n \<longleftrightarrow> n = 4"
  by (rule bit_flag_exp, rule type_exps, simp)+

lemma flag_bit_or:
  "bit (t OR TYPE_PROXY_PASS) n \<longleftrightarrow> bit t n \<or> n = 0"
  "bit (t OR TYPE_DOC_ROOT) n \<longleftrightarrow> bit t n \<or> n = 1"
  "bit (t OR TYPE_TRY_FILES) n \<longleftrightarrow> bit t n \<or> n = 2"
  "bit (t OR TYPE_UPSTREAM_GROUP) n \<longleftrightarrow> bit t n \<or> n = 3"
  "bit (t OR TYPE_FASTCGI_PASS) n \<longleftrightarrow> bit t n \<or> n = 4"
  by (auto simp: bit_or_iff bit_flag_consts)

lemmas flag_simps = has_flag_bit flag_bit_or bit_flag_consts

section \<open>Strings that may be freed\<close>

text \<open>
  A \<open>char *\<close> that the code passes to \<open>free\<close> on some path: a string literal, which must
  never be freed, or memory from \<open>malloc\<close> or \<open>strdup\<close>.
\<close>

datatype cptr = Lit (cval: string) | Heap (cval: string)

definition c_free :: "cptr \<Rightarrow> unit res" where
  "c_free p = (case p of Lit _ \<Rightarrow> Inl BadFree | Heap _ \<Rightarrow> Inr ())"

lemma c_free_simps [simp]: "c_free (Lit s) = Inl BadFree" "c_free (Heap s) = Inr ()"
  by (simp_all add: c_free_def)

section \<open>Structs\<close>

record log_file =
  lf_path :: string
  lf_fd :: int
  lf_type :: int
  lf_freed :: bool

record sockaddr_in =
  sin_family :: int
  sin_port :: "16 word"
  sin_addr :: "32 word"

record upstream =
  up_host :: string
  up_port :: int
  up_passTo :: "sockaddr_in option"
  up_weight :: int

text \<open>
  A pointer into a chain of upstream nodes is the list of the node addresses from there on;
  the null pointer is the empty list.
\<close>

record upstreams =
  ug_current :: "nat list"
  ug_name :: string
  ug_servers :: "nat list"
  ug_freed :: bool

record location =
  loc_type :: flags
  loc_matchType :: int
  loc_match :: string
  loc_root :: "cptr option"
  loc_protocol :: int
  loc_tryTarget :: "string list"
  loc_passTo :: "sockaddr_in option"
  loc_group :: "nat option"
  loc_expires :: int

record server_name =
  sn_name :: string
  sn_type :: int

record port =
  port_num :: int
  port_tls :: bool

record server =
  srv_names :: "server_name list"
  srv_indexFiles :: "string list"
  srv_ports :: "port list"
  srv_locations :: "location list"
  srv_tls :: bool
  srv_autoIndex :: bool
  srv_certFile :: "string option"
  srv_keyFile :: "string option"
  srv_accessLog :: "nat option"
  srv_errorLog :: "nat option"

text \<open>\<open>calloc(1, sizeof(_server))\<close>\<close>

definition empty_server :: server where
  "empty_server = \<lparr>srv_names = [], srv_indexFiles = [], srv_ports = [], srv_locations = [],
     srv_tls = False, srv_autoIndex = False, srv_certFile = None, srv_keyFile = None,
     srv_accessLog = None, srv_errorLog = None\<rparr>"

record client =
  cl_fd :: int
  cl_server :: server
  cl_ip :: string
  cl_ctx :: "nat option"

record mime_type =
  mt_mimeType :: string
  mt_extension :: string

record request =
  req_path :: "string option"
  req_fullPath :: "string option"
  req_queryString :: "string option"
  req_headers :: "string option"
  req_verb :: "string option"
  req_protocol :: "string option"
  req_host :: "string option"
  req_localFd :: int
  req_clientFd :: int
  req_isDir :: bool
  req_ssl :: bool
  req_server :: "server option"
  req_loc :: "location option"

record fragment =
  fr_len :: nat
  fr_text :: string

record fcgi_param =
  fp_key :: string
  fp_paramName :: string
  fp_value :: "string option"

end
