(* ===== verification/OG_State.thy ===== *)
theory OG_State
  imports OG_Types
begin

text \<open>
  The global state of \<^verbatim>\<open>serverState.c\<close>: one record field per file-level static, one
  definition per setter, an abbreviation per getter that only reads its static. The two
  statics that the request handlers keep between calls (\<open>tryTarget\<close> of
  \<^verbatim>\<open>handleTryFiles.c\<close> and the parameter table of \<^verbatim>\<open>handleFastCGIPass.c\<close>) are
  fields too. The theory ends with the two interfaces the rest of the program relies on: chains
  that only grow at their tail, and the registry of client connections.
\<close>

section \<open>The statics\<close>

record gstate =
  g_debug :: bool
  g_foreground :: bool
  g_defaultServer :: bool
  g_trace :: bool
  g_tokens :: bool
  g_testConfig :: bool
  g_showVersion :: bool
  g_tcpNoPush :: bool
  g_useSendFile :: bool
  g_workerConnections :: int
  g_workerProcesses :: int
  g_keepaliveTimeout :: int
  g_signalName :: "string option"
  g_pidFile :: "string option"
  g_version :: "string option"
  g_user :: "string option"
  g_group :: "string option"
  g_servers :: "server list"
  g_upstreams :: "upstreams list"
  g_nodes :: "upstream list"
  g_clients :: "client list"
  g_accessLog :: "log_file list"
  g_errorLog :: "log_file list"
  g_configFile :: "string option"
  g_configDir :: "string option"
  g_mimeTypes :: "mime_type list"
  g_defaultType :: "string option"
  g_tryTarget :: "string option"
  g_fcgiParams :: "fcgi_param list"
  g_fragments :: "fragment list"

text \<open>The value of every static when the program starts.\<close>

definition fcgi_row :: "string \<Rightarrow> string \<Rightarrow> fcgi_param" where
  "fcgi_row k n = \<lparr>fp_key = k, fp_paramName = n, fp_value = None\<rparr>"

definition fastCgiParams :: "fcgi_param list" where
  "fastCgiParams = [
     fcgi_row ''QUERY_STRING'' ''$query_string'',
     fcgi_row ''REQUEST_METHOD'' ''$request_method'',
     fcgi_row ''CONTENT_TYPE'' ''$content_type'',
     fcgi_row ''CONTENT_LENGTH'' ''$content_length'',
     fcgi_row ''SCRIPT_FILENAME'' ''$document_root$fastcgi_script_name'',
     fcgi_row ''SCRIPT_NAME'' ''$fastcgi_script_name'',
     fcgi_row ''PATH_INFO'' ''$fastcgi_path_info'',
     fcgi_row ''PATH_TRANSLATED'' ''$document_root$fastcgi_path_info'',
     fcgi_row ''REQUEST_URI'' ''$request_uri'',
     fcgi_row ''DOCUMENT_URI'' ''$document_uri'',
     fcgi_row ''DOCUMENT_ROOT'' ''$document_root'',
     fcgi_row ''SERVER_PROTOCOL'' ''$server_protocol'',
     fcgi_row ''GATEWAY_INTERFACE'' ''CGI/1.1'',
     fcgi_row ''SERVER_SOFTWARE'' ''ogws/$version'',
     fcgi_row ''REMOTE_ADDR'' ''$remote_addr'',
     fcgi_row ''REMOTE_PORT'' ''$remote_port'',
     fcgi_row ''SERVER_ADDR'' ''$server_addr'',
     fcgi_row ''SERVER_PORT'' ''$server_port'',
     fcgi_row ''SERVER_NAME'' ''$server_name'',
     fcgi_row ''HTTPS'' ''$https'',
     fcgi_row ''REDIRECT_STATUS'' ''200'']"

definition initial_state :: gstate where
  "initial_state = \<lparr>
     g_debug = False, g_foreground = False, g_defaultServer = True, g_trace = False,
     g_tokens = True, g_testConfig = False, g_showVersion = False, g_tcpNoPush = False,
     g_useSendFile = False, g_workerConnections = 64, g_workerProcesses = 1,
     g_keepaliveTimeout = 1, g_signalName = None, g_pidFile = None, g_version = None,
     g_user = None, g_group = None, g_servers = [], g_upstreams = [], g_nodes = [],
     g_clients = [], g_accessLog = [], g_errorLog = [], g_configFile = None,
     g_configDir = None, g_mimeTypes = [], g_defaultType = None, g_tryTarget = None,
     g_fcgiParams = fastCgiParams, g_fragments = []\<rparr>"

section \<open>Flags, numbers and names\<close>

definition setDebug :: "bool \<Rightarrow> gstate \<Rightarrow> gstate" where
  "setDebug d g = g\<lparr>g_debug := d\<rparr>"

abbreviation isDebug :: "gstate \<Rightarrow> bool" where "isDebug \<equiv> g_debug"

definition setForeground :: "bool \<Rightarrow> gstate \<Rightarrow> gstate" where
  "setForeground f g = g\<lparr>g_foreground := f\<rparr>"

abbreviation isForeground :: "gstate \<Rightarrow> bool" where "isForeground \<equiv> g_foreground"

definition setDefaultServer :: "bool \<Rightarrow> gstate \<Rightarrow> gstate" where
  "setDefaultServer d g = g\<lparr>g_defaultServer := d\<rparr>"

abbreviation isDefaultServer :: "gstate \<Rightarrow> bool" where "isDefaultServer \<equiv> g_defaultServer"

definition setTrace :: "bool \<Rightarrow> gstate \<Rightarrow> gstate" where
  "setTrace t g = g\<lparr>g_trace := t\<rparr>"

abbreviation isTrace :: "gstate \<Rightarrow> bool" where "isTrace \<equiv> g_trace"

definition setServerTokens :: "bool \<Rightarrow> gstate \<Rightarrow> gstate" where
  "setServerTokens t g = g\<lparr>g_tokens := t\<rparr>"

abbreviation isServerTokensOn :: "gstate \<Rightarrow> bool" where "isServerTokensOn \<equiv> g_tokens"

definition setTestConfig :: "bool \<Rightarrow> gstate \<Rightarrow> gstate" where
  "setTestConfig t g = g\<lparr>g_testConfig := t\<rparr>"

abbreviation isTestConfig :: "gstate \<Rightarrow> bool" where "isTestConfig \<equiv> g_testConfig"

definition setShowVersion :: "bool \<Rightarrow> gstate \<Rightarrow> gstate" where
  "setShowVersion s g = g\<lparr>g_showVersion := s\<rparr>"

abbreviation isShowVersion :: "gstate \<Rightarrow> bool" where "isShowVersion \<equiv> g_showVersion"

definition setTcpNoPush :: "bool \<Rightarrow> gstate \<Rightarrow> gstate" where
  "setTcpNoPush t g = g\<lparr>g_tcpNoPush := t\<rparr>"

abbreviation isTcpNoPush :: "gstate \<Rightarrow> bool" where "isTcpNoPush \<equiv> g_tcpNoPush"

definition setSendFile :: "bool \<Rightarrow> gstate \<Rightarrow> gstate" where
  "setSendFile s g = g\<lparr>g_useSendFile := s\<rparr>"

abbreviation isSendFile :: "gstate \<Rightarrow> bool" where "isSendFile \<equiv> g_useSendFile"

definition setWorkerConnections :: "int \<Rightarrow> gstate \<Rightarrow> gstate" where
  "setWorkerConnections c g = g\<lparr>g_workerConnections := c\<rparr>"

abbreviation getWorkerConnections :: "gstate \<Rightarrow> int" where
  "getWorkerConnections \<equiv> g_workerConnections"

definition setWorkerProcesses :: "int \<Rightarrow> gstate \<Rightarrow> gstate" where
  "setWorkerProcesses p g = g\<lparr>g_workerProcesses := p\<rparr>"

abbreviation getWorkerProcesses :: "gstate \<Rightarrow> int" where
  "getWorkerProcesses \<equiv> g_workerProcesses"

definition setKeepaliveTimeout :: "int \<Rightarrow> gstate \<Rightarrow> gstate" where
  "setKeepaliveTimeout t g = g\<lparr>g_keepaliveTimeout := t\<rparr>"

abbreviation getKeepaliveTimeout :: "gstate \<Rightarrow> int" where
  "getKeepaliveTimeout \<equiv> g_keepaliveTimeout"

definition setSignalName :: "string \<Rightarrow> gstate \<Rightarrow> gstate res" where
  "setSignalName n g =
     (if g_signalName g \<noteq> None then Inl (Exit 1) else Inr (g\<lparr>g_signalName := Some n\<rparr>))"

abbreviation getSignalName :: "gstate \<Rightarrow> string option" where "getSignalName \<equiv> g_signalName"

text \<open>The setters below free the old value, which is always allocated memory.\<close>

definition setPidFile :: "string \<Rightarrow> gstate \<Rightarrow> gstate" where
  "setPidFile n g = g\<lparr>g_pidFile := Some n\<rparr>"

abbreviation getPidFile :: "gstate \<Rightarrow> string option" where "getPidFile \<equiv> g_pidFile"

definition setVersion :: "string \<Rightarrow> gstate \<Rightarrow> gstate" where
  "setVersion v g = g\<lparr>g_version := Some v\<rparr>"

definition getVersion :: "gstate \<Rightarrow> string option" where
  "getVersion g = (if isServerTokensOn g then g_version g else Some '''')"

definition setUser :: "string \<Rightarrow> gstate \<Rightarrow> gstate" where
  "setUser u g = g\<lparr>g_user := Some u\<rparr>"

abbreviation getUser :: "gstate \<Rightarrow> string option" where "getUser \<equiv> g_user"

definition setGroup :: "string \<Rightarrow> gstate \<Rightarrow> gstate" where
  "setGroup n g = g\<lparr>g_group := Some n\<rparr>"

abbreviation getGroup :: "gstate \<Rightarrow> string option" where "getGroup \<equiv> g_group"

definition setConfigFile :: "string \<Rightarrow> gstate \<Rightarrow> gstate res" where
  "setConfigFile p g =
     (if g_configFile g \<noteq> None then Inl (Exit 1) else Inr (g\<lparr>g_configFile := Some p\<rparr>))"

abbreviation getConfigFile :: "gstate \<Rightarrow> string option" where "getConfigFile \<equiv> g_configFile"

definition setConfigDir :: "string \<Rightarrow> gstate \<Rightarrow> gstate res" where
  \<comment> \<open>\<open>p[strlen(p)-1]\<close> lies before the string when it is empty\<close>
  "setConfigDir p g =
     (if g_configDir g \<noteq> None then Inl (Exit 1)
      else if p = [] then Inl OutOfBounds
      else if last p \<noteq> CHR ''/'' then Inl (Exit 1)
      else Inr (g\<lparr>g_configDir := Some p\<rparr>))"

abbreviation getConfigDir :: "gstate \<Rightarrow> string option" where "getConfigDir \<equiv> g_configDir"

definition setDefaultType :: "string \<Rightarrow> gstate \<Rightarrow> gstate" where
  "setDefaultType t g = g\<lparr>g_defaultType := Some t\<rparr>"

abbreviation getDefaultType :: "gstate \<Rightarrow> string option" where "getDefaultType \<equiv> g_defaultType"

section \<open>Chains that grow at the tail\<close>

text \<open>
  The loop the five list setters share: walk to the last struct and link the new one behind it,
  or make it the head of an empty chain.
\<close>

fun chain_append :: "'a list \<Rightarrow> 'a \<Rightarrow> 'a list" where
  "chain_append [] y = [y]"
| "chain_append (x # xs) y = x # chain_append xs y"

lemma chain_append_snoc [simp]: "chain_append xs y = xs @ [y]"
  by (induction xs) auto

definition setServerList :: "server \<Rightarrow> gstate \<Rightarrow> gstate" where
  "setServerList s g = g\<lparr>g_servers := chain_append (g_servers g) s\<rparr>"

abbreviation getServerList :: "gstate \<Rightarrow> server list" where "getServerList \<equiv> g_servers"

definition setUpstreamList :: "upstreams \<Rightarrow> gstate \<Rightarrow> gstate" where
  "setUpstreamList u g = g\<lparr>g_upstreams := chain_append (g_upstreams g) u\<rparr>"

abbreviation getUpstreamList :: "gstate \<Rightarrow> upstreams list" where "getUpstreamList \<equiv> g_upstreams"

definition setAccessLog :: "log_file \<Rightarrow> gstate \<Rightarrow> gstate" where
  "setAccessLog l g = g\<lparr>g_accessLog := chain_append (g_accessLog g) l\<rparr>"

definition setErrorLog :: "log_file \<Rightarrow> gstate \<Rightarrow> gstate" where
  "setErrorLog l g = g\<lparr>g_errorLog := chain_append (g_errorLog g) l\<rparr>"

definition setMimeTypeList :: "mime_type \<Rightarrow> gstate \<Rightarrow> gstate" where
  "setMimeTypeList m g = g\<lparr>g_mimeTypes := chain_append (g_mimeTypes g) m\<rparr>"

abbreviation getMimeTypeList :: "gstate \<Rightarrow> mime_type list" where
  "getMimeTypeList \<equiv> g_mimeTypes"

text \<open>The head of a log chain, as a pointer: position 0, or null for an empty chain.\<close>

definition getDefaultAccessLog :: "gstate \<Rightarrow> nat option" where
  "getDefaultAccessLog g = (if g_accessLog g = [] then None else Some 0)"

definition getDefaultErrorLog :: "gstate \<Rightarrow> nat option" where
  "getDefaultErrorLog g = (if g_errorLog g = [] then None else Some 0)"

text \<open>
  \<open>popServer\<close> unlinks the head of the server chain and frees its two log structs, which
  stay linked in the log chains.
\<close>

definition free_log :: "nat option \<Rightarrow> log_file list \<Rightarrow> log_file list res" where
  "free_log p ls =
     (case p of None \<Rightarrow> Inr ls
      | Some i \<Rightarrow> if lf_freed (ls ! i) then Inl BadFree else Inr (ls[i := (ls ! i)\<lparr>lf_freed := True\<rparr>]))"

definition popServer :: "gstate \<Rightarrow> gstate res" where
  "popServer g =
     (case g_servers g of
        [] \<Rightarrow> Inl NullDeref
      | s # rest \<Rightarrow>
          bind_res (free_log (srv_accessLog s) (g_accessLog g)) (\<lambda>al.
          bind_res (free_log (srv_errorLog s) (g_errorLog g)) (\<lambda>el.
            Inr (g\<lparr>g_servers := rest, g_accessLog := al, g_errorLog := el\<rparr>))))"

text \<open>
  The contract of such a chain, and what a client concludes from it: the order of insertion is
  the order of the chain, and the head (the default server, the default log) never changes once
  there is one.
\<close>

locale tail_chain =
  fixes add :: "'a \<Rightarrow> 's \<Rightarrow> 's"
    and contents :: "'s \<Rightarrow> 'a list"
  assumes contents_add: "contents (add x s) = contents s @ [x]"
begin

lemma contents_fold: "contents (fold add xs s) = contents s @ xs"
  by (induction xs arbitrary: s) (auto simp: contents_add)

lemma head_stable: "contents s \<noteq> [] \<Longrightarrow> hd (contents (fold add xs s)) = hd (contents s)"
  by (simp add: contents_fold)

lemma position_stable:
  "i < length (contents s) \<Longrightarrow> contents (fold add xs s) ! i = contents s ! i"
  by (simp add: contents_fold nth_append)

end

interpretation server_chain: tail_chain setServerList g_servers
  by unfold_locales (simp add: setServerList_def)

interpretation upstream_chain: tail_chain setUpstreamList g_upstreams
  by unfold_locales (simp add: setUpstreamList_def)

interpretation access_log_chain: tail_chain setAccessLog g_accessLog
  by unfold_locales (simp add: setAccessLog_def)

interpretation error_log_chain: tail_chain setErrorLog g_errorLog
  by unfold_locales (simp add: setErrorLog_def)

interpretation mime_chain: tail_chain setMimeTypeList g_mimeTypes
  by unfold_locales (simp add: setMimeTypeList_def)

section \<open>The registry of client connections\<close>

definition setClientConnection :: "client \<Rightarrow> gstate \<Rightarrow> gstate" where
  "setClientConnection c g = g\<lparr>g_clients := c # g_clients g\<rparr>"

fun find_client :: "int \<Rightarrow> client list \<Rightarrow> client option" where
  "find_client fd [] = None"
| "find_client fd (c # cs) = (if cl_fd c = fd then Some c else find_client fd cs)"

definition getClientConnection :: "int \<Rightarrow> gstate \<Rightarrow> client option" where
  "getClientConnection fd g = find_client fd (g_clients g)"

fun unlink_client :: "int \<Rightarrow> client list \<Rightarrow> client option \<times> client list" where
  "unlink_client fd [] = (None, [])"
| "unlink_client fd (c # cs) =
     (if cl_fd c = fd then (Some c, cs)
      else let (r, cs') = unlink_client fd cs in (r, c # cs'))"

definition removeClientConnection :: "int \<Rightarrow> gstate \<Rightarrow> client option \<times> gstate" where
  "removeClientConnection fd g =
     (let (r, cs) = unlink_client fd (g_clients g) in (r, g\<lparr>g_clients := cs\<rparr>))"

definition client_fds :: "gstate \<Rightarrow> int list" where
  "client_fds g = map cl_fd (g_clients g)"

lemma unlink_client_fst: "fst (unlink_client fd cs) = find_client fd cs"
  by (induction cs) (auto split: prod.split)

lemma unlink_client_other:
  "fd' \<noteq> fd \<Longrightarrow> find_client fd' (snd (unlink_client fd cs)) = find_client fd' cs"
  by (induction cs) (auto split: prod.split)

lemma find_client_None: "find_client fd cs = None \<longleftrightarrow> fd \<notin> cl_fd ` set cs"
  by (induction cs) auto

lemma unlink_client_fds:
  "map cl_fd (snd (unlink_client fd cs)) = remove1 fd (map cl_fd cs)"
  by (induction cs) (auto split: prod.split)

text \<open>
  The contract of the registry, for any client of it: a lookup sees the latest entry for a
  descriptor, a removal returns what the lookup would have and touches no other descriptor, and
  while descriptors are distinct (the kernel gives no two open connections the same one) a
  removed descriptor is gone.
\<close>

locale connection_registry =
  fixes put :: "'c \<Rightarrow> 's \<Rightarrow> 's"
    and get :: "'k \<Rightarrow> 's \<Rightarrow> 'c option"
    and del :: "'k \<Rightarrow> 's \<Rightarrow> 'c option \<times> 's"
    and key :: "'c \<Rightarrow> 'k"
    and keys :: "'s \<Rightarrow> 'k list"
  assumes get_put: "get k (put c s) = (if key c = k then Some c else get k s)"
    and fst_del: "fst (del k s) = get k s"
    and get_del_other: "k' \<noteq> k \<Longrightarrow> get k' (snd (del k s)) = get k' s"
    and keys_put: "keys (put c s) = key c # keys s"
    and keys_del: "keys (snd (del k s)) = remove1 k (keys s)"
    and get_None: "get k s = None \<longleftrightarrow> k \<notin> set (keys s)"
begin

lemma get_del: "distinct (keys s) \<Longrightarrow> get k (snd (del k s)) = None"
  by (simp add: get_None keys_del)

lemma distinct_put: "distinct (keys s) \<Longrightarrow> get (key c) s = None \<Longrightarrow> distinct (keys (put c s))"
  by (simp add: keys_put get_None)

lemma distinct_del: "distinct (keys s) \<Longrightarrow> distinct (keys (snd (del k s)))"
  by (simp add: keys_del distinct_remove1)

lemma put_del:
  "fst (del (key c) (put c s)) = Some c \<and> keys (snd (del (key c) (put c s))) = keys s"
  by (simp add: fst_del get_put keys_del keys_put)

lemma keys_set_del: "distinct (keys s) \<Longrightarrow> set (keys (snd (del k s))) = set (keys s) - {k}"
  by (simp add: keys_del set_remove1_eq)

end

interpretation clients: connection_registry
  setClientConnection getClientConnection removeClientConnection cl_fd client_fds
proof unfold_locales
  fix k k' :: int and c s
  show "getClientConnection k (setClientConnection c s) =
      (if cl_fd c = k then Some c else getClientConnection k s)"
    by (simp add: getClientConnection_def setClientConnection_def)
  show "fst (removeClientConnection k s) = getClientConnection k s"
    by (simp add: removeClientConnection_def getClientConnection_def case_prod_beta
        unlink_client_fst)
  show "client_fds (setClientConnection c s) = cl_fd c # client_fds s"
    by (simp add: client_fds_def setClientConnection_def)
  show "client_fds (snd (removeClientConnection k s)) = remove1 k (client_fds s)"
    by (simp add: client_fds_def removeClientConnection_def case_prod_beta unlink_client_fds)
  show "getClientConnection k s = None \<longleftrightarrow> k \<notin> set (client_fds s)"
    by (simp add: getClientConnection_def client_fds_def find_client_None)
  show "k' \<noteq> k \<Longrightarrow>
      getClientConnection k' (snd (removeClientConnection k s)) = getClientConnection k' s"
    by (simp add: removeClientConnection_def getClientConnection_def case_prod_beta
        unlink_client_other)
qed

lemmas state_defs = setDebug_def setForeground_def setDefaultServer_def setTrace_def
  setServerTokens_def setTestConfig_def setShowVersion_def setTcpNoPush_def setSendFile_def
  setWorkerConnections_def setWorkerProcesses_def setKeepaliveTimeout_def setPidFile_def
  setVersion_def setUser_def setGroup_def setDefaultType_def setServerList_def
  setUpstreamList_def setAccessLog_def setErrorLog_def setMimeTypeList_def

end
