(* ===== verification/OG_Directives.thy ===== *)
theory OG_Directives
  imports OG_State
begin

text \<open>
  The configuration directives of \<^verbatim>\<open>parseConfig.c\<close>: the temporary lists built up while
  the configuration file is parsed, the functions that set up the defaults, and one definition
  per \<open>f_\<close> function the grammar's actions call. A static list is the list of its
  structs, head first; the last struct of \<open>serverNames\<close>, \<open>ports\<close>, \<open>indexFiles\<close> and
  \<open>locations\<close> is the default. Name resolution (\<open>gethostbyname\<close>) is a parameter.
  \<open>f_server\<close> and \<open>f_http\<close> follow in the next theory.
\<close>

section \<open>The parser's statics\<close>

record pstate =
  ps_g :: gstate
  p_indexFiles :: "string list"
  p_serverNames :: "server_name list"
  p_ports :: "port list"
  p_locations :: "location list"
  p_tryTargets :: "string list"
  p_servers :: "nat list"
  p_currentAccessLog :: "nat option"
  p_currentErrorLog :: "nat option"
  p_certFile :: "string option"
  p_keyFile :: "string option"
  p_autoIndex :: bool
  p_protocol :: int

definition initial_pstate :: "gstate \<Rightarrow> pstate" where
  "initial_pstate g = \<lparr>ps_g = g, p_indexFiles = [], p_serverNames = [], p_ports = [],
     p_locations = [], p_tryTargets = [], p_servers = [], p_currentAccessLog = None,
     p_currentErrorLog = None, p_certFile = None, p_keyFile = None, p_autoIndex = False,
     p_protocol = PROTOCOL_UNSET\<rparr>"

abbreviation on_g :: "(gstate \<Rightarrow> gstate) \<Rightarrow> pstate \<Rightarrow> pstate" where
  "on_g f s \<equiv> s\<lparr>ps_g := f (ps_g s)\<rparr>"

type_synonym resolver = "string \<Rightarrow> 32 word option"

definition new_log :: "string \<Rightarrow> int \<Rightarrow> log_file" where
  "new_log path ty = \<lparr>lf_path = path, lf_fd = -1, lf_type = ty, lf_freed = False\<rparr>"

section \<open>Defaults\<close>

definition defaultAccessLog :: "pstate \<Rightarrow> pstate" where
  "defaultAccessLog = on_g (setAccessLog (new_log ''/var/log/ogws/access.log'' 0))"

definition defaultErrorLog :: "pstate \<Rightarrow> pstate" where
  "defaultErrorLog = on_g (setErrorLog (new_log ''/var/log/ogws/error.log'' 0))"

definition defaultPort :: "pstate \<Rightarrow> pstate" where
  "defaultPort s = s\<lparr>p_ports := [\<lparr>port_num = 8080, port_tls = False\<rparr>]\<rparr>"

definition default_name :: server_name where
  "default_name = \<lparr>sn_name = ''*'', sn_type = SERVER_NAME_EXACT\<rparr>"

definition defaultServerName :: "pstate \<Rightarrow> pstate" where
  "defaultServerName s = s\<lparr>p_serverNames := [default_name]\<rparr>"

definition default_root :: cptr where
  "default_root = Lit ''/var/www/ogws/html''"

definition default_location :: location where
  "default_location = \<lparr>loc_type = TYPE_DOC_ROOT, loc_matchType = PREFIX_MATCH,
     loc_match = ''/'', loc_root = Some default_root, loc_protocol = 0,
     loc_tryTarget = [], loc_passTo = None, loc_group = None, loc_expires = 0\<rparr>"

definition defaultLocation :: "pstate \<Rightarrow> pstate" where
  "defaultLocation s = s\<lparr>p_locations := default_location # p_locations s\<rparr>"

definition defaultType :: "pstate \<Rightarrow> pstate" where
  "defaultType = on_g (setDefaultType ''text/plain'')"

definition defaultIndexFile :: "pstate \<Rightarrow> pstate" where
  "defaultIndexFile s = s\<lparr>p_indexFiles := [''index.html'']\<rparr>"

section \<open>Main and http directives\<close>

definition f_pid :: "string \<Rightarrow> pstate \<Rightarrow> pstate" where
  "f_pid pidFile = on_g (setPidFile pidFile)"

definition f_include :: "string \<Rightarrow> pstate \<Rightarrow> pstate" where
  "f_include path s = s"

definition f_default_type :: "string \<Rightarrow> pstate \<Rightarrow> pstate" where
  "f_default_type t = on_g (setDefaultType t)"

definition f_trace :: "bool \<Rightarrow> pstate \<Rightarrow> pstate" where
  "f_trace t = on_g (setTrace t)"

definition f_autoindex :: "bool \<Rightarrow> pstate \<Rightarrow> pstate" where
  "f_autoindex flag s = s\<lparr>p_autoIndex := flag\<rparr>"

definition f_sendfile :: "bool \<Rightarrow> pstate \<Rightarrow> pstate" where
  "f_sendfile b = on_g (setSendFile b)"

definition f_tcpnopush :: "bool \<Rightarrow> pstate \<Rightarrow> pstate" where
  "f_tcpnopush b = on_g (setTcpNoPush b)"

definition f_user :: "string \<Rightarrow> string option \<Rightarrow> pstate \<Rightarrow> pstate" where
  "f_user u grp s =
     (let s' = on_g (setUser u) s
      in case grp of None \<Rightarrow> s' | Some n \<Rightarrow> on_g (setGroup n) s')"

definition f_server_tokens :: "bool \<Rightarrow> pstate \<Rightarrow> pstate" where
  "f_server_tokens flag = on_g (setServerTokens flag)"

definition f_keepalive_timeout :: "int \<Rightarrow> pstate \<Rightarrow> pstate" where
  "f_keepalive_timeout t = on_g (setKeepaliveTimeout t)"

definition f_workerProcesses :: "int \<Rightarrow> pstate \<Rightarrow> pstate" where
  "f_workerProcesses n = on_g (setWorkerProcesses n)"

definition f_workerConnections :: "int \<Rightarrow> pstate \<Rightarrow> pstate" where
  "f_workerConnections n = on_g (setWorkerConnections n)"

definition f_indexFile :: "string \<Rightarrow> pstate \<Rightarrow> pstate" where
  "f_indexFile f s = s\<lparr>p_indexFiles := f # p_indexFiles s\<rparr>"

definition f_error_log :: "string \<Rightarrow> pstate \<Rightarrow> pstate res" where
  "f_error_log path s =
     (if p_currentErrorLog s \<noteq> None then Inl (Exit 1)
      else Inr (on_g (setErrorLog (new_log path 0)) s
                  \<lparr>p_currentErrorLog := Some (length (g_errorLog (ps_g s)))\<rparr>))"

definition f_access_log :: "string \<Rightarrow> int \<Rightarrow> pstate \<Rightarrow> pstate res" where
  "f_access_log path ty s =
     (if p_currentAccessLog s \<noteq> None then Inl (Exit 1)
      else Inr (on_g (setAccessLog (new_log path ty)) s
                  \<lparr>p_currentAccessLog := Some (length (g_accessLog (ps_g s)))\<rparr>))"

section \<open>Server names and ports\<close>

fun dupName :: "string \<Rightarrow> server_name list \<Rightarrow> bool" where
  "dupName name [] = False"
| "dupName name [d] = False"
| "dupName name (sn # sn' # sns) = (sn_name sn = name \<or> dupName name (sn' # sns))"

definition f_server_name :: "cptr \<Rightarrow> int \<Rightarrow> pstate \<Rightarrow> pstate res" where
  \<comment> \<open>in debug mode the freed duplicate is printed\<close>
  "f_server_name serverName ty s =
     (if dupName (cval serverName) (p_serverNames s) then
        bind_res (c_free serverName) (\<lambda>_.
          if isDebug (ps_g s) then Inl UseAfterFree else Inr s)
      else Inr (s\<lparr>p_serverNames :=
             \<lparr>sn_name = cval serverName, sn_type = ty\<rparr> # p_serverNames s\<rparr>))"

fun dupPort :: "int \<Rightarrow> port list \<Rightarrow> bool" where
  "dupPort n [] = False"
| "dupPort n [d] = False"
| "dupPort n (p # p' # ps) = (port_num p = n \<or> dupPort n (p' # ps))"

definition f_listen :: "cptr option \<Rightarrow> int \<Rightarrow> pstate \<Rightarrow> pstate res" where
  "f_listen name portNum s =
     (let s1 = (if portNum > 0 \<and> \<not> dupPort portNum (p_ports s)
                then s\<lparr>p_ports := \<lparr>port_num = portNum, port_tls = False\<rparr> # p_ports s\<rparr>
                else s)
      in case name of
           None \<Rightarrow> Inr s1
         | Some n \<Rightarrow>
             if dupName (cval n) (p_serverNames s1) then bind_res (c_free n) (\<lambda>_. Inr s1)
             else Inr (s1\<lparr>p_serverNames :=
                    \<lparr>sn_name = cval n, sn_type = SERVER_NAME_EXACT\<rparr> # p_serverNames s1\<rparr>))"

definition f_tls :: "pstate \<Rightarrow> pstate res" where
  "f_tls s =
     (case p_ports s of
        [] \<Rightarrow> Inl NullDeref
      | p # ps \<Rightarrow> Inr (s\<lparr>p_ports := p\<lparr>port_tls := True\<rparr> # ps\<rparr>))"

section \<open>Certificates and the directives that only report\<close>

text \<open>The duplicate is freed; it always comes from the lexer's \<open>strdup\<close>.\<close>

definition f_ssl_certificate :: "string \<Rightarrow> pstate \<Rightarrow> pstate" where
  "f_ssl_certificate path s =
     (if p_certFile s \<noteq> None then s else s\<lparr>p_certFile := Some path\<rparr>)"

definition f_ssl_certificate_key :: "string \<Rightarrow> pstate \<Rightarrow> pstate" where
  "f_ssl_certificate_key path s =
     (if p_keyFile s \<noteq> None then s else s\<lparr>p_keyFile := Some path\<rparr>)"

text \<open>
  The remaining SSL directives change no state. Where they compute a value that they print, the
  definition is that value.
\<close>

definition f_ssl_session_timeout :: "string \<Rightarrow> int option res" where
  "f_ssl_session_timeout units =
     (if units = [] then Inl OutOfBounds
      else let c = last units in
        Inr (if c = CHR ''s'' then Some (to_int32 (atoi units * 1))
             else if c = CHR ''m'' then Some (to_int32 (atoi units * 60))
             else if c = CHR ''h'' then Some (to_int32 (atoi units * (60 * 60)))
             else if is_digit c then Some (to_int32 (atoi units * 1))
             else None))"

text \<open>A \<open>shared\<close> specification with one colon only is printed through a null pointer plus one.\<close>

definition check_ssl_session_cache :: "string \<Rightarrow> bool res" where
  "check_ssl_session_cache spec =
     (let v1 = strncmp0 (length ''builtin'') spec ''builtin'' in
      if strncmp0 (length ''shared'') spec ''shared'' then
        (case strchr spec (CHR '':'') of
           None \<Rightarrow> Inr False
         | Some s \<Rightarrow> (case strchr (tl s) (CHR '':'') of
             None \<Rightarrow> Inl NullDeref
           | Some sz \<Rightarrow> Inr True))
      else Inr v1)"

definition f_ssl_session_cache :: "string \<Rightarrow> string option \<Rightarrow> (bool \<times> bool option) res" where
  "f_ssl_session_cache spec spec2 =
     bind_res (check_ssl_session_cache spec) (\<lambda>v.
       case spec2 of
         None \<Rightarrow> Inr (v, None)
       | Some t \<Rightarrow> bind_res (check_ssl_session_cache t) (\<lambda>v2. Inr (v, Some v2)))"

definition f_ssl_session_cache_off :: "string \<Rightarrow> bool" where
  "f_ssl_session_cache_off spec = (spec = ''off'' \<or> spec = ''none'')"

section \<open>Locations\<close>

text \<open>
  \<open>locations == defLoc\<close> holds when the list is the default alone. Otherwise the head is
  taken to be the pending location.
\<close>

definition f_root :: "cptr \<Rightarrow> pstate \<Rightarrow> pstate res" where
  "f_root root s =
     (case p_locations s of
        [] \<Rightarrow> Inl NullDeref
      | [d] \<Rightarrow>
          Inr (s\<lparr>p_locations :=
            [d\<lparr>loc_root := Some root, loc_type := loc_type d OR TYPE_DOC_ROOT\<rparr>, d]\<rparr>)
      | l # l' # ls \<Rightarrow>
          bind_res (case loc_root l of None \<Rightarrow> Inr () | Some r \<Rightarrow> c_free r) (\<lambda>_.
          Inr (s\<lparr>p_locations :=
            l\<lparr>loc_type := loc_type l OR TYPE_DOC_ROOT, loc_root := Some root\<rparr> # l' # ls\<rparr>)))"

definition expires_value :: "string \<Rightarrow> int res" where
  "expires_value e =
     (if strncmp0 3 e ''off'' then Inr 0
      else if e = [] then Inl OutOfBounds
      else let c = last e in
        if is_digit c then Inr (atoi e)
        else let mult = (if c = CHR ''m'' then 60 else if c = CHR ''h'' then 60 * 60 else 1)
             in Inr (to_int32 (atoi (butlast e) * mult)))"

definition f_expires :: "cptr \<Rightarrow> pstate \<Rightarrow> pstate res" where
  "f_expires e s =
     (case p_locations s of
        [] \<Rightarrow> bind_res (c_free e) (\<lambda>_. Inr s)
      | l # ls \<Rightarrow>
          bind_res (expires_value (cval e)) (\<lambda>v.
          bind_res (c_free e) (\<lambda>_.
          Inr (s\<lparr>p_locations := l\<lparr>loc_expires := v\<rparr> # ls\<rparr>))))"

definition f_location :: "int \<Rightarrow> string \<Rightarrow> pstate \<Rightarrow> pstate res" where
  "f_location matchType match s =
     (case p_locations s of
        [] \<Rightarrow> Inl NullDeref
      | l # ls \<Rightarrow>
          let l1 = l\<lparr>loc_matchType := matchType, loc_match := match,
                     loc_protocol := p_protocol s\<rparr>
          in bind_res
               (case loc_root l1 of
                  Some r \<Rightarrow> Inr l1
                | None \<Rightarrow> (case ls of
                    [] \<Rightarrow> Inl (Exit 1)
                  | n # _ \<Rightarrow> (case loc_root n of
                      None \<Rightarrow> Inl (Exit 1)
                    | Some r \<Rightarrow> Inr (l1\<lparr>loc_root := Some r\<rparr>))))
               (\<lambda>l2. Inr (s\<lparr>p_locations := l2 # ls, p_protocol := PROTOCOL_UNSET\<rparr>)))"

definition f_try_target :: "string \<Rightarrow> pstate \<Rightarrow> pstate" where
  "f_try_target target s = s\<lparr>p_tryTargets := chain_append (p_tryTargets s) target\<rparr>"

definition f_try_files :: "pstate \<Rightarrow> pstate res" where
  "f_try_files s =
     (let upd = (\<lambda>l. l\<lparr>loc_type := loc_type l OR TYPE_TRY_FILES,
                       loc_matchType := UNSET_MATCH, loc_tryTarget := p_tryTargets s\<rparr>)
      in case p_locations s of
           [] \<Rightarrow> Inl NullDeref
         | [d] \<Rightarrow> Inr (s\<lparr>p_locations := [upd d, d], p_tryTargets := []\<rparr>)
         | l # l' # ls \<Rightarrow> Inr (s\<lparr>p_locations := upd l # l' # ls, p_tryTargets := []\<rparr>))"

definition f_protocol :: "string \<Rightarrow> pstate \<Rightarrow> pstate" where
  "f_protocol p s =
     (if length p = 5 \<and> p = ''https'' then s\<lparr>p_protocol := PROTOCOL_HTTPS\<rparr>
      else if length p = 5 \<and> p = ''http2'' then s\<lparr>p_protocol := PROTOCOL_HTTP2\<rparr>
      else if length p = 4 \<and> p = ''http'' then s\<lparr>p_protocol := PROTOCOL_HTTP\<rparr>
      else s)"

section \<open>Upstream groups and pass targets\<close>

text \<open>
  \<open>f_upstream\<close> allocates one node per unit of weight in front of the static list
  \<open>servers\<close>; \<open>f_upstreams\<close> closes the group. The static list is not reset.
\<close>

fun push_nodes :: "nat \<Rightarrow> upstream \<Rightarrow> pstate \<Rightarrow> pstate" where
  "push_nodes 0 u s = s"
| "push_nodes (Suc w) u s =
     push_nodes w u
       (s\<lparr>p_servers := length (g_nodes (ps_g s)) # p_servers s,
          ps_g := (ps_g s)\<lparr>g_nodes := g_nodes (ps_g s) @ [u]\<rparr>\<rparr>)"

definition f_upstream :: "string \<Rightarrow> int \<Rightarrow> int \<Rightarrow> pstate \<Rightarrow> pstate" where
  "f_upstream host p weight =
     push_nodes (nat weight)
       \<lparr>up_host = host, up_port = p, up_passTo = None, up_weight = weight\<rparr>"

definition f_upstreams :: "string \<Rightarrow> pstate \<Rightarrow> pstate" where
  "f_upstreams name s =
     on_g (setUpstreamList \<lparr>ug_current = p_servers s, ug_name = name,
            ug_servers = p_servers s, ug_freed = False\<rparr>) s"

fun find_group :: "string \<Rightarrow> nat \<Rightarrow> upstreams list \<Rightarrow> nat option res" where
  "find_group host i [] = Inr None"
| "find_group host i (u # us) =
     (if ug_freed u then Inl UseAfterFree
      else if length host = length (ug_name u) \<and> host = ug_name u then Inr (Some i)
      else find_group host (Suc i) us)"

definition isUpstreamGroup :: "string \<Rightarrow> pstate \<Rightarrow> nat option res" where
  "isUpstreamGroup host s = find_group host 0 (getUpstreamList (ps_g s))"

definition free_group :: "nat option \<Rightarrow> gstate \<Rightarrow> gstate res" where
  "free_group p g =
     (case p of None \<Rightarrow> Inr g
      | Some i \<Rightarrow>
          if ug_freed (g_upstreams g ! i) then Inl BadFree
          else Inr (g\<lparr>g_upstreams := (g_upstreams g)[i := (g_upstreams g ! i)\<lparr>ug_freed := True\<rparr>]\<rparr>))"

definition make_addr :: "int \<Rightarrow> 32 word \<Rightarrow> sockaddr_in" where
  "make_addr p a = \<lparr>sin_family = 2, sin_port = htons (word_of_int p), sin_addr = a\<rparr>"

fun resolve_nodes :: "resolver \<Rightarrow> nat list \<Rightarrow> upstream list \<Rightarrow> upstream list res" where
  "resolve_nodes dns [] nodes = Inr nodes"
| "resolve_nodes dns (a # as) nodes =
     (case dns (up_host (nodes ! a)) of
        None \<Rightarrow> Inl (Exit 1)
      | Some ip \<Rightarrow>
          resolve_nodes dns as
            (nodes[a := (nodes ! a)\<lparr>up_passTo := Some (make_addr (up_port (nodes ! a)) ip)\<rparr>]))"

definition proxyPassToUpstreamGroup :: "resolver \<Rightarrow> flags \<Rightarrow> nat \<Rightarrow> pstate \<Rightarrow> pstate res" where
  "proxyPassToUpstreamGroup dns ty grp s =
     bind_res
       (case p_locations s of
          [] \<Rightarrow> Inl NullDeref
        | [d] \<Rightarrow>
            Inr (s\<lparr>p_locations :=
              [d\<lparr>loc_group := Some grp, loc_type := loc_type d OR TYPE_UPSTREAM_GROUP\<rparr>, d]\<rparr>)
        | l # l' # ls \<Rightarrow>
            bind_res (free_group (loc_group l) (ps_g s)) (\<lambda>g.
            Inr (s\<lparr>ps_g := g, p_locations :=
              l\<lparr>loc_type := loc_type l OR ty, loc_group := Some grp\<rparr> # l' # ls\<rparr>)))
       (\<lambda>s1.
          let u = g_upstreams (ps_g s1) ! grp in
          if ug_freed u then Inl UseAfterFree
          else bind_res (resolve_nodes dns (ug_servers u) (g_nodes (ps_g s1))) (\<lambda>nodes.
            Inr (on_g (\<lambda>g. g\<lparr>g_nodes := nodes\<rparr>) s1)))"

definition proxyPassToHost :: "resolver \<Rightarrow> flags \<Rightarrow> string \<Rightarrow> int \<Rightarrow> pstate \<Rightarrow> pstate res" where
  "proxyPassToHost dns ty host p s =
     (case dns host of
        None \<Rightarrow> Inl (Exit 1)
      | Some ip \<Rightarrow>
          (case p_locations s of
             [] \<Rightarrow> Inl NullDeref
           | [d] \<Rightarrow>
               Inr (s\<lparr>p_locations :=
                 [d\<lparr>loc_passTo := Some (make_addr p ip),
                    loc_type := loc_type d OR TYPE_PROXY_PASS\<rparr>, d]\<rparr>)
           | l # l' # ls \<Rightarrow>
               Inr (s\<lparr>p_locations :=
                 l\<lparr>loc_type := loc_type l OR ty, loc_passTo := Some (make_addr p ip)\<rparr>
                 # l' # ls\<rparr>)))"

definition f_proxy_pass :: "resolver \<Rightarrow> string \<Rightarrow> int \<Rightarrow> pstate \<Rightarrow> pstate res" where
  "f_proxy_pass dns host p s =
     bind_res (isUpstreamGroup host s) (\<lambda>grp.
       case grp of
         Some i \<Rightarrow> proxyPassToUpstreamGroup dns TYPE_PROXY_PASS i s
       | None \<Rightarrow> proxyPassToHost dns TYPE_PROXY_PASS host p s)"

definition f_fastcgi_pass :: "resolver \<Rightarrow> string \<Rightarrow> int \<Rightarrow> pstate \<Rightarrow> pstate res" where
  "f_fastcgi_pass dns host p s =
     bind_res (isUpstreamGroup host s) (\<lambda>grp.
       case grp of
         Some i \<Rightarrow> proxyPassToUpstreamGroup dns TYPE_FASTCGI_PASS i s
       | None \<Rightarrow> proxyPassToHost dns TYPE_FASTCGI_PASS host p s)"

end
