(* ===== verification/OG_FastCGI.thy ===== *)
theory OG_FastCGI
  imports OG_State
begin

text \<open>
  The FastCGI parameter table of \<^verbatim>\<open>handleFastCGIPass.c\<close>: the search in it, the check of a
  \<open>fastcgi_param\<close> directive against it, the per-request initialisation, and the two
  directive functions of \<^verbatim>\<open>parseConfig.c\<close> that call the check.
\<close>

section \<open>The table\<close>

fun linearSearch :: "fcgi_param list \<Rightarrow> string \<Rightarrow> fcgi_param option" where
  "linearSearch [] key = None"
| "linearSearch (p # ps) key = (if fp_key p = key then Some p else linearSearch ps key)"

datatype param_check = ParamDefault | ParamChangeIgnored | ParamUnknownIgnored

definition checkParameter :: "string \<Rightarrow> string \<Rightarrow> param_check" where
  "checkParameter key val =
     (case linearSearch fastCgiParams key of
        Some p \<Rightarrow> if fp_paramName p \<noteq> val then ParamChangeIgnored else ParamDefault
      | None \<Rightarrow> ParamUnknownIgnored)"

fun initParameter :: "request \<Rightarrow> fcgi_param \<Rightarrow> fcgi_param" where
  "initParameter req p =
     (if fp_key p = ''QUERY_STRING'' then p\<lparr>fp_value := req_queryString req\<rparr>
      else if fp_key p = ''REQUEST_METHOD'' then p\<lparr>fp_value := req_verb req\<rparr>
      else if fp_key p = ''CONTENT_TYPE'' then p
      else if fp_key p = ''CONTENT_LENGTH'' then p
      else if fp_key p = ''GATEWAY_INTERFACE'' then
        (if fp_value p = None then p\<lparr>fp_value := Some (fp_paramName p)\<rparr> else p)
      else p)"

definition initParameters :: "request \<Rightarrow> gstate \<Rightarrow> gstate" where
  "initParameters req g = g\<lparr>g_fcgiParams := map (initParameter req) (g_fcgiParams g)\<rparr>"

lemma initParameter_key [simp]: "fp_key (initParameter req p) = fp_key p"
  by simp

declare initParameter.simps [simp del]

lemma linearSearch_map:
  "linearSearch (map (initParameter req) ps) key =
     map_option (initParameter req) (linearSearch ps key)"
  by (induction ps) auto

lemma linearSearch_Some: "linearSearch ps key = Some p \<Longrightarrow> p \<in> set ps \<and> fp_key p = key"
  by (induction ps) (auto split: if_splits)

lemma linearSearch_None: "linearSearch ps key = None \<longleftrightarrow> key \<notin> fp_key ` set ps"
  by (induction ps) auto

section \<open>Directives\<close>

definition f_fastcgi_param :: "string \<Rightarrow> string \<Rightarrow> string option \<Rightarrow> param_check" where
  "f_fastcgi_param name v v2 =
     (case v2 of None \<Rightarrow> checkParameter name v | Some w \<Rightarrow> checkParameter name (v @ w))"

text \<open>
  \<open>ceil(log10(v))\<close> for a positive integer: the least \<open>k\<close> with \<open>v \<le> 10 ^ k\<close>. For
  \<open>v \<le> 0\<close> the logarithm is infinite or not a number, the conversion to \<open>int\<close> gives the
  least \<open>int\<close>, and \<open>malloc\<close> of that size as a \<open>size_t\<close> returns null.
\<close>

fun ceil_log10 :: "nat \<Rightarrow> nat" where
  "ceil_log10 v = (if v \<le> 1 then 0 else Suc (ceil_log10 ((v + 9) div 10)))"

declare ceil_log10.simps [simp del]

definition f_fastcgi_num_param :: "string \<Rightarrow> int \<Rightarrow> param_check res" where
  "f_fastcgi_num_param name v =
     (if v \<le> 0 then Inl NullDeref
      else let len = ceil_log10 (nat v) + 1; str = fmt_d v in
        if len < length str + 1 then Inl OutOfBounds
        else Inr (checkParameter name str))"

lemma ceil_log10_bounds:
  "1 \<le> v \<Longrightarrow> v \<le> 10 ^ ceil_log10 v \<and> (0 < ceil_log10 v \<longrightarrow> 10 ^ (ceil_log10 v - 1) < v)"
proof (induction v rule: ceil_log10.induct)
  case (1 v)
  show ?case
  proof (cases "v \<le> 1")
    case True
    then have "ceil_log10 v = 0" by (simp add: ceil_log10.simps [of v])
    with True show ?thesis by simp
  next
    case False
    let ?w = "(v + 9) div 10" and ?k = "ceil_log10 ((v + 9) div 10)"
    from False have k: "ceil_log10 v = Suc ?k" by (simp add: ceil_log10.simps [of v])
    from False have "1 \<le> ?w" by simp
    with "1.IH" False have ih: "?w \<le> 10 ^ ?k" "0 < ?k \<longrightarrow> 10 ^ (?k - 1) < ?w" by auto
    from ih(1) have "v \<le> 10 * 10 ^ ?k" by linarith
    moreover have "10 ^ ?k < v"
    proof (cases "?k = 0")
      case True
      then show ?thesis using False by simp
    next
      case k0: False
      with ih(2) have "10 ^ (?k - 1) < ?w" by simp
      then have "10 * 10 ^ (?k - 1) < v" by linarith
      with k0 show ?thesis by (cases ?k) auto
    qed
    ultimately show ?thesis by (simp add: k)
  qed
qed

lemma length_show_nat_pow: "10 ^ k \<le> n \<Longrightarrow> k < length (show_nat n)"
proof (induction k arbitrary: n)
  case 0
  then show ?case using show_nat_nonempty [of n] by simp
next
  case (Suc k)
  from Suc.prems have "10 \<le> n" using one_le_power [of "10::nat" k] by (simp, linarith)
  moreover from Suc.prems have "10 ^ k \<le> n div 10" by (simp add: less_eq_div_iff_mult_less_eq mult.commute)
  ultimately show ?case using Suc.IH [of "n div 10"] by (simp add: show_nat.simps [of n])
qed

lemma ceil_log10_pow: "ceil_log10 (10 ^ k) = k"
proof -
  have b: "10 ^ k \<le> (10::nat) ^ ceil_log10 (10 ^ k)"
    "0 < ceil_log10 (10 ^ k) \<longrightarrow> 10 ^ (ceil_log10 (10 ^ k) - 1) < (10::nat) ^ k"
    using ceil_log10_bounds [of "10 ^ k"] by auto
  from b(1) have "k \<le> ceil_log10 (10 ^ k)" by simp
  moreover from b(2) have "ceil_log10 (10 ^ k) \<le> k" by (cases "ceil_log10 (10 ^ k)") auto
  ultimately show ?thesis by simp
qed

lemma num_param_fits:
  assumes "1 \<le> v" and "\<nexists>k. v = 10 ^ k"
  shows "length (show_nat v) + 1 \<le> ceil_log10 v + 1"
proof -
  from ceil_log10_bounds [OF assms(1)] assms(2) have "v < 10 ^ ceil_log10 v"
    by (metis order_le_imp_less_or_eq)
  moreover from this assms have "0 < ceil_log10 v" by (cases "ceil_log10 v") auto
  ultimately show ?thesis using length_show_nat_le by auto
qed

end
