(* ===== verification/OG_Grammar.thy ===== *)
theory OG_Grammar
  imports OG_ServerBlock OG_FastCGI
begin

text \<open>
  The configuration language of \<^verbatim>\<open>og_ws.y\<close>: one datatype per nonterminal that lists
  directives, one constructor per production that has an action of its own, and the function
  that runs the actions of a parsed configuration in the order the parser runs them (a
  block's directives before the block's own action). A value of these types is a configuration that
  the grammar accepts; \<open>OG_Parser\<close> reads one from a text.
\<close>

section \<open>Abstract syntax\<close>

datatype fcgi_directive =
    FP_param string string "string option"
  | FP_num string int

datatype location_directive =
    L_root string
  | L_proxy_pass string string int
  | L_fastcgi_pass string int
  | L_fastcgi_split_path_info string
  | L_fastcgi_index string
  | L_fastcgi_param fcgi_directive
  | L_expires string
  | L_expires_off
  | L_try_files "string list"
  | L_default_type string

datatype listen_option =
    O_port int
  | O_name string
  | O_wildcard
  | O_default_server
  | O_ssl
  | O_http2
  | O_reuseport
  | O_name_port string int
  | O_wildcard_port int

datatype ssl_directive =
    Ssl_certificate string
  | Ssl_certificate_key string
  | Ssl_session_timeout string
  | Ssl_session_timeout_num int
  | Ssl_session_cache string "string option"
  | Ssl_session_cache_off string
  | Ssl_session_tickets bool
  | Ssl_prefer_server_ciphers bool
  | Ssl_dhparam string
  | Ssl_protocols "string list"
  | Ssl_ciphers string

datatype server_directive =
    S_server_name "(string \<times> int) list"
  | S_server_tokens bool
  | S_access_log string int
  | S_error_log string
  | S_root string
  | S_autoindex bool
  | S_location int string "location_directive list"
  | S_listen "listen_option list"
  | S_ssl ssl_directive
  | S_index "string list"
  | S_default_type string
  | S_fastcgi_param fcgi_directive

datatype upstream_weight = No_weight | Weight int | Backup

datatype upstream_entry = Upstream_entry string "int option" upstream_weight

datatype http_directive =
    H_include string
  | H_index "string list"
  | H_default_type string
  | H_access_log string int
  | H_error_log string
  | H_log_format
  | H_sendfile bool
  | H_tcp_nopush bool
  | H_keepalive int
  | H_hash_bucket_size int
  | H_server "server_directive list"
  | H_upstream string "upstream_entry list"
  | H_ssl ssl_directive
  | H_fastcgi_param fcgi_directive

datatype main_directive =
    M_user string "string option"
  | M_access_log string int
  | M_error_log string
  | M_pid string
  | M_include string
  | M_trace bool
  | M_worker_processes int
  | M_worker_rlimit_nofile int

record config =
  cfg_main :: "main_directive list"
  cfg_events :: "int list"
  cfg_http :: "http_directive list"

section \<open>Actions\<close>

fun exec_fcgi :: "fcgi_directive \<Rightarrow> pstate \<Rightarrow> pstate res" where
  "exec_fcgi (FP_param n v v2) s = (let _ = f_fastcgi_param n v v2 in Inr s)"
| "exec_fcgi (FP_num n v) s = bind_res (f_fastcgi_num_param n v) (\<lambda>_. Inr s)"

fun exec_location_directive :: "resolver \<Rightarrow> location_directive \<Rightarrow> pstate \<Rightarrow> pstate res" where
  "exec_location_directive dns (L_root p) s = f_root (Heap p) s"
| "exec_location_directive dns (L_proxy_pass proto h p) s =
     f_proxy_pass dns h p (f_protocol proto s)"
| "exec_location_directive dns (L_fastcgi_pass h p) s = f_fastcgi_pass dns h p s"
| "exec_location_directive dns (L_fastcgi_split_path_info r) s = Inr s"
| "exec_location_directive dns (L_fastcgi_index f) s = Inr s"
| "exec_location_directive dns (L_fastcgi_param d) s = exec_fcgi d s"
| "exec_location_directive dns (L_expires e) s = f_expires (Heap e) s"
| "exec_location_directive dns L_expires_off s = f_expires (Lit ''off'') s"
| "exec_location_directive dns (L_try_files ts) s = f_try_files (fold f_try_target ts s)"
| "exec_location_directive dns (L_default_type t) s = Inr (f_default_type t s)"

fun exec_listen_option :: "listen_option \<Rightarrow> pstate \<Rightarrow> pstate res" where
  "exec_listen_option (O_port n) s = f_listen None n s"
| "exec_listen_option (O_name h) s = f_listen (Some (Heap h)) 0 s"
| "exec_listen_option O_wildcard s = f_listen (Some (Lit ''*'')) 0 s"
| "exec_listen_option O_default_server s = Inr s"
| "exec_listen_option O_ssl s = f_tls s"
| "exec_listen_option O_http2 s = Inr s"
| "exec_listen_option O_reuseport s = Inr s"
| "exec_listen_option (O_name_port h n) s = f_listen (Some (Heap h)) n s"
| "exec_listen_option (O_wildcard_port n) s = f_listen (Some (Lit ''*'')) n s"

fun exec_ssl :: "ssl_directive \<Rightarrow> pstate \<Rightarrow> pstate res" where
  "exec_ssl (Ssl_certificate p) s = Inr (f_ssl_certificate p s)"
| "exec_ssl (Ssl_certificate_key p) s = Inr (f_ssl_certificate_key p s)"
| "exec_ssl (Ssl_session_timeout u) s = bind_res (f_ssl_session_timeout u) (\<lambda>_. Inr s)"
| "exec_ssl (Ssl_session_timeout_num n) s = Inr s"
| "exec_ssl (Ssl_session_cache c c2) s = bind_res (f_ssl_session_cache c c2) (\<lambda>_. Inr s)"
| "exec_ssl (Ssl_session_cache_off c) s = (let _ = f_ssl_session_cache_off c in Inr s)"
| "exec_ssl (Ssl_session_tickets b) s = Inr s"
| "exec_ssl (Ssl_prefer_server_ciphers b) s = Inr s"
| "exec_ssl (Ssl_dhparam p) s = Inr s"
| "exec_ssl (Ssl_protocols ps) s = Inr s"
| "exec_ssl (Ssl_ciphers c) s = Inr s"

fun exec_server_directive :: "resolver \<Rightarrow> server_directive \<Rightarrow> pstate \<Rightarrow> pstate res" where
  "exec_server_directive dns (S_server_name ns) s =
     run_res (\<lambda>(n, t). f_server_name (Heap n) t) ns s"
| "exec_server_directive dns (S_server_tokens b) s = Inr (f_server_tokens b s)"
| "exec_server_directive dns (S_access_log p t) s = f_access_log p t s"
| "exec_server_directive dns (S_error_log p) s = f_error_log p s"
| "exec_server_directive dns (S_root p) s = f_root (Heap p) s"
| "exec_server_directive dns (S_autoindex b) s = Inr (f_autoindex b s)"
| "exec_server_directive dns (S_location t m ds) s =
     bind_res (run_res (exec_location_directive dns) ds s) (f_location t m)"
| "exec_server_directive dns (S_listen os) s = run_res exec_listen_option os s"
| "exec_server_directive dns (S_ssl d) s = exec_ssl d s"
| "exec_server_directive dns (S_index fs) s = Inr (fold f_indexFile fs s)"
| "exec_server_directive dns (S_default_type t) s = Inr (f_default_type t s)"
| "exec_server_directive dns (S_fastcgi_param d) s = exec_fcgi d s"

fun exec_upstream :: "upstream_entry \<Rightarrow> pstate \<Rightarrow> pstate" where
  "exec_upstream (Upstream_entry h p w) s =
     f_upstream h (case p of None \<Rightarrow> 8080 | Some n \<Rightarrow> n)
       (case w of No_weight \<Rightarrow> 1 | Weight n \<Rightarrow> n | Backup \<Rightarrow> -1) s"

fun exec_http_directive :: "resolver \<Rightarrow> http_directive \<Rightarrow> pstate \<Rightarrow> pstate res" where
  "exec_http_directive dns (H_include p) s = Inr (f_include p s)"
| "exec_http_directive dns (H_index fs) s = Inr (fold f_indexFile fs s)"
| "exec_http_directive dns (H_default_type t) s = Inr (f_default_type t s)"
| "exec_http_directive dns (H_access_log p t) s = f_access_log p t s"
| "exec_http_directive dns (H_error_log p) s = f_error_log p s"
| "exec_http_directive dns H_log_format s = Inr s"
| "exec_http_directive dns (H_sendfile b) s = Inr (f_sendfile b s)"
| "exec_http_directive dns (H_tcp_nopush b) s = Inr (f_tcpnopush b s)"
| "exec_http_directive dns (H_keepalive n) s = Inr (f_keepalive_timeout n s)"
| "exec_http_directive dns (H_hash_bucket_size n) s = Inr s"
| "exec_http_directive dns (H_server ds) s =
     bind_res (run_res (exec_server_directive dns) ds s) f_server"
| "exec_http_directive dns (H_upstream n us) s = Inr (f_upstreams n (fold exec_upstream us s))"
| "exec_http_directive dns (H_ssl d) s = exec_ssl d s"
| "exec_http_directive dns (H_fastcgi_param d) s = exec_fcgi d s"

fun exec_main_directive :: "main_directive \<Rightarrow> pstate \<Rightarrow> pstate res" where
  "exec_main_directive (M_user u grp) s = Inr (f_user u grp s)"
| "exec_main_directive (M_access_log p t) s = f_access_log p t s"
| "exec_main_directive (M_error_log p) s = f_error_log p s"
| "exec_main_directive (M_pid p) s = Inr (f_pid p s)"
| "exec_main_directive (M_include p) s = Inr (f_include p s)"
| "exec_main_directive (M_trace b) s = Inr (f_trace b s)"
| "exec_main_directive (M_worker_processes n) s = Inr (f_workerProcesses n s)"
| "exec_main_directive (M_worker_rlimit_nofile n) s = Inr s"

definition yyparse :: "resolver \<Rightarrow> config \<Rightarrow> pstate \<Rightarrow> pstate res" where
  "yyparse dns c s =
     bind_res (run_res exec_main_directive (cfg_main c) s) (\<lambda>s1.
     bind_res (run_res (exec_http_directive dns) (cfg_http c)
                 (fold f_workerConnections (cfg_events c) s1)) (\<lambda>s2.
     Inr (f_http s2)))"

text \<open>What the parser finds: a configuration, or a syntax error before which some actions have run.\<close>

datatype parsing = Parsed config | Syntax_error "resolver \<Rightarrow> pstate \<Rightarrow> pstate res"

end
