(* ===== verification/OG_ParseInv.thy ===== *)
theory OG_ParseInv
  imports OG_Grammar
begin

text \<open>
  The invariant of the configuration parser, kept by every directive and by the two block
  actions. It holds in the state the defaults set up, so it holds when the parser is done.
\<close>

section \<open>The invariant\<close>

definition log_ok :: "log_file list \<Rightarrow> nat option \<Rightarrow> bool" where
  "log_ok ls p = (case p of None \<Rightarrow> False | Some i \<Rightarrow> i < length ls)"

definition location_ok :: "nat \<Rightarrow> location \<Rightarrow> bool" where
  "location_ok n l =
     (loc_root l \<noteq> None \<and> (case loc_group l of None \<Rightarrow> True | Some i \<Rightarrow> i < n))"

definition server_ok :: "gstate \<Rightarrow> server \<Rightarrow> bool" where
  "server_ok g s =
     (srv_names s \<noteq> [] \<and> srv_indexFiles s \<noteq> [] \<and> srv_ports s \<noteq> [] \<and>
      length (srv_locations s) = 1 \<and>
      list_all (location_ok (length (g_upstreams g))) (srv_locations s) \<and>
      log_ok (g_accessLog g) (srv_accessLog s) \<and> log_ok (g_errorLog g) (srv_errorLog s) \<and>
      \<not> srv_tls s)"

definition group_ok :: "nat \<Rightarrow> upstreams \<Rightarrow> bool" where
  "group_ok n u = (list_all (\<lambda>a. a < n) (ug_servers u) \<and> list_all (\<lambda>a. a < n) (ug_current u))"

definition gstate_ok :: "gstate \<Rightarrow> bool" where
  "gstate_ok g =
     (list_all (server_ok g) (g_servers g) \<and>
      list_all (group_ok (length (g_nodes g))) (g_upstreams g) \<and>
      g_accessLog g \<noteq> [] \<and> g_errorLog g \<noteq> [] \<and>
      list_all (\<lambda>l. \<not> lf_freed l) (g_accessLog g) \<and>
      list_all (\<lambda>l. \<not> lf_freed l) (g_errorLog g))"

text \<open>The location list is the default, or one pending location and the default.\<close>

definition one_pending :: "'a list \<Rightarrow> bool" where
  "one_pending xs = (case xs of [d] \<Rightarrow> True | [l, d] \<Rightarrow> True | _ \<Rightarrow> False)"

lemma one_pending_iff [simp]:
  "one_pending xs \<longleftrightarrow> (\<exists>d. xs = [d]) \<or> (\<exists>l d. xs = [l, d])"
  by (auto simp: one_pending_def split: list.splits)

text \<open>The default stays at the end of each list.\<close>

definition defaults_last :: "pstate \<Rightarrow> bool" where
  "defaults_last s =
     (last (p_serverNames s) = default_name \<and> last (p_indexFiles s) = ''index.html'' \<and>
      port_num (last (p_ports s)) = 8080 \<and>
      loc_root (last (p_locations s)) = Some default_root)"

definition pinv :: "pstate \<Rightarrow> bool" where
  "pinv s =
     (gstate_ok (ps_g s) \<and> defaults_last s \<and>
      p_serverNames s \<noteq> [] \<and> p_indexFiles s \<noteq> [] \<and> p_ports s \<noteq> [] \<and>
      one_pending (p_locations s) \<and>
      list_all (location_ok (length (g_upstreams (ps_g s)))) (p_locations s) \<and>
      list_all (\<lambda>a. a < length (g_nodes (ps_g s))) (p_servers s) \<and>
      (p_currentAccessLog s \<noteq> None \<longrightarrow> log_ok (g_accessLog (ps_g s)) (p_currentAccessLog s)) \<and>
      (p_currentErrorLog s \<noteq> None \<longrightarrow> log_ok (g_errorLog (ps_g s)) (p_currentErrorLog s)))"

text \<open>Outside a \<open>server\<close> block only the default location is left.\<close>

definition pinv_http :: "pstate \<Rightarrow> bool" where
  "pinv_http s = (pinv s \<and> length (p_locations s) = 1)"

lemmas ok_defs = log_ok_def location_ok_def server_ok_def group_ok_def gstate_ok_def

text \<open>The invariant reads the chains only, and survives their growth.\<close>

lemma log_ok_append: "log_ok ls p \<Longrightarrow> log_ok (ls @ xs) p"
  by (auto simp: log_ok_def split: option.splits)

lemma location_ok_mono: "location_ok n l \<Longrightarrow> n \<le> m \<Longrightarrow> location_ok m l"
  by (auto simp: location_ok_def split: option.splits)

lemma group_ok_mono: "group_ok n u \<Longrightarrow> n \<le> m \<Longrightarrow> group_ok m u"
  by (auto simp: group_ok_def list_all_iff)

lemma server_ok_mono:
  assumes "server_ok g s" "length (g_upstreams g) \<le> length (g_upstreams g')"
    "\<exists>xs. g_accessLog g' = g_accessLog g @ xs" "\<exists>xs. g_errorLog g' = g_errorLog g @ xs"
  shows "server_ok g' s"
  using assms
  by (auto simp: server_ok_def list_all_iff intro: location_ok_mono log_ok_append)

lemma gstate_ok_cong:
  "g_servers g' = g_servers g \<Longrightarrow> g_upstreams g' = g_upstreams g \<Longrightarrow> g_nodes g' = g_nodes g \<Longrightarrow>
   g_accessLog g' = g_accessLog g \<Longrightarrow> g_errorLog g' = g_errorLog g \<Longrightarrow>
   gstate_ok g' = gstate_ok g"
  by (simp add: gstate_ok_def server_ok_def [abs_def])

lemma pinv_on_g_scalar:
  assumes "pinv s" "g_servers (f (ps_g s)) = g_servers (ps_g s)"
    "g_upstreams (f (ps_g s)) = g_upstreams (ps_g s)" "g_nodes (f (ps_g s)) = g_nodes (ps_g s)"
    "g_accessLog (f (ps_g s)) = g_accessLog (ps_g s)"
    "g_errorLog (f (ps_g s)) = g_errorLog (ps_g s)"
  shows "pinv (on_g f s)"
  using assms gstate_ok_cong [of "f (ps_g s)" "ps_g s"] by (simp add: pinv_def defaults_last_def)

section \<open>Directives that set a value\<close>

lemma pinv_scalar_directives:
  assumes "pinv s"
  shows "pinv (f_pid p s)" "pinv (f_include q s)" "pinv (f_default_type t s)"
    "pinv (f_trace b s)" "pinv (f_sendfile b s)" "pinv (f_tcpnopush b s)"
    "pinv (f_user u grp s)" "pinv (f_server_tokens b s)" "pinv (f_keepalive_timeout n s)"
    "pinv (f_workerProcesses n s)" "pinv (f_workerConnections n s)"
    "pinv (f_autoindex b s)" "pinv (f_indexFile i s)" "pinv (f_protocol pr s)"
    "pinv (f_try_target tt s)" "pinv (f_ssl_certificate c s)" "pinv (f_ssl_certificate_key c s)"
proof -
  show "pinv (f_pid p s)" "pinv (f_default_type t s)" "pinv (f_trace b s)"
    "pinv (f_sendfile b s)" "pinv (f_tcpnopush b s)" "pinv (f_server_tokens b s)"
    "pinv (f_keepalive_timeout n s)" "pinv (f_workerProcesses n s)"
    "pinv (f_workerConnections n s)"
    unfolding f_pid_def f_default_type_def f_trace_def f_sendfile_def f_tcpnopush_def
      f_server_tokens_def f_keepalive_timeout_def f_workerProcesses_def f_workerConnections_def
    by (rule pinv_on_g_scalar [OF assms]; simp add: state_defs)+
  have "pinv (on_g (setUser u) s)"
    by (rule pinv_on_g_scalar [OF assms]; simp add: state_defs)
  moreover from this have "pinv (on_g (setGroup g) (on_g (setUser u) s))" for g
    by (rule pinv_on_g_scalar; simp add: state_defs)
  ultimately show "pinv (f_user u grp s)"
    by (simp add: f_user_def Let_def split: option.split)
  show "pinv (f_include q s)" "pinv (f_autoindex b s)" "pinv (f_indexFile i s)"
    "pinv (f_protocol pr s)" "pinv (f_try_target tt s)" "pinv (f_ssl_certificate c s)"
    "pinv (f_ssl_certificate_key c s)"
    using assms
    by (simp_all add: pinv_def defaults_last_def f_include_def f_autoindex_def f_indexFile_def f_protocol_def
        f_try_target_def f_ssl_certificate_def f_ssl_certificate_key_def)
qed

lemma pinv_fold:
  assumes "\<And>a s. pinv s \<Longrightarrow> pinv (f a s)" "pinv s" shows "pinv (fold f as s)"
  using assms by (induction as arbitrary: s) auto

lemma scalar_keeps_locations:
  "p_locations (f_pid p s) = p_locations s" "p_locations (f_include q s) = p_locations s"
  "p_locations (f_default_type t s) = p_locations s" "p_locations (f_trace b s) = p_locations s"
  "p_locations (f_sendfile b s) = p_locations s" "p_locations (f_tcpnopush b s) = p_locations s"
  "p_locations (f_user u grp s) = p_locations s"
  "p_locations (f_server_tokens b s) = p_locations s"
  "p_locations (f_keepalive_timeout n s) = p_locations s"
  "p_locations (f_workerProcesses n s) = p_locations s"
  "p_locations (f_workerConnections n s) = p_locations s"
  "p_locations (f_autoindex b s) = p_locations s" "p_locations (f_indexFile i s) = p_locations s"
  "p_locations (f_ssl_certificate c s) = p_locations s"
  "p_locations (f_ssl_certificate_key c s) = p_locations s"
  by (simp_all add: f_pid_def f_include_def f_default_type_def f_trace_def f_sendfile_def
      f_tcpnopush_def f_user_def f_server_tokens_def f_keepalive_timeout_def
      f_workerProcesses_def f_workerConnections_def f_autoindex_def f_indexFile_def
      f_ssl_certificate_def f_ssl_certificate_key_def Let_def split: option.split)

section \<open>Logs, names and ports\<close>

lemma pinv_add_access_log:
  assumes "pinv s" "\<not> lf_freed l"
  shows "pinv (on_g (setAccessLog l) s\<lparr>p_currentAccessLog := Some (length (g_accessLog (ps_g s)))\<rparr>)"
proof -
  have "server_ok (setAccessLog l (ps_g s)) srv" if "server_ok (ps_g s) srv" for srv
    using that by (rule server_ok_mono) (auto simp: setAccessLog_def)
  then have "list_all (server_ok (setAccessLog l (ps_g s))) (g_servers (ps_g s))"
    using assms(1) by (auto simp: pinv_def gstate_ok_def elim: list.pred_mono_strong)
  with assms show ?thesis
    by (simp add: pinv_def defaults_last_def gstate_ok_def setAccessLog_def log_ok_def)
qed

lemma pinv_add_error_log:
  assumes "pinv s" "\<not> lf_freed l"
  shows "pinv (on_g (setErrorLog l) s\<lparr>p_currentErrorLog := Some (length (g_errorLog (ps_g s)))\<rparr>)"
proof -
  have "server_ok (setErrorLog l (ps_g s)) srv" if "server_ok (ps_g s) srv" for srv
    using that by (rule server_ok_mono) (auto simp: setErrorLog_def)
  then have "list_all (server_ok (setErrorLog l (ps_g s))) (g_servers (ps_g s))"
    using assms(1) by (auto simp: pinv_def gstate_ok_def elim: list.pred_mono_strong)
  with assms show ?thesis
    by (simp add: pinv_def defaults_last_def gstate_ok_def setErrorLog_def log_ok_def)
qed

lemma pinv_logs:
  "pinv s \<Longrightarrow> f_access_log p t s = Inr s' \<Longrightarrow> pinv s'"
  "pinv s \<Longrightarrow> f_error_log p s = Inr s' \<Longrightarrow> pinv s'"
  using pinv_add_access_log [of s "new_log p t"] pinv_add_error_log [of s "new_log p 0"]
  by (auto simp: f_access_log_def f_error_log_def new_log_def split: if_splits)

lemma pinv_set_names:
  "pinv s \<Longrightarrow> pinv (s\<lparr>p_serverNames := n # p_serverNames s\<rparr>)"
  by (simp add: pinv_def defaults_last_def)

lemma pinv_set_ports:
  "pinv s \<Longrightarrow> pinv (s\<lparr>p_ports := p # p_ports s\<rparr>)"
  by (simp add: pinv_def defaults_last_def)

lemma pinv_server_name: "pinv s \<Longrightarrow> f_server_name n t s = Inr s' \<Longrightarrow> pinv s'"
  by (auto simp: f_server_name_def res_simps intro: pinv_set_names split: if_splits)

lemma pinv_listen:
  assumes "pinv s" "f_listen nm pn s = Inr s'" shows "pinv s'"
proof -
  define s1 where "s1 = (if pn > 0 \<and> \<not> dupPort pn (p_ports s)
      then s\<lparr>p_ports := \<lparr>port_num = pn, port_tls = False\<rparr> # p_ports s\<rparr> else s)"
  have "pinv s1" using assms(1) by (simp add: s1_def pinv_set_ports)
  moreover from assms(2) have "(case nm of
           None \<Rightarrow> Inr s1
         | Some n \<Rightarrow>
             if dupName (cval n) (p_serverNames s1) then bind_res (c_free n) (\<lambda>_. Inr s1)
             else Inr (s1\<lparr>p_serverNames :=
                    \<lparr>sn_name = cval n, sn_type = SERVER_NAME_EXACT\<rparr> # p_serverNames s1\<rparr>)) = Inr s'"
    unfolding f_listen_def Let_def s1_def .
  ultimately show ?thesis
    by (auto simp: res_simps intro: pinv_set_names split: option.splits if_splits)
qed

lemma pinv_tls: "pinv s \<Longrightarrow> f_tls s = Inr s' \<Longrightarrow> pinv s'"
  by (auto simp: f_tls_def pinv_def defaults_last_def split: list.splits)

lemmas pinv_names = pinv_server_name pinv_listen pinv_tls

section \<open>Locations\<close>

lemma pinv_frame [simp]:
  "pinv (s\<lparr>p_protocol := x\<rparr>) = pinv s" "pinv (s\<lparr>p_tryTargets := y\<rparr>) = pinv s"
  by (simp_all add: pinv_def defaults_last_def)

lemma pinv_set_locations:
  "pinv s \<Longrightarrow> one_pending ls \<Longrightarrow> list_all (location_ok (length (g_upstreams (ps_g s)))) ls \<Longrightarrow>
   loc_root (last ls) = Some default_root \<Longrightarrow> pinv (s\<lparr>p_locations := ls\<rparr>)"
  by (simp add: pinv_def defaults_last_def del: one_pending_iff)

lemma pinv_locsE:
  assumes "pinv s"
  obtains (default) d where "p_locations s = [d]"
      "location_ok (length (g_upstreams (ps_g s))) d" "loc_root d = Some default_root"
  | (pending) l d where "p_locations s = [l, d]"
      "location_ok (length (g_upstreams (ps_g s))) l"
      "location_ok (length (g_upstreams (ps_g s))) d" "loc_root d = Some default_root"
proof -
  from assms have "one_pending (p_locations s)" "defaults_last s"
    "list_all (location_ok (length (g_upstreams (ps_g s)))) (p_locations s)"
    by (simp_all add: pinv_def del: one_pending_iff)
  then show thesis
    using default pending by (auto simp: defaults_last_def)
qed

lemma location_ok_upd [simp]:
  "location_ok n (l\<lparr>loc_type := a\<rparr>) = location_ok n l"
  "location_ok n (l\<lparr>loc_matchType := b\<rparr>) = location_ok n l"
  "location_ok n (l\<lparr>loc_match := c\<rparr>) = location_ok n l"
  "location_ok n (l\<lparr>loc_protocol := b\<rparr>) = location_ok n l"
  "location_ok n (l\<lparr>loc_expires := b\<rparr>) = location_ok n l"
  "location_ok n (l\<lparr>loc_tryTarget := tt\<rparr>) = location_ok n l"
  "location_ok n (l\<lparr>loc_passTo := pt\<rparr>) = location_ok n l"
  by (simp_all add: location_ok_def)

lemma location_ok_root: "location_ok n l \<Longrightarrow> location_ok n (l\<lparr>loc_root := Some r\<rparr>)"
  by (simp add: location_ok_def)

lemma location_ok_group:
  "location_ok n l \<Longrightarrow> i < n \<Longrightarrow> location_ok n (l\<lparr>loc_group := Some i\<rparr>)"
  by (simp add: location_ok_def)

lemma pinv_root: "pinv s \<Longrightarrow> f_root r s = Inr s' \<Longrightarrow> pinv s'"
  by (rule pinv_locsE [of s])
    (auto simp: f_root_def res_simps intro!: pinv_set_locations location_ok_root)

lemma pinv_expires: "pinv s \<Longrightarrow> f_expires e s = Inr s' \<Longrightarrow> pinv s'"
  by (rule pinv_locsE [of s]) (auto simp: f_expires_def res_simps intro!: pinv_set_locations)

lemma location_ok_has_root: "location_ok n l \<Longrightarrow> \<exists>r. loc_root l = Some r"
  by (auto simp: location_ok_def)

lemma pinv_location: "pinv s \<Longrightarrow> f_location t m s = Inr s' \<Longrightarrow> pinv s'"
  by (rule pinv_locsE [of s])
    (auto simp: f_location_def Let_def intro!: pinv_set_locations
      dest: location_ok_has_root split: option.splits)

lemma pinv_try_files: "pinv s \<Longrightarrow> f_try_files s = Inr s' \<Longrightarrow> pinv s'"
  by (rule pinv_locsE [of s]) (auto simp: f_try_files_def Let_def intro!: pinv_set_locations)

section \<open>Upstream groups\<close>

lemma push_nodes_facts:
  assumes "pinv s" "pinv (push_nodes w u s) \<Longrightarrow> thesis" shows thesis
proof -
  have "pinv s \<Longrightarrow> pinv (push_nodes w u s)"
  proof (induction w arbitrary: s)
    case (Suc w)
    let ?s = "s\<lparr>p_servers := length (g_nodes (ps_g s)) # p_servers s,
          ps_g := (ps_g s)\<lparr>g_nodes := g_nodes (ps_g s) @ [u]\<rparr>\<rparr>"
    have "server_ok (ps_g ?s) srv" if "server_ok (ps_g s) srv" for srv
      using that by (rule server_ok_mono) auto
    moreover have "group_ok (Suc n) v" if "group_ok n v" for n v
      using that by (rule group_ok_mono) simp
    ultimately have "pinv ?s" using Suc.prems
      by (auto simp: pinv_def defaults_last_def gstate_ok_def list_all_iff)
    from Suc.IH [OF this] show ?case by simp
  qed simp
  with assms show ?thesis by blast
qed

lemma push_nodes_locations [simp]: "p_locations (push_nodes w u s) = p_locations s"
  by (induction w arbitrary: s) auto

lemma pinv_upstream: "pinv s \<Longrightarrow> pinv (exec_upstream e s)"
  by (cases e) (auto simp: f_upstream_def elim: push_nodes_facts)

lemma exec_upstream_locations [simp]: "p_locations (exec_upstream e s) = p_locations s"
  by (cases e) (simp add: f_upstream_def)

lemma pinv_upstreams: "pinv s \<Longrightarrow> pinv (f_upstreams n s)"
proof -
  assume i: "pinv s"
  have "server_ok (ps_g (f_upstreams n s)) srv" if "server_ok (ps_g s) srv" for srv
    using that by (rule server_ok_mono) (auto simp: f_upstreams_def setUpstreamList_def)
  with i show ?thesis
    by (auto simp: pinv_def defaults_last_def gstate_ok_def f_upstreams_def setUpstreamList_def group_ok_def
        list_all_iff intro: location_ok_mono)
qed

lemma f_upstreams_locations [simp]: "p_locations (f_upstreams n s) = p_locations s"
  by (simp add: f_upstreams_def)

lemma find_group_range:
  "find_group h i us = Inr (Some j) \<Longrightarrow> i \<le> j \<and> j < i + length us"
  by (induction us arbitrary: i) (fastforce split: if_splits)+

lemma resolve_nodes_length:
  "resolve_nodes dns as nodes = Inr nodes' \<Longrightarrow> length nodes' = length nodes"
  by (induction dns as nodes rule: resolve_nodes.induct) (auto split: option.splits)

lemma pinv_set_nodes:
  "pinv s \<Longrightarrow> length nodes = length (g_nodes (ps_g s)) \<Longrightarrow>
   pinv (on_g (\<lambda>g. g\<lparr>g_nodes := nodes\<rparr>) s)"
  by (auto simp: pinv_def defaults_last_def gstate_ok_def server_ok_def list_all_iff)

lemma pinv_free_group:
  assumes "pinv s" "free_group p (ps_g s) = Inr g"
  shows "pinv (s\<lparr>ps_g := g\<rparr>)"
proof (cases p)
  case None
  with assms(2) have "g = ps_g s" by (simp add: free_group_def)
  with assms(1) show ?thesis by simp
next
  case (Some i)
  let ?us = "g_upstreams (ps_g s)"
  let ?us' = "?us[i := (?us ! i)\<lparr>ug_freed := True\<rparr>]"
  from Some assms(2) have g: "g = (ps_g s)\<lparr>g_upstreams := ?us'\<rparr>"
    by (auto simp: free_group_def split: if_splits)
  have sv: "server_ok ((ps_g s)\<lparr>g_upstreams := ?us'\<rparr>) = server_ok (ps_g s)"
    by (rule ext) (simp add: server_ok_def)
  have "list_all (group_ok n) ?us \<Longrightarrow> list_all (group_ok n) ?us'" for n
    by (rule list_all_update) (auto simp: list_all_length group_ok_def)
  with assms(1) show ?thesis
    by (simp add: g pinv_def defaults_last_def gstate_ok_def sv)
qed

text \<open>The update of the location list alone, before the group's nodes are resolved.\<close>

definition attach_group :: "flags \<Rightarrow> nat \<Rightarrow> pstate \<Rightarrow> pstate res" where
  "attach_group ty grp s =
     (case p_locations s of
          [] \<Rightarrow> Inl NullDeref
        | [d] \<Rightarrow>
            Inr (s\<lparr>p_locations :=
              [d\<lparr>loc_group := Some grp, loc_type := loc_type d OR TYPE_UPSTREAM_GROUP\<rparr>, d]\<rparr>)
        | l # l' # ls \<Rightarrow>
            bind_res (free_group (loc_group l) (ps_g s)) (\<lambda>g.
            Inr (s\<lparr>ps_g := g, p_locations :=
              l\<lparr>loc_type := loc_type l OR ty, loc_group := Some grp\<rparr> # l' # ls\<rparr>)))"

lemma free_group_length: "free_group p g = Inr g' \<Longrightarrow> length (g_upstreams g') = length (g_upstreams g)"
  by (auto simp: free_group_def split: option.splits if_splits)

lemma pinv_attach:
  assumes "pinv s" "grp < length (g_upstreams (ps_g s))" "attach_group ty grp s = Inr s1"
  shows "pinv s1"
  using assms(1)
proof (cases rule: pinv_locsE)
  case (default d)
  with assms show ?thesis
    by (auto simp: attach_group_def intro!: pinv_set_locations location_ok_group)
next
  case (pending l d)
  with assms(3) obtain g where g: "free_group (loc_group l) (ps_g s) = Inr g"
    and s1: "s1 = s\<lparr>ps_g := g\<rparr>\<lparr>p_locations :=
          [l\<lparr>loc_type := loc_type l OR ty, loc_group := Some grp\<rparr>, d]\<rparr>"
    by (auto simp: attach_group_def res_simps)
  from assms(1) g have "pinv (s\<lparr>ps_g := g\<rparr>)" by (rule pinv_free_group)
  then show ?thesis unfolding s1
    by (rule pinv_set_locations)
      (use pending assms(2) free_group_length [OF g] in \<open>auto intro!: location_ok_group\<close>)
qed

lemma pinv_to_group:
  assumes "pinv s" "grp < length (g_upstreams (ps_g s))"
    "proxyPassToUpstreamGroup dns ty grp s = Inr s'"
  shows "pinv s'"
proof -
  from assms(3) obtain s1 nodes where s1: "attach_group ty grp s = Inr s1"
    and n: "resolve_nodes dns (ug_servers (g_upstreams (ps_g s1) ! grp)) (g_nodes (ps_g s1)) = Inr nodes"
    and s': "s' = on_g (\<lambda>g. g\<lparr>g_nodes := nodes\<rparr>) s1"
    unfolding proxyPassToUpstreamGroup_def attach_group_def [symmetric]
    by (auto simp: res_simps Let_def split: if_splits)
  from pinv_attach [OF assms(1,2) s1] resolve_nodes_length [OF n] show ?thesis
    unfolding s' by (rule pinv_set_nodes)
qed

lemma pinv_to_host: "pinv s \<Longrightarrow> proxyPassToHost dns ty h p s = Inr s' \<Longrightarrow> pinv s'"
  by (rule pinv_locsE [of s])
    (auto simp: proxyPassToHost_def intro!: pinv_set_locations split: option.splits)

lemma isUpstreamGroup_range:
  "isUpstreamGroup h s = Inr (Some i) \<Longrightarrow> i < length (g_upstreams (ps_g s))"
  by (auto simp: isUpstreamGroup_def dest: find_group_range)

lemma pinv_pass:
  "pinv s \<Longrightarrow> f_proxy_pass dns h p s = Inr s' \<Longrightarrow> pinv s'"
  "pinv s \<Longrightarrow> f_fastcgi_pass dns h p s = Inr s' \<Longrightarrow> pinv s'"
  by (auto simp: f_proxy_pass_def f_fastcgi_pass_def res_simps split: option.splits
      intro: pinv_to_host pinv_to_group dest: isUpstreamGroup_range)

section \<open>Blocks\<close>

lemmas pinv_directives = pinv_scalar_directives pinv_logs pinv_names pinv_root pinv_expires
  pinv_location pinv_try_files pinv_pass

lemma pinv_fcgi: "exec_fcgi d s = Inr s' \<Longrightarrow> s' = s"
  by (cases d) (auto simp: res_simps)

interpretation location_block: action_system "exec_location_directive dns" pinv for dns
proof unfold_locales
  fix s s' a
  assume i: "pinv s" and e: "exec_location_directive dns a s = Inr s'"
  show "pinv s'"
  proof (cases a)
    case (L_proxy_pass proto h p)
    with e have "f_proxy_pass dns h p (f_protocol proto s) = Inr s'" by simp
    with i show ?thesis by (blast intro: pinv_pass pinv_scalar_directives)
  next
    case (L_try_files ts)
    with e have "f_try_files (fold f_try_target ts s) = Inr s'" by simp
    moreover from i have "pinv (fold f_try_target ts s)"
      by (intro pinv_fold pinv_scalar_directives)
    ultimately show ?thesis by (blast intro: pinv_try_files)
  next
    case (L_fastcgi_param d)
    with e i show ?thesis by (auto dest: pinv_fcgi)
  qed (use i e in \<open>auto intro: pinv_directives\<close>)
qed

interpretation name_list: action_system "\<lambda>(n, t). f_server_name (Heap n) t" pinv
  by unfold_locales (auto intro: pinv_names)

interpretation listen_list: action_system exec_listen_option pinv
proof unfold_locales
  fix s s' a
  assume "pinv s" and "exec_listen_option a s = Inr s'"
  then show "pinv s'" by (cases a) (auto intro: pinv_names)
qed

lemma pinv_ssl: "pinv s \<Longrightarrow> exec_ssl d s = Inr s' \<Longrightarrow> pinv s'"
  by (cases d) (auto simp: res_simps intro: pinv_scalar_directives)

interpretation server_block: action_system "exec_server_directive dns" pinv for dns
proof unfold_locales
  fix s s' a
  assume i: "pinv s" and e: "exec_server_directive dns a s = Inr s'"
  show "pinv s'"
  proof (cases a)
    case (S_server_name ns)
    with e i show ?thesis by (auto intro: name_list.run_keeps)
  next
    case (S_location t m ds)
    with e obtain s1 where "run_res (exec_location_directive dns) ds s = Inr s1"
      "f_location t m s1 = Inr s'" by (auto simp: res_simps)
    with i show ?thesis by (blast intro: location_block.run_keeps pinv_location)
  next
    case (S_listen os)
    with e i show ?thesis by (auto intro: listen_list.run_keeps)
  next
    case (S_ssl d)
    with e i show ?thesis by (auto intro: pinv_ssl)
  next
    case (S_index fs)
    with e i show ?thesis by (auto intro: pinv_fold pinv_scalar_directives)
  next
    case (S_fastcgi_param d)
    with e i show ?thesis by (auto dest: pinv_fcgi)
  qed (use i e in \<open>auto intro: pinv_directives\<close>)
qed

lemma first_root_ok: "list_all (location_ok n) ls \<Longrightarrow> ls \<noteq> [] \<Longrightarrow> first_root ls \<noteq> None"
  by (cases ls) (auto simp: location_ok_def)

lemma fill_roots_id: "list_all (location_ok n) ls \<Longrightarrow> fill_roots r ls = ls"
  by (induction ls) (auto simp: fill_roots_def location_ok_def)

text \<open>The server that \<open>f_server\<close> appends, under the invariant.\<close>

definition built_server :: "pstate \<Rightarrow> server" where
  "built_server s = empty_server\<lparr>
     srv_names := (if tl (p_serverNames s) = [] then [last (p_serverNames s)]
                   else rev (butlast (p_serverNames s))),
     srv_indexFiles := (if tl (p_indexFiles s) = [] then [last (p_indexFiles s)]
                   else rev (butlast (p_indexFiles s))),
     srv_ports := (if tl (p_ports s) = [] then [last (p_ports s)]
                   else rev (butlast (p_ports s))),
     srv_locations := [hd (p_locations s)],
     srv_autoIndex := p_autoIndex s, srv_certFile := p_certFile s, srv_keyFile := p_keyFile s,
     srv_accessLog := (case p_currentAccessLog s of None \<Rightarrow> Some 0 | Some l \<Rightarrow> Some l),
     srv_errorLog := (case p_currentErrorLog s of None \<Rightarrow> Some 0 | Some l \<Rightarrow> Some l)\<rparr>"

lemma f_server_eq:
  assumes "pinv s"
  shows "f_server s = Inr (on_g (setServerList (built_server s)) s\<lparr>
     p_serverNames := [last (p_serverNames s)], p_indexFiles := [last (p_indexFiles s)],
     p_ports := [last (p_ports s)], p_locations := [last (p_locations s)],
     p_currentAccessLog := None, p_currentErrorLog := None,
     p_autoIndex := False, p_certFile := None, p_keyFile := None\<rparr>)"
proof -
  from assms have ne: "p_serverNames s \<noteq> []" "p_indexFiles s \<noteq> []" "p_ports s \<noteq> []"
    "p_locations s \<noteq> []" by (auto simp: pinv_def)
  from assms have lg: "getDefaultAccessLog (ps_g s) = Some 0" "getDefaultErrorLog (ps_g s) = Some 0"
    by (auto simp: pinv_def gstate_ok_def getDefaultAccessLog_def getDefaultErrorLog_def)
  from assms have "(if tl (p_locations s) = [] then [last (p_locations s)]
      else butlast (p_locations s)) = [hd (p_locations s)]"
    by (auto simp: pinv_def)
  moreover from assms have "fill_roots r [hd (p_locations s)] = [hd (p_locations s)]" for r
    by (intro fill_roots_id [of "length (g_upstreams (ps_g s))"])
      (auto simp: pinv_def)
  ultimately show ?thesis
    using ne
    by (simp add: f_server_def take_front_eq take_back_eq built_server_def Let_def lg
        split: option.split)
qed

lemma built_server_ok:
  assumes "pinv s" shows "server_ok (ps_g s) (built_server s)"
proof -
  from assms have "p_serverNames s \<noteq> []" "p_indexFiles s \<noteq> []" "p_ports s \<noteq> []"
    by (auto simp: pinv_def)
  then have "tl (p_serverNames s) \<noteq> [] \<Longrightarrow> butlast (p_serverNames s) \<noteq> []"
    "tl (p_indexFiles s) \<noteq> [] \<Longrightarrow> butlast (p_indexFiles s) \<noteq> []"
    "tl (p_ports s) \<noteq> [] \<Longrightarrow> butlast (p_ports s) \<noteq> []"
    by (auto simp: neq_Nil_conv)
  moreover from assms have "location_ok (length (g_upstreams (ps_g s))) (hd (p_locations s))"
    by (auto simp: pinv_def)
  ultimately show ?thesis using assms
    by (auto simp: server_ok_def built_server_def empty_server_def pinv_def gstate_ok_def
        log_ok_def split: option.splits)
qed

lemma pinv_server: "pinv s \<Longrightarrow> f_server s = Inr s' \<Longrightarrow> pinv_http s'"
proof -
  assume i: "pinv s" and e: "f_server s = Inr s'"
  let ?g = "(ps_g s)\<lparr>g_servers := g_servers (ps_g s) @ [built_server s]\<rparr>"
  have s': "ps_g s' = ?g" "p_serverNames s' = [last (p_serverNames s)]"
    "p_indexFiles s' = [last (p_indexFiles s)]" "p_ports s' = [last (p_ports s)]"
    "p_locations s' = [last (p_locations s)]" "p_servers s' = p_servers s"
    "p_currentAccessLog s' = None" "p_currentErrorLog s' = None"
    by (simp_all add: e [unfolded f_server_eq [OF i] sum.inject, symmetric] setServerList_def)
  have "server_ok ?g = server_ok (ps_g s)"
    by (rule ext) (simp add: server_ok_def)
  then have "gstate_ok ?g"
    using i built_server_ok [OF i] by (simp add: pinv_def gstate_ok_def)
  moreover from i have "location_ok (length (g_upstreams (ps_g s))) (last (p_locations s))"
    by (auto simp: pinv_def)
  moreover from i have "list_all (\<lambda>a. a < length (g_nodes (ps_g s))) (p_servers s)"
    by (simp add: pinv_def)
  moreover from i have "defaults_last s'" by (simp add: defaults_last_def pinv_def s')
  ultimately show ?thesis by (simp add: pinv_http_def pinv_def s')
qed

lemma logs_keep_locations:
  "f_access_log p t s = Inr s' \<Longrightarrow> p_locations s' = p_locations s"
  "f_error_log p s = Inr s' \<Longrightarrow> p_locations s' = p_locations s"
  by (auto simp: f_access_log_def f_error_log_def split: if_splits)

interpretation http_block: action_system "exec_http_directive dns" pinv_http for dns
proof unfold_locales
  fix s s' a
  assume i: "pinv_http s" and e: "exec_http_directive dns a s = Inr s'"
  have i1: "pinv s" using i by (simp add: pinv_http_def)
  have keep: "pinv_http s'" if "pinv s'" "p_locations s' = p_locations s"
    using that i by (simp add: pinv_http_def)
  show "pinv_http s'"
  proof (cases a)
    case (H_index fs)
    moreover have "p_locations (fold f_indexFile fs s) = p_locations s"
      by (induction fs arbitrary: s) (auto simp: scalar_keeps_locations)
    ultimately show ?thesis using e i1
      by (intro keep) (auto intro: pinv_fold pinv_scalar_directives)
  next
    case (H_server ds)
    with e obtain s1 where "run_res (exec_server_directive dns) ds s = Inr s1" "f_server s1 = Inr s'"
      by (auto simp: res_simps)
    with i1 show ?thesis by (blast intro: server_block.run_keeps pinv_server)
  next
    case (H_upstream n us)
    moreover have "p_locations (fold exec_upstream us s) = p_locations s"
      by (induction us arbitrary: s) auto
    ultimately show ?thesis using e i1
      by (intro keep) (auto intro: pinv_upstreams pinv_fold pinv_upstream)
  next
    case (H_ssl d)
    with e have "p_locations s' = p_locations s"
      by (cases d) (auto simp: res_simps scalar_keeps_locations)
    with H_ssl e i1 show ?thesis by (intro keep) (auto intro: pinv_ssl)
  next
    case (H_fastcgi_param d)
    with e i show ?thesis by (auto dest: pinv_fcgi)
  qed (rule keep, (use e i1 in \<open>auto intro: pinv_directives simp: scalar_keeps_locations
        dest: logs_keep_locations\<close>)[2])+
qed

end
