(* ===== verification/OG_ConfigCheck.thy ===== *)
theory OG_ConfigCheck
  imports OG_ParseInv
begin

text \<open>
  \<open>parseConfig\<close> of \<^verbatim>\<open>parseConfig.c\<close> around the parser: the defaults before it, the
  sanity checks and the opening of the log files after it. The file system and the resolver are
  a record of functions; what the parser finds in the expanded text is an argument.
\<close>

section \<open>What the checks ask of the system\<close>

record config_env =
  ce_resolve :: resolver
  ce_fopen :: "string \<Rightarrow> bool"
  ce_access :: "string \<Rightarrow> bool"
  ce_open :: "nat \<Rightarrow> string \<Rightarrow> int"

text \<open>
  \<open>ce_fopen p\<close>: \<open>fopen(p, "r")\<close> works. \<open>ce_access p\<close>: \<open>access(p, R_OK)\<close> is 0.
  \<open>ce_open n p\<close>: the result of the \<open>n\<close>-th \<open>open\<close> of a log file, on path \<open>p\<close>.
\<close>

section \<open>The checks\<close>

definition checkPorts :: "int \<Rightarrow> bool \<Rightarrow> gstate \<Rightarrow> bool" where
  "checkPorts portNum tlsFlag g =
     list_all (\<lambda>s. list_all (\<lambda>p. \<not> (port_num p = portNum \<and> port_tls p \<noteq> tlsFlag)) (srv_ports s))
       (getServerList g)"

definition portOk :: "server \<Rightarrow> gstate \<Rightarrow> bool" where
  "portOk srv g =
     list_all (\<lambda>s. list_all (\<lambda>p. checkPorts (port_num p) (port_tls p) g) (srv_ports srv))
       (getServerList g)"

fun checkDocRoots :: "config_env \<Rightarrow> location list \<Rightarrow> unit res" where
  "checkDocRoots env [] = Inr ()"
| "checkDocRoots env (l # ls) =
     bind_res
       (if has_flag (loc_type l) TYPE_PROXY_PASS then
          (if loc_passTo l = None then Inl (Exit 1) else Inr ())
        else if has_flag (loc_type l) TYPE_DOC_ROOT then
          (case loc_root l of
             None \<Rightarrow> Inl (Exit 1)
           | Some r \<Rightarrow> if ce_access env (cval r) then Inr () else Inl (Exit 1))
        else if has_flag (loc_type l) TYPE_TRY_FILES then
          (if loc_tryTarget l = [] then Inl (Exit 1) else Inr ())
        else Inl (Exit 1))
       (\<lambda>_. checkDocRoots env ls)"

definition checkServerNames :: "server \<Rightarrow> unit res" where
  "checkServerNames s = (if srv_names s = [] then Inl (Exit 1) else Inr ())"

definition checkIndexFiles :: "server \<Rightarrow> unit res" where
  "checkIndexFiles s = (if srv_indexFiles s = [] then Inl (Exit 1) else Inr ())"

definition checkAccessLog :: "gstate \<Rightarrow> server \<Rightarrow> server res" where
  "checkAccessLog g s =
     (if srv_accessLog s = None then
        (case getDefaultAccessLog g of None \<Rightarrow> Inl (Exit 1)
         | Some i \<Rightarrow> Inr (s\<lparr>srv_accessLog := Some i\<rparr>))
      else Inr s)"

definition checkErrorLog :: "gstate \<Rightarrow> server \<Rightarrow> server res" where
  "checkErrorLog g s =
     (if srv_errorLog s = None then
        (case getDefaultErrorLog g of None \<Rightarrow> Inl (Exit 1)
         | Some i \<Rightarrow> Inr (s\<lparr>srv_errorLog := Some i\<rparr>))
      else Inr s)"

text \<open>\<open>access\<close> of a null path fails.\<close>

definition checkCertFile :: "config_env \<Rightarrow> server \<Rightarrow> unit res" where
  "checkCertFile env s =
     (case srv_certFile s of None \<Rightarrow> Inl (Exit 1)
      | Some p \<Rightarrow> if ce_access env p then Inr () else Inl (Exit 1))"

definition checkKeyFile :: "config_env \<Rightarrow> server \<Rightarrow> unit res" where
  "checkKeyFile env s =
     (case srv_keyFile s of None \<Rightarrow> Inl (Exit 1)
      | Some p \<Rightarrow> if ce_access env p then Inr () else Inl (Exit 1))"

text \<open>The body of the loop of \<open>checkServers\<close>: the server with its log pointers filled in.\<close>

definition check_server :: "config_env \<Rightarrow> gstate \<Rightarrow> server \<Rightarrow> server res" where
  "check_server env g s =
     (if \<not> portOk s g then Inl (Exit 1)
      else
        bind_res (checkDocRoots env (srv_locations s)) (\<lambda>_.
        bind_res (checkServerNames s) (\<lambda>_.
        bind_res (checkIndexFiles s) (\<lambda>_.
        bind_res (checkAccessLog g s) (\<lambda>s1.
        bind_res (checkErrorLog g s1) (\<lambda>s2.
        if srv_tls s2 then
          bind_res (checkCertFile env s2) (\<lambda>_.
          bind_res (checkKeyFile env s2) (\<lambda>_. Inr s2))
        else Inr s2))))))"

fun check_each :: "config_env \<Rightarrow> gstate \<Rightarrow> server list \<Rightarrow> server list res" where
  "check_each env g [] = Inr []"
| "check_each env g (s # ss) =
     bind_res (check_server env g s) (\<lambda>s'.
     bind_res (check_each env g ss) (\<lambda>ss'. Inr (s' # ss')))"

definition checkServers :: "config_env \<Rightarrow> gstate \<Rightarrow> gstate res" where
  "checkServers env g =
     bind_res (if \<not> isDefaultServer g then popServer g else Inr g) (\<lambda>g1.
     bind_res (check_each env g1 (getServerList g1)) (\<lambda>ss.
     Inr (g1\<lparr>g_servers := ss\<rparr>)))"

text \<open>\<open>fopen\<close> of a null path is a null dereference.\<close>

definition checkConfig :: "config_env \<Rightarrow> gstate \<Rightarrow> gstate res" where
  "checkConfig env g =
     bind_res (deref (getPidFile g)) (\<lambda>p.
       if \<not> ce_fopen env p then Inl (Exit 1) else checkServers env g)"

section \<open>Log files\<close>

fun pathAlreadyOpened :: "string \<Rightarrow> log_file list \<Rightarrow> int res" where
  "pathAlreadyOpened path [] = Inr (-1)"
| "pathAlreadyOpened path (l # ls) =
     (if lf_freed l then Inl UseAfterFree
      else if length path = length (lf_path l) \<and> path = lf_path l \<and> lf_fd l \<noteq> -1
      then Inr (lf_fd l)
      else pathAlreadyOpened path ls)"

text \<open>
  One of the two loops of \<open>openLogFiles\<close>, at the point where \<open>done\<close> has been walked;
  \<open>n\<close> counts the calls of \<open>open\<close>.
\<close>

fun open_logs :: "(nat \<Rightarrow> string \<Rightarrow> int) \<Rightarrow> nat \<Rightarrow> log_file list \<Rightarrow> log_file list \<Rightarrow>
    (nat \<times> log_file list) res" where
  "open_logs opn n don [] = Inr (n, don)"
| "open_logs opn n don (l # ls) =
     (if lf_freed l then Inl UseAfterFree
      else bind_res (pathAlreadyOpened (lf_path l) (don @ l # ls)) (\<lambda>fd.
        let (n', fd') = (if fd = -1 then (Suc n, opn n (lf_path l)) else (n, fd)) in
        if fd' = -1 then Inl (Exit 1)
        else open_logs opn n' (don @ [l\<lparr>lf_fd := fd'\<rparr>]) ls))"

definition openLogFiles :: "config_env \<Rightarrow> gstate \<Rightarrow> gstate res" where
  "openLogFiles env g =
     bind_res (open_logs (ce_open env) 0 [] (g_accessLog g)) (\<lambda>(n, al).
     bind_res (open_logs (ce_open env) n [] (g_errorLog g)) (\<lambda>(m, el).
     Inr (g\<lparr>g_accessLog := al, g_errorLog := el\<rparr>)))"

section \<open>The whole\<close>

definition setup_defaults :: "gstate \<Rightarrow> pstate" where
  "setup_defaults g =
     defaultType (defaultIndexFile (defaultLocation (defaultServerName (defaultPort
       (defaultErrorLog (defaultAccessLog (initial_pstate g)))))))"

text \<open>After a syntax error \<open>yyparse\<close> returns 1, if no action has stopped the process before.\<close>

definition parseConfig :: "config_env \<Rightarrow> parsing \<Rightarrow> gstate \<Rightarrow> gstate res" where
  "parseConfig env cfg g =
     (case cfg of
        Syntax_error run \<Rightarrow> bind_res (run (ce_resolve env) (setup_defaults g)) (\<lambda>_. Inl (Exit 1))
      | Parsed c \<Rightarrow>
          bind_res (yyparse (ce_resolve env) c (setup_defaults g)) (\<lambda>s.
          bind_res (checkConfig env (ps_g s)) (\<lambda>g1.
          openLogFiles env g1)))"

section \<open>The parser establishes the invariant\<close>

text \<open>What the statics are before \<open>parseConfig\<close>: the arguments have set flags and paths only.\<close>

definition fresh_gstate :: "gstate \<Rightarrow> bool" where
  "fresh_gstate g =
     (g_servers g = [] \<and> g_upstreams g = [] \<and> g_nodes g = [] \<and>
      g_accessLog g = [] \<and> g_errorLog g = [])"

lemma setup_defaults_fields:
  assumes "fresh_gstate g"
  shows "p_locations (setup_defaults g) = [default_location]"
    "p_serverNames (setup_defaults g) = [default_name]"
    "p_indexFiles (setup_defaults g) = [''index.html'']"
    "p_ports (setup_defaults g) = [\<lparr>port_num = 8080, port_tls = False\<rparr>]"
    "p_servers (setup_defaults g) = []" "p_currentAccessLog (setup_defaults g) = None"
    "p_currentErrorLog (setup_defaults g) = None"
    "g_servers (ps_g (setup_defaults g)) = []" "g_upstreams (ps_g (setup_defaults g)) = []"
    "g_nodes (ps_g (setup_defaults g)) = []"
    "g_accessLog (ps_g (setup_defaults g)) = [new_log ''/var/log/ogws/access.log'' 0]"
    "g_errorLog (ps_g (setup_defaults g)) = [new_log ''/var/log/ogws/error.log'' 0]"
    "g_defaultServer (ps_g (setup_defaults g)) = g_defaultServer g"
  using assms
  by (simp_all add: fresh_gstate_def setup_defaults_def initial_pstate_def defaultType_def
      defaultIndexFile_def defaultLocation_def defaultServerName_def defaultPort_def
      defaultErrorLog_def defaultAccessLog_def state_defs)

lemma setup_defaults_pinv: "fresh_gstate g \<Longrightarrow> pinv_http (setup_defaults g)"
  by (simp add: pinv_http_def pinv_def defaults_last_def gstate_ok_def setup_defaults_fields
      location_ok_def default_location_def new_log_def)

interpretation main_block: action_system exec_main_directive pinv_http
proof unfold_locales
  fix s s' a
  assume i: "pinv_http s" and e: "exec_main_directive a s = Inr s'"
  have i1: "pinv s" using i by (simp add: pinv_http_def)
  have keep: "pinv_http s'" if "pinv s'" "p_locations s' = p_locations s"
    using that i by (simp add: pinv_http_def)
  show "pinv_http s'"
    by (cases a) (rule keep, (use e i1 in \<open>auto intro: pinv_directives
        simp: scalar_keeps_locations dest: logs_keep_locations\<close>)[2])+
qed

lemma pinv_http_connections: "pinv_http s \<Longrightarrow> pinv_http (fold f_workerConnections ns s)"
proof (induction ns arbitrary: s)
  case (Cons n ns)
  then have "pinv_http (f_workerConnections n s)"
    by (simp add: pinv_http_def pinv_scalar_directives scalar_keeps_locations)
  with Cons.IH show ?case by simp
qed simp

lemma f_http_ok:
  assumes "pinv_http s"
  shows "gstate_ok (ps_g (f_http s))" "g_servers (ps_g (f_http s)) \<noteq> []"
proof -
  have pi: "pinv s" using assms by (simp add: pinv_http_def)
  let ?d = "empty_server\<lparr>srv_names := p_serverNames s, srv_indexFiles := p_indexFiles s,
       srv_ports := p_ports s, srv_locations := p_locations s, srv_autoIndex := False,
       srv_certFile := p_certFile s, srv_keyFile := p_keyFile s,
       srv_accessLog := getDefaultAccessLog (ps_g s),
       srv_errorLog := getDefaultErrorLog (ps_g s)\<rparr>"
  have g: "ps_g (f_http s) = (ps_g s)\<lparr>g_servers := g_servers (ps_g s) @ [?d]\<rparr>"
    by (simp add: f_http_def setServerList_def)
  have "server_ok (ps_g (f_http s)) = server_ok (ps_g s)"
    by (rule ext) (simp add: g server_ok_def)
  moreover have "server_ok (ps_g s) ?d"
    using assms
    by (auto simp: pinv_http_def pinv_def server_ok_def gstate_ok_def log_ok_def
        getDefaultAccessLog_def getDefaultErrorLog_def empty_server_def)
  moreover have "gstate_ok (ps_g s)" using pi by (simp add: pinv_def)
  ultimately show "gstate_ok (ps_g (f_http s))" by (simp add: gstate_ok_def g)
  show "g_servers (ps_g (f_http s)) \<noteq> []" by (simp add: g)
qed

section \<open>The checks and the logs\<close>

lemma check_server_id:
  "check_server env g s = Inr s' \<Longrightarrow> server_ok g0 s \<Longrightarrow> s' = s"
  by (auto simp: check_server_def checkAccessLog_def checkErrorLog_def res_simps server_ok_def
      log_ok_def split: if_splits option.splits)

lemma check_each_id:
  "check_each env g ss = Inr ss' \<Longrightarrow> list_all (server_ok g0) ss \<Longrightarrow> ss' = ss"
  by (induction ss arbitrary: ss') (auto simp: res_simps dest: check_server_id)

lemma check_server_facts:
  "check_server env g s = Inr s' \<Longrightarrow> portOk s g \<and> checkDocRoots env (srv_locations s) = Inr ()"
  by (simp add: check_server_def res_simps split: if_splits)

lemma check_each_all:
  "check_each env g ss = Inr ss' \<Longrightarrow> s \<in> set ss \<Longrightarrow>
   portOk s g \<and> checkDocRoots env (srv_locations s) = Inr ()"
  by (induction ss arbitrary: ss') (auto simp: res_simps dest: check_server_facts)

text \<open>What \<open>checkDocRoots\<close> has established for a location.\<close>

definition location_servable :: "config_env \<Rightarrow> location \<Rightarrow> bool" where
  "location_servable env l =
     ((has_flag (loc_type l) TYPE_PROXY_PASS \<longrightarrow> loc_passTo l \<noteq> None) \<and>
      (\<not> has_flag (loc_type l) TYPE_PROXY_PASS \<and> has_flag (loc_type l) TYPE_DOC_ROOT \<longrightarrow>
         (case loc_root l of None \<Rightarrow> False | Some r \<Rightarrow> ce_access env (cval r))))"

lemma checkDocRoots_all:
  "checkDocRoots env ls = Inr () \<Longrightarrow> list_all (location_servable env) ls"
  by (induction ls) (auto simp: res_simps location_servable_def split: if_splits option.splits)

lemma portOk_all:
  assumes "portOk s g" "s \<in> set (g_servers g)" "p \<in> set (srv_ports s)"
    "s' \<in> set (g_servers g)" "p' \<in> set (srv_ports s')" "port_num p = port_num p'"
  shows "port_tls p = port_tls p'"
proof -
  from assms(1-3) have "checkPorts (port_num p) (port_tls p) g"
    by (auto simp: portOk_def list_all_iff)
  with assms(4-6) show ?thesis by (simp add: checkPorts_def list_all_iff)
qed

lemma pathAlreadyOpened_hit:
  "pathAlreadyOpened path ls = Inr fd \<Longrightarrow> fd \<noteq> -1 \<Longrightarrow>
   \<exists>l \<in> set ls. lf_path l = path \<and> lf_fd l = fd"
  by (induction ls) (auto split: if_splits)

lemma pathAlreadyOpened_miss:
  "pathAlreadyOpened path ls = Inr (-1) \<Longrightarrow> l \<in> set ls \<Longrightarrow> lf_path l = path \<Longrightarrow> lf_fd l = -1"
  by (induction ls) (auto split: if_splits)

lemma pathAlreadyOpened_miss_append:
  "pathAlreadyOpened path (xs @ ys) = Inr (-1) \<Longrightarrow> pathAlreadyOpened path xs = Inr (-1)"
  by (induction xs) (auto split: if_splits)

lemma open_logs_ConsE:
  assumes "open_logs opn n don (l # ls) = Inr r"
  obtains fd n' fd' where "\<not> lf_freed l"
    "pathAlreadyOpened (lf_path l) (don @ l # ls) = Inr fd"
    "(n', fd') = (if fd = -1 then (Suc n, opn n (lf_path l)) else (n, fd))"
    "fd' \<noteq> -1" "open_logs opn n' (don @ [l\<lparr>lf_fd := fd'\<rparr>]) ls = Inr r"
  using assms by (auto simp: res_simps Let_def split: if_splits)

text \<open>All logs of a chain are open, and logs with the same path share the descriptor.\<close>

definition logs_open :: "log_file list \<Rightarrow> bool" where
  "logs_open ls =
     (list_all (\<lambda>l. lf_fd l \<noteq> -1) ls \<and>
      (\<forall>l \<in> set ls. \<forall>l' \<in> set ls. lf_path l = lf_path l' \<longrightarrow> lf_fd l = lf_fd l'))"

lemma logs_openD:
  assumes "logs_open ls" "x \<in> set ls"
  shows "lf_fd x \<noteq> -1" "y \<in> set ls \<Longrightarrow> lf_path x = lf_path y \<Longrightarrow> lf_fd x = lf_fd y"
  using assms unfolding logs_open_def list_all_iff by blast+

lemma logs_open_snoc:
  assumes o: "logs_open ls" and fd: "lf_fd l \<noteq> -1"
    and s: "\<And>x. x \<in> set ls \<Longrightarrow> lf_path x = lf_path l \<Longrightarrow> lf_fd x = lf_fd l"
  shows "logs_open (ls @ [l])"
  unfolding logs_open_def list_all_iff
proof (intro conjI ballI impI)
  fix x assume "x \<in> set (ls @ [l])"
  with fd logs_openD(1) [OF o] show "lf_fd x \<noteq> -1" by auto
next
  fix x y assume xy: "x \<in> set (ls @ [l])" "y \<in> set (ls @ [l])" "lf_path x = lf_path y"
  then consider "x \<in> set ls" "y \<in> set ls" | "x \<in> set ls" "y = l" | "x = l" "y \<in> set ls"
    | "x = l" "y = l" by auto
  then show "lf_fd x = lf_fd y"
  proof cases
    case 1
    then show ?thesis using logs_openD(2) [OF o] xy(3) by blast
  next
    case 2
    then show ?thesis using s [of x] xy(3) by simp
  next
    case 3
    then show ?thesis using s [of y] xy(3) by simp
  qed simp
qed

lemma open_logs_open:
  assumes "open_logs opn n don ls = Inr (m, ls')" "logs_open don"
    "list_all (\<lambda>l. lf_fd l = -1) ls"
  shows "logs_open ls' \<and> map lf_path ls' = map lf_path (don @ ls) \<and>
     list_all (\<lambda>l. \<not> lf_freed l) ls"
  using assms
proof (induction opn n don ls rule: open_logs.induct)
  case (2 opn n don l ls)
  from "2.prems"(1) obtain fd n' fd' where nf: "\<not> lf_freed l"
    and fd: "pathAlreadyOpened (lf_path l) (don @ l # ls) = Inr fd"
    and sel: "(n', fd') = (if fd = -1 then (Suc n, opn n (lf_path l)) else (n, fd))"
    and ok: "fd' \<noteq> -1" and rest: "open_logs opn n' (don @ [l\<lparr>lf_fd := fd'\<rparr>]) ls = Inr (m, ls')"
    by (rule open_logs_ConsE)
  have share: "lf_fd x = fd'" if "x \<in> set don" "lf_path x = lf_path l" for x
  proof (cases "fd = -1")
    case True
    with fd have "pathAlreadyOpened (lf_path l) don = Inr (-1)"
      by (simp only: pathAlreadyOpened_miss_append)
    from pathAlreadyOpened_miss [OF this that] have "lf_fd x = -1" .
    with logs_openD(1) [OF "2.prems"(2) that(1)] show ?thesis by simp
  next
    case False
    with fd obtain y where y: "y \<in> set (don @ l # ls)" "lf_path y = lf_path l" "lf_fd y = fd"
      using pathAlreadyOpened_hit by blast
    with False "2.prems"(3) have "y \<in> set don" by (auto simp: list_all_iff)
    with logs_openD(2) [OF "2.prems"(2) that(1) this] y that(2) have "lf_fd x = fd" by simp
    with False sel show ?thesis by simp
  qed
  have "logs_open (don @ [l\<lparr>lf_fd := fd'\<rparr>])"
    using "2.prems"(2) ok share by (intro logs_open_snoc) simp_all
  from "2.IH" [OF nf fd sel refl ok rest this] "2.prems"(3) nf show ?case by simp
qed simp

lemma open_logs_live:
  "open_logs opn n don ls = Inr (m, ls') \<Longrightarrow> list_all (\<lambda>l. \<not> lf_freed l) don \<Longrightarrow>
   list_all (\<lambda>l. \<not> lf_freed l) ls'"
proof (induction opn n don ls rule: open_logs.induct)
  case (2 opn n don l ls)
  from "2.prems"(1) obtain fd n' fd' where nf: "\<not> lf_freed l"
    and fd: "pathAlreadyOpened (lf_path l) (don @ l # ls) = Inr fd"
    and sel: "(n', fd') = (if fd = -1 then (Suc n, opn n (lf_path l)) else (n, fd))"
    and ok: "fd' \<noteq> -1" and rest: "open_logs opn n' (don @ [l\<lparr>lf_fd := fd'\<rparr>]) ls = Inr (m, ls')"
    by (rule open_logs_ConsE)
  from "2.IH" [OF nf fd sel refl ok rest] "2.prems"(2) nf show ?case by simp
qed simp

lemma open_logs_freed:
  "open_logs opn n don ls = Inr r \<Longrightarrow> list_all (\<lambda>l. \<not> lf_freed l) ls"
proof (induction ls arbitrary: n don)
  case (Cons l ls)
  from Cons.prems show ?case by (rule open_logs_ConsE) (auto dest: Cons.IH)
qed simp

section \<open>What the directives do not touch\<close>

text \<open>
  The server list, which only the two block actions extend, the values that the command
  line sets, which the parser only reads, and the lists that only the running server uses.
\<close>

text \<open>What the rest of the program keeps in the state.\<close>

record run_part =
  rp_version :: "string option"
  rp_showVersion :: bool
  rp_signalName :: "string option"
  rp_mimeTypes :: "mime_type list"
  rp_clients :: "client list"
  rp_fragments :: "fragment list"

definition g_run :: "gstate \<Rightarrow> run_part" where
  "g_run g = \<lparr>rp_version = g_version g, rp_showVersion = g_showVersion g,
     rp_signalName = g_signalName g, rp_mimeTypes = g_mimeTypes g, rp_clients = g_clients g,
     rp_fragments = g_fragments g\<rparr>"

lemma g_run_updates [simp]:
  "g_run (g\<lparr>g_servers := x1\<rparr>) = g_run g" "g_run (g\<lparr>g_upstreams := x2\<rparr>) = g_run g"
  "g_run (g\<lparr>g_nodes := x3\<rparr>) = g_run g" "g_run (g\<lparr>g_accessLog := x4\<rparr>) = g_run g"
  "g_run (g\<lparr>g_errorLog := x5\<rparr>) = g_run g" "g_run (g\<lparr>g_pidFile := x6\<rparr>) = g_run g"
  "g_run (g\<lparr>g_defaultType := x6\<rparr>) = g_run g" "g_run (g\<lparr>g_trace := x7\<rparr>) = g_run g"
  "g_run (g\<lparr>g_useSendFile := x7\<rparr>) = g_run g" "g_run (g\<lparr>g_tcpNoPush := x7\<rparr>) = g_run g"
  "g_run (g\<lparr>g_user := x6\<rparr>) = g_run g" "g_run (g\<lparr>g_group := x6\<rparr>) = g_run g"
  "g_run (g\<lparr>g_tokens := x7\<rparr>) = g_run g" "g_run (g\<lparr>g_keepaliveTimeout := x8\<rparr>) = g_run g"
  "g_run (g\<lparr>g_workerProcesses := x8\<rparr>) = g_run g" "g_run (g\<lparr>g_workerConnections := x8\<rparr>) = g_run g"
  by (simp_all add: g_run_def)

type_synonym frame =
  "server list \<times> bool \<times> bool \<times> bool \<times> bool \<times> string option \<times> string option \<times> run_part"

definition g_frame :: "gstate \<Rightarrow> frame" where
  "g_frame g = (g_servers g, g_defaultServer g, g_debug g, g_foreground g, g_testConfig g,
     g_configFile g, g_configDir g, g_run g)"

text \<open>The number of \<open>server\<close> blocks.\<close>

definition server_blocks :: "http_directive list \<Rightarrow> nat" where
  "server_blocks ds = length [() . H_server _ \<leftarrow> ds]"

lemma push_nodes_flags [simp]: "g_frame (ps_g (push_nodes w u s)) = g_frame (ps_g s)"
  by (induction w arbitrary: s) (auto simp: g_frame_def)

lemma free_group_flags: "free_group p g = Inr g' \<Longrightarrow> g_frame g' = g_frame g"
  by (auto simp: free_group_def g_frame_def split: option.splits if_splits)

lemma attach_group_flags:
  "attach_group ty grp s = Inr s' \<Longrightarrow> g_frame (ps_g s') = g_frame (ps_g s)"
  by (auto simp: attach_group_def res_simps dest: free_group_flags split: list.splits)

lemma to_group_flags:
  "proxyPassToUpstreamGroup dns ty grp s = Inr s' \<Longrightarrow> g_frame (ps_g s') = g_frame (ps_g s)"
  unfolding proxyPassToUpstreamGroup_def attach_group_def [symmetric]
  by (auto simp: res_simps Let_def g_frame_def dest!: attach_group_flags split: if_splits)

lemma to_host_flags:
  "proxyPassToHost dns ty h p s = Inr s' \<Longrightarrow> ps_g s' = ps_g s"
  by (auto simp: proxyPassToHost_def split: option.splits list.splits)

lemma pass_flags:
  "f_proxy_pass dns h p s = Inr s' \<Longrightarrow> g_frame (ps_g s') = g_frame (ps_g s)"
  "f_fastcgi_pass dns h p s = Inr s' \<Longrightarrow> g_frame (ps_g s') = g_frame (ps_g s)"
  by (auto simp: f_proxy_pass_def f_fastcgi_pass_def res_simps dest: to_group_flags to_host_flags
      split: option.splits)

lemma scalar_flags [simp]:
  "g_frame (ps_g (f_pid p s)) = g_frame (ps_g s)"
  "g_frame (ps_g (f_include p s)) = g_frame (ps_g s)"
  "g_frame (ps_g (f_default_type p s)) = g_frame (ps_g s)"
  "g_frame (ps_g (f_trace b s)) = g_frame (ps_g s)"
  "g_frame (ps_g (f_sendfile b s)) = g_frame (ps_g s)"
  "g_frame (ps_g (f_tcpnopush b s)) = g_frame (ps_g s)"
  "g_frame (ps_g (f_user p q s)) = g_frame (ps_g s)"
  "g_frame (ps_g (f_server_tokens b s)) = g_frame (ps_g s)"
  "g_frame (ps_g (f_keepalive_timeout n s)) = g_frame (ps_g s)"
  "g_frame (ps_g (f_workerProcesses n s)) = g_frame (ps_g s)"
  "g_frame (ps_g (f_workerConnections n s)) = g_frame (ps_g s)"
  by (simp_all add: g_frame_def f_pid_def f_include_def f_default_type_def f_trace_def
      f_sendfile_def f_tcpnopush_def f_user_def f_server_tokens_def f_keepalive_timeout_def
      f_workerProcesses_def f_workerConnections_def Let_def state_defs split: option.split)

lemma parser_only [simp]:
  "ps_g (f_autoindex b s) = ps_g s" "ps_g (f_indexFile p s) = ps_g s"
  "ps_g (f_protocol p s) = ps_g s" "ps_g (f_try_target p s) = ps_g s"
  "ps_g (f_ssl_certificate p s) = ps_g s" "ps_g (f_ssl_certificate_key p s) = ps_g s"
  by (simp_all add: f_autoindex_def f_indexFile_def f_protocol_def f_try_target_def
      f_ssl_certificate_def f_ssl_certificate_key_def)

lemma parser_only_res:
  "f_server_name n t s = Inr s' \<Longrightarrow> ps_g s' = ps_g s"
  "f_listen nm pn s = Inr s' \<Longrightarrow> ps_g s' = ps_g s"
  "f_tls s = Inr s' \<Longrightarrow> ps_g s' = ps_g s"
  "f_root r s = Inr s' \<Longrightarrow> ps_g s' = ps_g s"
  "f_expires e s = Inr s' \<Longrightarrow> ps_g s' = ps_g s"
  "f_location t m s = Inr s' \<Longrightarrow> ps_g s' = ps_g s"
  "f_try_files s = Inr s' \<Longrightarrow> ps_g s' = ps_g s"
  by (auto simp: f_server_name_def f_listen_def f_tls_def f_root_def f_expires_def f_location_def
      f_try_files_def Let_def res_simps split: if_splits option.splits list.splits)

lemma log_flags:
  "f_access_log p t s = Inr s' \<Longrightarrow> g_frame (ps_g s') = g_frame (ps_g s)"
  "f_error_log p s = Inr s' \<Longrightarrow> g_frame (ps_g s') = g_frame (ps_g s)"
  by (auto simp: f_access_log_def f_error_log_def g_frame_def state_defs split: if_splits)

lemma server_flags:
  "f_server s = Inr s' \<Longrightarrow>
   \<exists>srv. g_frame (ps_g s') = (g_servers (ps_g s) @ [srv], snd (g_frame (ps_g s)))"
  by (auto simp: f_server_def res_simps Let_def g_frame_def state_defs split: if_splits)

lemmas flag_dests = pass_flags parser_only_res log_flags pinv_fcgi

lemma fold_flags:
  "(\<And>a s. g_frame (ps_g (f a s)) = g_frame (ps_g s)) \<Longrightarrow>
   g_frame (ps_g (fold f as s)) = g_frame (ps_g s)"
  by (induction as arbitrary: s) auto

abbreviation flags_are :: "frame \<Rightarrow> pstate \<Rightarrow> bool" where
  "flags_are F s \<equiv> g_frame (ps_g s) = F"

interpretation location_flags: action_system "exec_location_directive dns" "flags_are F" for dns F
proof unfold_locales
  fix s s' a
  assume "flags_are F s" "exec_location_directive dns a s = Inr s'"
  then show "flags_are F s'"
    by (cases a) (auto dest!: flag_dests simp: fold_flags)
qed

interpretation name_flags: action_system "\<lambda>(n, t). f_server_name (Heap n) t" "flags_are F" for F
  by unfold_locales (auto dest!: flag_dests)

interpretation listen_flags: action_system exec_listen_option "flags_are F" for F
proof unfold_locales
  fix s s' a
  assume "flags_are F s" "exec_listen_option a s = Inr s'"
  then show "flags_are F s'" by (cases a) (auto dest!: flag_dests)
qed

lemma ssl_flags: "exec_ssl d s = Inr s' \<Longrightarrow> ps_g s' = ps_g s"
  by (cases d) (auto simp: res_simps)

interpretation server_dir_flags: action_system "exec_server_directive dns" "flags_are F" for dns F
proof unfold_locales
  fix s s' a
  assume i: "flags_are F s" and e: "exec_server_directive dns a s = Inr s'"
  show "flags_are F s'"
  proof (cases a)
    case (S_server_name ns)
    with i e show ?thesis by (auto intro: name_flags.run_keeps)
  next
    case (S_location t m ds)
    with e obtain s1 where "run_res (exec_location_directive dns) ds s = Inr s1"
      "f_location t m s1 = Inr s'" by (auto simp: res_simps)
    with location_flags.run_keeps [OF i] show ?thesis by (auto dest!: flag_dests)
  next
    case (S_listen os)
    with i e show ?thesis by (auto intro: listen_flags.run_keeps)
  qed (use i e in \<open>auto dest!: flag_dests ssl_flags simp: fold_flags\<close>)
qed

lemma http_frame:
  assumes "exec_http_directive dns a s = Inr s'"
  shows "\<exists>ss. g_frame (ps_g s') = (g_servers (ps_g s) @ ss, snd (g_frame (ps_g s))) \<and>
    length ss = server_blocks [a]"
proof -
  have same: ?thesis if "g_frame (ps_g s') = g_frame (ps_g s)" "server_blocks [a] = 0"
    using that by (simp add: g_frame_def)
  show ?thesis
  proof (cases a)
    case (H_server ds)
    with assms obtain s1 where d: "run_res (exec_server_directive dns) ds s = Inr s1"
      and f: "f_server s1 = Inr s'" by (auto simp: res_simps)
    have g: "g_frame (ps_g s1) = g_frame (ps_g s)" using server_dir_flags.run_keeps [OF refl d] .
    then have "g_servers (ps_g s1) = g_servers (ps_g s)" by (simp add: g_frame_def)
    with server_flags [OF f] g H_server show ?thesis by (auto simp: server_blocks_def)
  next
    case (H_upstream n us)
    have "g_frame (ps_g (exec_upstream u t)) = g_frame (ps_g t)" for u t
      by (cases u) (simp add: f_upstream_def)
    then have "g_frame (ps_g (fold exec_upstream us s)) = g_frame (ps_g s)"
      by (simp add: fold_flags)
    then have "g_frame (ps_g s') = g_frame (ps_g s)" using assms H_upstream
      by (auto simp: f_upstreams_def g_frame_def state_defs)
    then show ?thesis by (rule same) (simp add: H_upstream server_blocks_def)
  qed (rule same, (use assms in \<open>auto dest!: flag_dests ssl_flags simp: fold_flags
        server_blocks_def\<close>)[2])+
qed

lemma http_run_frame:
  "run_res (exec_http_directive dns) ds s = Inr s' \<Longrightarrow>
   \<exists>ss. g_frame (ps_g s') = (g_servers (ps_g s) @ ss, snd (g_frame (ps_g s))) \<and>
    length ss = server_blocks ds"
proof (induction ds arbitrary: s)
  case Nil
  then show ?case by (simp add: server_blocks_def g_frame_def)
next
  case (Cons d ds)
  then obtain s1 where d: "exec_http_directive dns d s = Inr s1"
    and r: "run_res (exec_http_directive dns) ds s1 = Inr s'" by (auto simp: res_simps)
  from http_frame [OF d] obtain ss where ss: "length ss = server_blocks [d]"
    "g_frame (ps_g s1) = (g_servers (ps_g s) @ ss, snd (g_frame (ps_g s)))" by blast
  then have "g_servers (ps_g s1) = g_servers (ps_g s) @ ss" by (simp add: g_frame_def)
  moreover from Cons.IH [OF r] obtain ts where ts: "length ts = server_blocks ds"
    "g_frame (ps_g s') = (g_servers (ps_g s1) @ ts, snd (g_frame (ps_g s1)))" by blast
  ultimately have "g_frame (ps_g s') = (g_servers (ps_g s) @ (ss @ ts), snd (g_frame (ps_g s)))"
    using ss(2) by simp
  moreover have "length (ss @ ts) = server_blocks (d # ds)"
    using ss(1) ts(1) by (simp add: server_blocks_def)
  ultimately show ?case by blast
qed

interpretation main_flags: action_system exec_main_directive "flags_are F" for F
proof unfold_locales
  fix s s' a
  assume "flags_are F s" "exec_main_directive a s = Inr s'"
  then show "flags_are F s'" by (cases a) (auto dest!: flag_dests)
qed

lemma yyparse_frame:
  assumes "pinv_http s" "yyparse dns c s = Inr s'"
  obtains s2 ss where "pinv_http s2" "s' = f_http s2" "length ss = server_blocks (cfg_http c)"
    "g_frame (ps_g s2) = (g_servers (ps_g s) @ ss, snd (g_frame (ps_g s)))"
proof -
  let ?F = "g_frame (ps_g s)"
  from assms(2) obtain s1 s2 where s1: "run_res exec_main_directive (cfg_main c) s = Inr s1"
    and s2: "run_res (exec_http_directive dns) (cfg_http c)
               (fold f_workerConnections (cfg_events c) s1) = Inr s2"
    and s': "s' = f_http s2"
    by (auto simp: yyparse_def res_simps)
  from main_flags.run_keeps [OF refl s1]
  have f: "flags_are ?F (fold f_workerConnections (cfg_events c) s1)" by (simp add: fold_flags)
  then have "g_servers (ps_g (fold f_workerConnections (cfg_events c) s1)) = g_servers (ps_g s)"
    by (simp add: g_frame_def)
  with http_run_frame [OF s2] f obtain ss where ss: "length ss = server_blocks (cfg_http c)"
    "g_frame (ps_g s2) = (g_servers (ps_g s) @ ss, snd (g_frame (ps_g s)))" by auto
  from main_block.run_keeps [OF assms(1) s1]
  have "pinv_http (fold f_workerConnections (cfg_events c) s1)"
    by (rule pinv_http_connections)
  from http_block.run_keeps [OF this s2] s' ss show thesis by (rule that)
qed

lemma yyparse_flags:
  assumes "pinv_http s" "yyparse dns c s = Inr s'"
  shows "snd (g_frame (ps_g s')) = snd (g_frame (ps_g s))"
  using assms by (rule yyparse_frame) (simp add: f_http_def g_frame_def state_defs)

lemma yyparse_ok:
  assumes "fresh_gstate g" "yyparse dns c (setup_defaults g) = Inr s"
  shows "gstate_ok (ps_g s) \<and> g_servers (ps_g s) \<noteq> []"
  using setup_defaults_pinv [OF assms(1)] assms(2) by (rule yyparse_frame) (simp add: f_http_ok)

end
