(* ===== verification/OG_ConfigProps.thy ===== *)
theory OG_ConfigProps
  imports OG_ConfigCheck
begin

text \<open>
  What the configuration code guarantees, and where it stops or loses a part of the
  configuration: the properties of \<^verbatim>\<open>parseConfig.c\<close> and \<^verbatim>\<open>og_ws.y\<close>.
\<close>

section \<open>A configuration that is accepted\<close>

text \<open>No port is plain for one server and TLS for another.\<close>

definition tls_consistent :: "server list \<Rightarrow> bool" where
  "tls_consistent ss =
     (\<forall>s \<in> set ss. \<forall>p \<in> set (srv_ports s). \<forall>s' \<in> set ss. \<forall>p' \<in> set (srv_ports s').
        port_num p = port_num p' \<longrightarrow> port_tls p = port_tls p')"

lemma portOk_tls_consistent:
  assumes "\<And>s. s \<in> set (g_servers g) \<Longrightarrow> portOk s g" shows "tls_consistent (g_servers g)"
  unfolding tls_consistent_def
proof (intro ballI impI)
  fix s p s' p'
  assume s: "s \<in> set (g_servers g)"
  assume "p \<in> set (srv_ports s)" "s' \<in> set (g_servers g)" "p' \<in> set (srv_ports s')"
    "port_num p = port_num p'"
  then show "port_tls p = port_tls p'" by (rule portOk_all [OF assms [OF s] s])
qed

text \<open>What the request path relies on when \<open>parseConfig\<close> has returned.\<close>

definition config_ready :: "config_env \<Rightarrow> gstate \<Rightarrow> bool" where
  "config_ready env g =
     (g_servers g \<noteq> [] \<and> list_all (server_ok g) (g_servers g) \<and>
      list_all (\<lambda>s. list_all (location_servable env) (srv_locations s)) (g_servers g) \<and>
      list_all (group_ok (length (g_nodes g))) (g_upstreams g) \<and>
      tls_consistent (g_servers g) \<and>
      logs_open (g_accessLog g) \<and> logs_open (g_errorLog g) \<and>
      list_all (\<lambda>l. \<not> lf_freed l) (g_accessLog g) \<and> list_all (\<lambda>l. \<not> lf_freed l) (g_errorLog g))"

text \<open>The log files that the parser creates are not open yet.\<close>

definition logs_closed :: "pstate \<Rightarrow> bool" where
  "logs_closed s =
     (list_all (\<lambda>l. lf_fd l = -1) (g_accessLog (ps_g s)) \<and>
      list_all (\<lambda>l. lf_fd l = -1) (g_errorLog (ps_g s)))"

lemma logs_closed_same:
  "g_accessLog (ps_g s') = g_accessLog (ps_g s) \<Longrightarrow> g_errorLog (ps_g s') = g_errorLog (ps_g s) \<Longrightarrow>
   logs_closed s \<Longrightarrow> logs_closed s'"
  by (simp add: logs_closed_def)

lemma logs_closed_eq: "ps_g s' = ps_g s \<Longrightarrow> logs_closed s \<Longrightarrow> logs_closed s'"
  by (simp add: logs_closed_def)

lemma scalar_logs [simp]:
  "logs_closed (f_pid p s) = logs_closed s" "logs_closed (f_include p s) = logs_closed s"
  "logs_closed (f_default_type p s) = logs_closed s" "logs_closed (f_trace b s) = logs_closed s"
  "logs_closed (f_sendfile b s) = logs_closed s" "logs_closed (f_tcpnopush b s) = logs_closed s"
  "logs_closed (f_user p q s) = logs_closed s"
  "logs_closed (f_server_tokens b s) = logs_closed s"
  "logs_closed (f_keepalive_timeout n s) = logs_closed s"
  "logs_closed (f_workerProcesses n s) = logs_closed s"
  "logs_closed (f_workerConnections n s) = logs_closed s"
  "logs_closed (f_upstreams p s) = logs_closed s"
  "logs_closed (f_http s) = logs_closed s"
  by (simp_all add: logs_closed_def f_pid_def f_include_def f_default_type_def f_trace_def
      f_sendfile_def f_tcpnopush_def f_user_def f_server_tokens_def f_keepalive_timeout_def
      f_workerProcesses_def f_workerConnections_def f_upstreams_def f_http_def Let_def
      state_defs split: option.split)

lemma parser_only_logs [simp]:
  "logs_closed (f_autoindex b s) = logs_closed s" "logs_closed (f_indexFile p s) = logs_closed s"
  "logs_closed (f_protocol p s) = logs_closed s" "logs_closed (f_try_target p s) = logs_closed s"
  "logs_closed (f_ssl_certificate p s) = logs_closed s"
  "logs_closed (f_ssl_certificate_key p s) = logs_closed s"
  by (simp_all add: logs_closed_def)

lemma push_nodes_logs [simp]: "logs_closed (push_nodes w u s) = logs_closed s"
  by (induction w arbitrary: s) (auto simp: logs_closed_def)

lemma free_group_logs:
  "free_group p g = Inr g' \<Longrightarrow> g_accessLog g' = g_accessLog g \<and> g_errorLog g' = g_errorLog g"
  by (auto simp: free_group_def split: option.splits if_splits)

lemma attach_group_logs: "attach_group ty grp s = Inr s' \<Longrightarrow> logs_closed s \<Longrightarrow> logs_closed s'"
  by (auto simp: attach_group_def res_simps logs_closed_def dest: free_group_logs
      split: list.splits)

lemma pass_logs:
  "f_proxy_pass dns h p s = Inr s' \<Longrightarrow> logs_closed s \<Longrightarrow> logs_closed s'"
  "f_fastcgi_pass dns h p s = Inr s' \<Longrightarrow> logs_closed s \<Longrightarrow> logs_closed s'"
proof -
  have grp: "proxyPassToUpstreamGroup dns ty i s = Inr s' \<Longrightarrow> logs_closed s \<Longrightarrow> logs_closed s'"
    for ty i
    unfolding proxyPassToUpstreamGroup_def attach_group_def [symmetric]
    by (auto simp: res_simps Let_def dest!: attach_group_logs split: if_splits)
      (simp add: logs_closed_def)
  show "f_proxy_pass dns h p s = Inr s' \<Longrightarrow> logs_closed s \<Longrightarrow> logs_closed s'"
    "f_fastcgi_pass dns h p s = Inr s' \<Longrightarrow> logs_closed s \<Longrightarrow> logs_closed s'"
    by (auto simp: f_proxy_pass_def f_fastcgi_pass_def res_simps
        dest: grp to_host_flags logs_closed_eq split: option.splits)
qed

lemma log_logs:
  "f_access_log p t s = Inr s' \<Longrightarrow> logs_closed s \<Longrightarrow> logs_closed s'"
  "f_error_log p s = Inr s' \<Longrightarrow> logs_closed s \<Longrightarrow> logs_closed s'"
  by (auto simp: f_access_log_def f_error_log_def logs_closed_def state_defs new_log_def
      split: if_splits)

lemma server_logs: "f_server s = Inr s' \<Longrightarrow> logs_closed s \<Longrightarrow> logs_closed s'"
  by (auto simp: f_server_def res_simps Let_def logs_closed_def state_defs split: if_splits)

lemmas only_logs = parser_only_res [THEN logs_closed_eq]
lemmas logs_intros = pass_logs log_logs server_logs only_logs

lemma fold_logs:
  "(\<And>a s. logs_closed (f a s) = logs_closed s) \<Longrightarrow> logs_closed (fold f as s) = logs_closed s"
  by (induction as arbitrary: s) auto

interpretation location_logs: action_system "exec_location_directive dns" logs_closed for dns
proof unfold_locales
  fix s s' a
  assume i: "logs_closed s" and e: "exec_location_directive dns a s = Inr s'"
  show "logs_closed s'"
  proof (cases a)
    case (L_proxy_pass proto h p)
    with e i show ?thesis by (auto intro: pass_logs(1) [of dns h p "f_protocol proto s"])
  next
    case (L_try_files ts)
    with e have "f_try_files (fold f_try_target ts s) = Inr s'" by simp
    then show ?thesis by (rule only_logs) (simp add: fold_logs i)
  qed (use i e in \<open>auto intro: logs_intros dest!: pinv_fcgi\<close>)
qed

interpretation name_logs: action_system "\<lambda>(n, t). f_server_name (Heap n) t" logs_closed
  by unfold_locales (auto intro: logs_intros)

interpretation listen_logs: action_system exec_listen_option logs_closed
proof unfold_locales
  fix s s' a
  assume "logs_closed s" "exec_listen_option a s = Inr s'"
  then show "logs_closed s'" by (cases a) (auto intro: logs_intros)
qed

interpretation server_dir_logs: action_system "exec_server_directive dns" logs_closed for dns
proof unfold_locales
  fix s s' a
  assume i: "logs_closed s" and e: "exec_server_directive dns a s = Inr s'"
  show "logs_closed s'"
  proof (cases a)
    case (S_server_name ns)
    with i e show ?thesis by (auto intro: name_logs.run_keeps)
  next
    case (S_location t m ds)
    with e obtain s1 where "run_res (exec_location_directive dns) ds s = Inr s1"
      "f_location t m s1 = Inr s'" by (auto simp: res_simps)
    with location_logs.run_keeps [OF i] show ?thesis by (auto intro: logs_intros)
  next
    case (S_listen os)
    with i e show ?thesis by (auto intro: listen_logs.run_keeps)
  qed (use i e in \<open>auto intro: logs_intros dest!: ssl_flags pinv_fcgi simp: fold_logs logs_closed_eq\<close>)
qed

interpretation http_logs: action_system "exec_http_directive dns" logs_closed for dns
proof unfold_locales
  fix s s' a
  assume i: "logs_closed s" and e: "exec_http_directive dns a s = Inr s'"
  show "logs_closed s'"
  proof (cases a)
    case (H_server ds)
    with e obtain s1 where "run_res (exec_server_directive dns) ds s = Inr s1"
      "f_server s1 = Inr s'" by (auto simp: res_simps)
    with server_dir_logs.run_keeps [OF i] show ?thesis by (auto intro: logs_intros)
  next
    case (H_upstream n us)
    have "logs_closed (exec_upstream u t) = logs_closed t" for u t
      by (cases u) (simp add: f_upstream_def)
    then show ?thesis using e H_upstream i by (auto simp: fold_logs)
  qed (use i e in \<open>auto intro: logs_intros dest!: ssl_flags pinv_fcgi simp: fold_logs logs_closed_eq\<close>)
qed

interpretation main_logs: action_system exec_main_directive logs_closed
proof unfold_locales
  fix s s' a
  assume "logs_closed s" "exec_main_directive a s = Inr s'"
  then show "logs_closed s'" by (cases a) (auto intro: logs_intros)
qed

lemma yyparse_logs:
  assumes "yyparse dns c s = Inr s'" "logs_closed s" shows "logs_closed s'"
proof -
  from assms(1) obtain s1 s2 where s1: "run_res exec_main_directive (cfg_main c) s = Inr s1"
    and s2: "run_res (exec_http_directive dns) (cfg_http c)
               (fold f_workerConnections (cfg_events c) s1) = Inr s2"
    and s': "s' = f_http s2"
    by (auto simp: yyparse_def res_simps)
  from main_logs.run_keeps [OF assms(2) s1]
  have "logs_closed (fold f_workerConnections (cfg_events c) s1)" by (simp add: fold_logs)
  from http_logs.run_keeps [OF this s2] s' show ?thesis by simp
qed

lemma setup_defaults_logs: "fresh_gstate g \<Longrightarrow> logs_closed (setup_defaults g)"
  by (simp add: logs_closed_def setup_defaults_fields new_log_def)

lemma free_log_marks:
  "free_log (Some i) ls = Inr ls' \<Longrightarrow> i < length ls \<Longrightarrow> \<exists>l \<in> set ls'. lf_freed l"
  by (auto simp: free_log_def set_update_memI split: if_splits intro!: bexI [OF _ set_update_memI])

text \<open>Without the default server, the freed log of the first server is still in its chain.\<close>

lemma popped_logs_not_opened:
  assumes "gstate_ok g" "g_servers g \<noteq> []" "popServer g = Inr g1"
    "g_accessLog g2 = g_accessLog g1"
  shows "openLogFiles env g2 \<noteq> Inr g3"
proof
  assume o: "openLogFiles env g2 = Inr g3"
  from assms(1,2) obtain s rest where s: "g_servers g = s # rest" "server_ok g s"
    by (cases "g_servers g") (auto simp: gstate_ok_def)
  from s(2) obtain i where i: "srv_accessLog s = Some i" "i < length (g_accessLog g)"
    by (auto simp: server_ok_def log_ok_def split: option.splits)
  from assms(3) s(1) i(1) have "free_log (Some i) (g_accessLog g) = Inr (g_accessLog g1)"
    by (auto simp: popServer_def res_simps)
  from free_log_marks [OF this i(2)] obtain l where "l \<in> set (g_accessLog g2)" "lf_freed l"
    using assms(4) by auto
  moreover from o obtain r where "open_logs (ce_open env) 0 [] (g_accessLog g2) = Inr r"
    by (auto simp: openLogFiles_def res_simps)
  then have "list_all (\<lambda>l. \<not> lf_freed l) (g_accessLog g2)" by (rule open_logs_freed)
  ultimately show False by (auto simp: list_all_iff)
qed

lemma parseConfig_steps:
  assumes "parseConfig env cfg g = Inr g'"
  obtains c s g1 where "cfg = Parsed c" "yyparse (ce_resolve env) c (setup_defaults g) = Inr s"
    "checkServers env (ps_g s) = Inr g1" "openLogFiles env g1 = Inr g'"
  using assms
  by (auto simp: parseConfig_def checkConfig_def res_simps split: parsing.splits if_splits)

lemma logs_open_nil: "logs_open []"
  by (simp add: logs_open_def)

lemma server_ok_lengths:
  assumes "server_ok g s" "length (g_upstreams g') = length (g_upstreams g)"
    "length (g_accessLog g') = length (g_accessLog g)"
    "length (g_errorLog g') = length (g_errorLog g)"
  shows "server_ok g' s"
  using assms by (auto simp: server_ok_def log_ok_def split: option.splits)

lemma openLogFiles_ready:
  assumes ok: "gstate_ok g" and ne: "g_servers g \<noteq> []"
    and ce: "check_each env g (g_servers g) = Inr (g_servers g)"
    and cl: "list_all (\<lambda>l. lf_fd l = -1) (g_accessLog g)"
      "list_all (\<lambda>l. lf_fd l = -1) (g_errorLog g)"
    and op: "openLogFiles env g = Inr g'"
  shows "config_ready env g'"
proof -
  from op obtain n al m el
    where al: "open_logs (ce_open env) 0 [] (g_accessLog g) = Inr (n, al)"
      and el: "open_logs (ce_open env) n [] (g_errorLog g) = Inr (m, el)"
      and g': "g' = g\<lparr>g_accessLog := al, g_errorLog := el\<rparr>"
    by (auto simp: openLogFiles_def res_simps)
  from open_logs_open [OF al logs_open_nil cl(1)]
  have a: "logs_open al" "map lf_path al = map lf_path (g_accessLog g)" by simp_all
  from open_logs_open [OF el logs_open_nil cl(2)]
  have e: "logs_open el" "map lf_path el = map lf_path (g_errorLog g)" by simp_all
  from a(2) e(2) have len: "length al = length (g_accessLog g)" "length el = length (g_errorLog g)"
    by (metis length_map)+
  have live: "list_all (\<lambda>l. \<not> lf_freed l) al" "list_all (\<lambda>l. \<not> lf_freed l) el"
    using open_logs_live [OF al] open_logs_live [OF el] by simp_all
  have "list_all (server_ok g') (g_servers g)"
    using ok len by (auto simp: gstate_ok_def list_all_iff g' intro: server_ok_lengths)
  moreover have "portOk s g \<and> list_all (location_servable env) (srv_locations s)"
    if "s \<in> set (g_servers g)" for s
    using check_each_all [OF ce that] by (auto intro: checkDocRoots_all)
  moreover from this have "tls_consistent (g_servers g)" by (intro portOk_tls_consistent) blast
  moreover have "list_all (group_ok (length (g_nodes g))) (g_upstreams g)"
    using ok by (simp add: gstate_ok_def)
  ultimately show ?thesis
    using ne a(1) e(1) live by (simp add: config_ready_def g' list_all_iff)
qed

lemma parseConfig_ready_run:
  assumes "fresh_gstate g" "g_defaultServer g" "parseConfig env cfg g = Inr g'"
  shows "config_ready env g'"
proof -
  from assms(3) obtain c s g1 where y: "yyparse (ce_resolve env) c (setup_defaults g) = Inr s"
    and cs: "checkServers env (ps_g s) = Inr g1" and op: "openLogFiles env g1 = Inr g'"
    by (rule parseConfig_steps)
  have ok: "gstate_ok (ps_g s)" "g_servers (ps_g s) \<noteq> []"
    using yyparse_ok [OF assms(1) y] by simp_all
  have "g_defaultServer (ps_g s)"
    using yyparse_flags [OF setup_defaults_pinv [OF assms(1)] y] assms(2) setup_defaults_fields(13) [OF assms(1)]
    by (simp add: g_frame_def)
  with cs obtain ss where ce: "check_each env (ps_g s) (g_servers (ps_g s)) = Inr ss"
    and g1: "g1 = (ps_g s)\<lparr>g_servers := ss\<rparr>"
    by (auto simp: checkServers_def res_simps)
  from ce ok(1) have "ss = g_servers (ps_g s)"
    by (auto simp: gstate_ok_def intro: check_each_id)
  with ce g1 have "g1 = ps_g s" "check_each env g1 (g_servers g1) = Inr (g_servers g1)" by simp_all
  moreover have "logs_closed s" using yyparse_logs [OF y] setup_defaults_logs [OF assms(1)] .
  ultimately show ?thesis
    using ok op by (auto simp: logs_closed_def intro: openLogFiles_ready)
qed

text \<open>C1: When \<open>parseConfig\<close> returns, the configuration is complete: there is a server; every
  server has a name, an index file, a port, exactly one location and two valid log files; every
  location that proxies has a target and every other document root is readable; no port is both
  plain and TLS; every log file is open and allocated, and servers that name the same path share its
  descriptor.\<close>

theorem parseConfig_ready:
  assumes "fresh_gstate g" "g_defaultServer g" "parseConfig env cfg g = Inr g'"
  shows "config_ready env g'"
  using assms by (rule parseConfig_ready_run)

text \<open>What the parser only reads is the same after \<open>parseConfig\<close>.\<close>

lemma parseConfig_frame:
  assumes "fresh_gstate g" "parseConfig env cfg g = Inr g'"
  shows "snd (g_frame g') = snd (g_frame g)"
proof -
  from assms(2) obtain c s g1 where y: "yyparse (ce_resolve env) c (setup_defaults g) = Inr s"
    and cs: "checkServers env (ps_g s) = Inr g1" and op: "openLogFiles env g1 = Inr g'"
    by (rule parseConfig_steps)
  have "snd (g_frame g') = snd (g_frame g1)"
    using op by (auto simp: openLogFiles_def res_simps g_frame_def)
  also have "\<dots> = snd (g_frame (ps_g s))"
    using cs by (auto simp: checkServers_def res_simps g_frame_def popServer_def split: if_splits list.splits)
  also have "\<dots> = snd (g_frame (ps_g (setup_defaults g)))"
    by (rule yyparse_flags [OF setup_defaults_pinv [OF assms(1)] y])
  also have "\<dots> = snd (g_frame g)"
    by (simp add: setup_defaults_def initial_pstate_def defaultType_def defaultIndexFile_def
        defaultLocation_def defaultServerName_def defaultPort_def defaultErrorLog_def
        defaultAccessLog_def state_defs g_frame_def)
  finally show ?thesis .
qed

lemma parseConfig_no_default_run:
  assumes "fresh_gstate g" "\<not> g_defaultServer g"
  shows "\<exists>e. parseConfig env cfg g = Inl e"
proof (cases "parseConfig env cfg g")
  case (Inr g')
  then obtain c s g1 where y: "yyparse (ce_resolve env) c (setup_defaults g) = Inr s"
    and cs: "checkServers env (ps_g s) = Inr g1" and op: "openLogFiles env g1 = Inr g'"
    by (rule parseConfig_steps)
  have ok: "gstate_ok (ps_g s)" "g_servers (ps_g s) \<noteq> []"
    using yyparse_ok [OF assms(1) y] by simp_all
  have "\<not> g_defaultServer (ps_g s)"
    using yyparse_flags [OF setup_defaults_pinv [OF assms(1)] y] assms(2) setup_defaults_fields(13) [OF assms(1)]
    by (simp add: g_frame_def)
  with cs obtain g0 where p: "popServer (ps_g s) = Inr g0" "g_accessLog g1 = g_accessLog g0"
    by (auto simp: checkServers_def res_simps)
  from popped_logs_not_opened [OF ok p(1) p(2)] op show ?thesis by blast
qed blast

text \<open>C28: With the default server switched off (\<open>-n\<close>), \<open>parseConfig\<close> never
  returns in a defined way, whatever the configuration and the file system: if nothing stops it
  before, \<open>popServer\<close> frees a log file that is still in the chain that
  \<open>openLogFiles\<close> walks.\<close>

theorem parseConfig_no_default_server:
  assumes "fresh_gstate g" "\<not> g_defaultServer g"
  shows "\<exists>e. parseConfig env cfg g = Inl e"
  using assms by (rule parseConfig_no_default_run)

section \<open>A concrete configuration\<close>

definition ex_env :: config_env where
  "ex_env = \<lparr>ce_resolve = (\<lambda>h. if h = ''back'' then Some 0x7F000001 else None),
     ce_fopen = (\<lambda>p. True), ce_access = (\<lambda>p. True), ce_open = (\<lambda>n p. int n + 3)\<rparr>"

definition ex_config :: config where
  "ex_config = \<lparr>cfg_main = [M_pid ''/run/ogws.pid''], cfg_events = [512],
     cfg_http = [H_upstream ''pool'' [Upstream_entry ''back'' (Some 9000) (Weight 2)],
       H_server [S_server_name [(''a.org'', 0)], S_listen [O_port 80], S_root ''/srv'',
         S_access_log ''/var/log/ogws/access.log'' 0]]\<rparr>"

lemma ex_fresh: "fresh_gstate initial_state" "g_defaultServer initial_state"
  "fresh_gstate (setDefaultServer False initial_state)"
  by code_simp+

lemma ex_parse:
  "\<exists>g. parseConfig ex_env (Parsed ex_config) initial_state = Inr g \<and> length (g_servers g) = 2"
proof -
  have "case parseConfig ex_env (Parsed ex_config) initial_state of
      Inl e \<Rightarrow> False | Inr g \<Rightarrow> length (g_servers g) = 2"
    by code_simp
  then show ?thesis by (simp split: sum.splits)
qed

lemma parseConfig_ready_witness:
  "\<exists>g. parseConfig ex_env (Parsed ex_config) initial_state = Inr g \<and> config_ready ex_env g"
  using ex_parse parseConfig_ready [OF ex_fresh(1,2), of ex_env "Parsed ex_config"] by blast

lemma parseConfig_no_default_server_witness:
  "\<exists>e. parseConfig ex_env (Parsed ex_config) (setDefaultServer False initial_state) = Inl e"
  by (rule parseConfig_no_default_server [OF ex_fresh(3)]) code_simp

lemma one_location:
  assumes "pinv s" "length (p_locations s) = 1"
  obtains d where "p_locations s = [d]" "loc_root d = Some default_root"
  using assms by (auto simp: pinv_def defaults_last_def)

text \<open>The parser lists the configured servers in the order of their blocks and puts the
  default server, the one named \<open>*\<close> with the default document root, behind them. The
  comments of \<open>checkServers\<close> and \<open>f_http\<close> say that the first server is the default.\<close>

lemma default_server_is_last:
  assumes "fresh_gstate g" "yyparse dns c (setup_defaults g) = Inr s"
  shows "\<exists>ss d l. g_servers (ps_g s) = ss @ [d] \<and> length ss = server_blocks (cfg_http c) \<and>
     last (srv_names d) = default_name \<and> srv_locations d = [l] \<and>
     loc_root l = Some default_root"
  using setup_defaults_pinv [OF assms(1)] assms(2)
proof (rule yyparse_frame)
  fix s2 ss
  assume i: "pinv_http s2" and s: "s = f_http s2" and ss: "length ss = server_blocks (cfg_http c)"
    and f: "g_frame (ps_g s2) =
      (g_servers (ps_g (setup_defaults g)) @ ss, snd (g_frame (ps_g (setup_defaults g))))"
  from f have "g_servers (ps_g s2) = ss"
    by (simp add: g_frame_def setup_defaults_fields(8) [OF assms(1)])
  moreover from i obtain l where "p_locations s2 = [l]" "loc_root l = Some default_root"
    by (auto simp: pinv_http_def elim: one_location)
  moreover from i have "last (p_serverNames s2) = default_name"
    by (simp add: pinv_http_def pinv_def defaults_last_def)
  ultimately show ?thesis using ss by (simp add: s f_http_def setServerList_def)
qed

lemma default_server_is_last_example:
  "\<exists>s d. yyparse (ce_resolve ex_env) ex_config (setup_defaults initial_state) = Inr s \<and>
     last (g_servers (ps_g s)) = d \<and> last (srv_names d) = default_name"
proof -
  have "case yyparse (ce_resolve ex_env) ex_config (setup_defaults initial_state) of
      Inl e \<Rightarrow> False | Inr s \<Rightarrow> True"
    by code_simp
  then obtain s where s: "yyparse (ce_resolve ex_env) ex_config (setup_defaults initial_state) = Inr s"
    by (auto split: sum.splits)
  with default_server_is_last [OF ex_fresh(1) s] show ?thesis by auto
qed

section \<open>Locations of a server block\<close>

lemma f_location_head:
  "f_location t m s = Inr s' \<Longrightarrow>
   loc_match (hd (p_locations s')) = m \<and> loc_matchType (hd (p_locations s')) = t \<and> ps_g s' = ps_g s"
  by (auto simp: f_location_def Let_def res_simps split: list.splits option.splits)

text \<open>A server ends up with exactly one location, and when its block ends with a
  \<open>location\<close> block that is the one it keeps: whatever locations the block lists before
  it are overwritten.\<close>

lemma server_keeps_last_location:
  assumes "pinv s"
    "run_res (exec_server_directive dns) (ds @ [S_location t m ls]) s = Inr s1" "f_server s1 = Inr s'"
  shows "\<exists>srv l. g_servers (ps_g s') = g_servers (ps_g s1) @ [srv] \<and> srv_locations srv = [l] \<and>
    loc_match l = m \<and> loc_matchType l = t"
proof -
  from server_block.run_keeps [OF assms(1,2)] have i: "pinv s1" .
  from assms(2) obtain s0 where "f_location t m s0 = Inr s1"
    by (auto simp: run_res_append res_simps)
  then have "loc_match (hd (p_locations s1)) = m \<and> loc_matchType (hd (p_locations s1)) = t"
    by (simp add: f_location_head)
  moreover have "g_servers (ps_g s') = g_servers (ps_g s1) @ [built_server s1]"
    using assms(3) by (simp add: f_server_eq [OF i] setServerList_def, force)
  ultimately show ?thesis by (auto simp: built_server_def)
qed

definition ex_two_locations :: "server_directive list" where
  "ex_two_locations =
     [S_location PREFIX_MATCH ''/img/'' [L_root ''/srv/img''],
      S_location PREFIX_MATCH ''/doc/'' [L_root ''/srv/doc'']]"

lemma server_keeps_last_location_example:
  "\<exists>s1 s' srv l. run_res (exec_server_directive (\<lambda>h. None)) ex_two_locations
       (setup_defaults initial_state) = Inr s1 \<and> f_server s1 = Inr s' \<and>
     g_servers (ps_g s') = g_servers (ps_g s1) @ [srv] \<and> srv_locations srv = [l] \<and>
     loc_match l = ''/doc/'' \<and> loc_matchType l = PREFIX_MATCH"
proof -
  have "case run_res (exec_server_directive (\<lambda>h. None)) ex_two_locations
      (setup_defaults initial_state) of Inl e \<Rightarrow> False
    | Inr s1 \<Rightarrow> (case f_server s1 of Inl e \<Rightarrow> False | Inr s' \<Rightarrow> True)"
    by code_simp
  then obtain s1 s' where r: "run_res (exec_server_directive (\<lambda>h. None)) ex_two_locations
      (setup_defaults initial_state) = Inr s1" "f_server s1 = Inr s'"
    by (auto split: sum.splits)
  have i: "pinv (setup_defaults initial_state)"
    using setup_defaults_pinv [OF ex_fresh(1)] by (simp add: pinv_http_def)
  from server_keeps_last_location [OF i, of "\<lambda>h. None"
      "[S_location PREFIX_MATCH ''/img/'' [L_root ''/srv/img'']]" PREFIX_MATCH "''/doc/''"
      "[L_root ''/srv/doc'']"] r
  show ?thesis by (fastforce simp: ex_two_locations_def)
qed

section \<open>Upstream groups\<close>

definition entry_weight :: "upstream_entry \<Rightarrow> nat" where
  "entry_weight e = (case e of Upstream_entry h p w \<Rightarrow>
     nat (case w of No_weight \<Rightarrow> 1 | Weight n \<Rightarrow> n | Backup \<Rightarrow> -1))"

definition entry_host :: "upstream_entry \<Rightarrow> string" where
  "entry_host e = (case e of Upstream_entry h p w \<Rightarrow> h)"

definition node_hosts :: "pstate \<Rightarrow> nat list \<Rightarrow> string list" where
  "node_hosts s as = map (\<lambda>a. up_host (g_nodes (ps_g s) ! a)) as"

lemma node_hosts_append:
  assumes "list_all (\<lambda>a. a < length (g_nodes (ps_g s))) as"
    "g_nodes (ps_g s') = g_nodes (ps_g s) @ ns"
  shows "node_hosts s' as = node_hosts s as"
  using assms by (auto simp: node_hosts_def list_all_iff nth_append)

lemma push_nodes_hosts:
  assumes "list_all (\<lambda>a. a < length (g_nodes (ps_g s))) (p_servers s)"
  shows "node_hosts (push_nodes w u s) (p_servers (push_nodes w u s)) =
           replicate w (up_host u) @ node_hosts s (p_servers s) \<and>
         list_all (\<lambda>a. a < length (g_nodes (ps_g (push_nodes w u s)))) (p_servers (push_nodes w u s))"
  using assms
proof (induction w arbitrary: s)
  case (Suc w)
  let ?s = "s\<lparr>p_servers := length (g_nodes (ps_g s)) # p_servers s,
          ps_g := (ps_g s)\<lparr>g_nodes := g_nodes (ps_g s) @ [u]\<rparr>\<rparr>"
  have "node_hosts ?s (p_servers ?s) = up_host u # node_hosts s (p_servers s)"
    using node_hosts_append [OF Suc.prems, of ?s "[u]"] by (simp add: node_hosts_def)
  moreover have "list_all (\<lambda>a. a < length (g_nodes (ps_g ?s))) (p_servers ?s)"
    using Suc.prems by (auto simp: list_all_iff)
  moreover have "replicate w (up_host u) @ up_host u # xs = replicate (Suc w) (up_host u) @ xs" for xs
    by (simp add: replicate_app_Cons_same)
  ultimately show ?case using Suc.IH [of ?s] by simp
qed simp

lemma exec_upstream_hosts:
  assumes "list_all (\<lambda>a. a < length (g_nodes (ps_g s))) (p_servers s)"
  shows "node_hosts (exec_upstream e s) (p_servers (exec_upstream e s)) =
           replicate (entry_weight e) (entry_host e) @ node_hosts s (p_servers s) \<and>
         list_all (\<lambda>a. a < length (g_nodes (ps_g (exec_upstream e s)))) (p_servers (exec_upstream e s))"
  using push_nodes_hosts [OF assms]
  by (cases e) (simp add: f_upstream_def entry_weight_def entry_host_def)

lemma fold_upstream_hosts:
  assumes "list_all (\<lambda>a. a < length (g_nodes (ps_g s))) (p_servers s)"
  shows "node_hosts (fold exec_upstream es s) (p_servers (fold exec_upstream es s)) =
     concat (map (\<lambda>e. replicate (entry_weight e) (entry_host e)) (rev es)) @
       node_hosts s (p_servers s)"
  using assms
proof (induction es arbitrary: s)
  case (Cons e es)
  with Cons.IH [of "exec_upstream e s"] exec_upstream_hosts [of s e] show ?case by simp
qed simp

text \<open>C27: An \<open>upstream\<close> block appends one group. Its server list has each entry once per
  unit of weight (a \<open>backup\<close> entry not at all), the last entry first, followed by every
  server of the groups defined before: the static list is never reset.\<close>

theorem upstream_group_servers:
  assumes "pinv s"
    "exec_http_directive dns (H_upstream n es) s = Inr s'"
  shows "\<exists>u. g_upstreams (ps_g s') = g_upstreams (ps_g (fold exec_upstream es s)) @ [u] \<and>
     ug_name u = n \<and> ug_current u = ug_servers u \<and>
     node_hosts s' (ug_servers u) =
       concat (map (\<lambda>e. replicate (entry_weight e) (entry_host e)) (rev es)) @
       node_hosts s (p_servers s) \<and> p_servers s' = ug_servers u"
proof -
  let ?f = "fold exec_upstream es s"
  from assms(1) have "list_all (\<lambda>a. a < length (g_nodes (ps_g s))) (p_servers s)"
    by (simp add: pinv_def)
  note h = fold_upstream_hosts [OF this, of es]
  from assms(2) have s': "s' = f_upstreams n ?f" by simp
  have "node_hosts s' (p_servers ?f) = node_hosts ?f (p_servers ?f)"
    by (simp add: s' node_hosts_def f_upstreams_def setUpstreamList_def)
  with h show ?thesis
    by (simp add: s' f_upstreams_def setUpstreamList_def)
qed

definition ex_group :: "upstream_entry list" where
  "ex_group = [Upstream_entry ''b1'' None (Weight 2), Upstream_entry ''b2'' None No_weight,
     Upstream_entry ''b3'' None Backup]"

lemma upstream_group_servers_witness:
  "\<exists>s' (u :: upstreams). exec_http_directive (\<lambda>h. None) (H_upstream ''pool'' ex_group)
       (setup_defaults initial_state) = Inr s' \<and>
     node_hosts s' (ug_servers u) = [''b2'', ''b1'', ''b1'']"
proof -
  let ?s = "setup_defaults initial_state"
  let ?s' = "f_upstreams ''pool'' (fold exec_upstream ex_group ?s)"
  have i: "pinv ?s"
    using setup_defaults_pinv [OF ex_fresh(1)] by (simp add: pinv_http_def)
  have e: "exec_http_directive (\<lambda>h. None) (H_upstream ''pool'' ex_group) ?s = Inr ?s'" by simp
  have v: "concat (map (\<lambda>e. replicate (entry_weight e) (entry_host e)) (rev ex_group)) @
      node_hosts ?s (p_servers ?s) = [''b2'', ''b1'', ''b1'']"
    by code_simp
  from upstream_group_servers [OF i e, unfolded v] obtain u :: upstreams
    where "node_hosts ?s' (ug_servers u) = [''b2'', ''b1'', ''b1'']" by blast
  with e show ?thesis by blast
qed

section \<open>Pass targets\<close>

text \<open>A \<open>proxy_pass\<close> or \<open>fastcgi_pass\<close> directive that names an upstream group and
  opens its location gives it the group, but neither the type \<open>TYPE_PROXY_PASS\<close> nor
  \<open>TYPE_FASTCGI_PASS\<close>, whichever of the two directives it is.\<close>

lemma group_pass_not_proxied:
  assumes "p_locations s = [d]" "isUpstreamGroup h s = Inr (Some i)"
    "bit (loc_type d) 0 = False" "bit (loc_type d) 4 = False"
    "f_proxy_pass dns h p s = Inr s' \<or> f_fastcgi_pass dns h p s = Inr s'"
  shows "\<exists>l. p_locations s' = [l, d] \<and> loc_group l = Some i \<and>
     has_flag (loc_type l) TYPE_UPSTREAM_GROUP \<and>
     \<not> has_flag (loc_type l) TYPE_PROXY_PASS \<and> \<not> has_flag (loc_type l) TYPE_FASTCGI_PASS"
proof -
  from assms(2,5) obtain ty where "proxyPassToUpstreamGroup dns ty i s = Inr s'"
    by (auto simp: f_proxy_pass_def f_fastcgi_pass_def)
  then have "p_locations s' =
      [d\<lparr>loc_group := Some i, loc_type := loc_type d OR TYPE_UPSTREAM_GROUP\<rparr>, d]"
    using assms(1) by (auto simp: proxyPassToUpstreamGroup_def res_simps Let_def split: if_splits)
  then show ?thesis using assms(3,4) by (simp add: flag_simps)
qed

definition ex_pool_state :: "pstate res" where
  "ex_pool_state = exec_http_directive (ce_resolve ex_env)
     (H_upstream ''pool'' [Upstream_entry ''back'' (Some 9000) No_weight])
     (setup_defaults initial_state)"

lemma ex_pool:
  "\<exists>s s'. ex_pool_state = Inr s \<and> p_locations s = [default_location] \<and>
     isUpstreamGroup ''pool'' s = Inr (Some 0) \<and>
     f_proxy_pass (ce_resolve ex_env) ''pool'' 0 s = Inr s'"
proof -
  have "case ex_pool_state of Inl e \<Rightarrow> False
    | Inr s \<Rightarrow> p_locations s = [default_location] \<and> isUpstreamGroup ''pool'' s = Inr (Some 0) \<and>
        (case f_proxy_pass (ce_resolve ex_env) ''pool'' 0 s of Inl e \<Rightarrow> False | Inr s' \<Rightarrow> True)"
    by code_simp
  then show ?thesis by (auto split: sum.splits)
qed

lemma group_pass_not_proxied_example:
  "\<exists>s s' l. ex_pool_state = Inr s \<and> f_proxy_pass (ce_resolve ex_env) ''pool'' 0 s = Inr s' \<and>
     p_locations s' = [l, default_location] \<and> \<not> has_flag (loc_type l) TYPE_PROXY_PASS"
proof -
  have "bit (loc_type default_location) 0 = False" "bit (loc_type default_location) 4 = False"
    by code_simp+
  with ex_pool show ?thesis
    using group_pass_not_proxied [of _ default_location "''pool''" 0 "ce_resolve ex_env" 0] by blast
qed

text \<open>A location whose earlier directive made it the pending one and that then passes to
  an upstream group is rejected by the check that follows the parser: it has the type
  \<open>TYPE_PROXY_PASS\<close> but no address of its own.\<close>

lemma pending_group_pass_rejected:
  assumes "p_locations s = [l, d]" "loc_passTo l = None" "isUpstreamGroup h s = Inr (Some i)"
    "f_proxy_pass dns h p s = Inr s'"
  shows "checkDocRoots env (p_locations s') = Inl (Exit 1)"
proof -
  from assms(3,4) have "proxyPassToUpstreamGroup dns TYPE_PROXY_PASS i s = Inr s'"
    by (simp add: f_proxy_pass_def)
  then have "p_locations s' = [l\<lparr>loc_type := loc_type l OR TYPE_PROXY_PASS, loc_group := Some i\<rparr>, d]"
    using assms(1)
    by (auto simp: proxyPassToUpstreamGroup_def res_simps Let_def split: if_splits)
  then show ?thesis using assms(2) by (simp add: flag_simps)
qed

lemma pending_group_pass_rejected_example:
  "\<exists>s s'. bind_res ex_pool_state (f_root (Heap ''/srv'')) = Inr s \<and>
     f_proxy_pass (ce_resolve ex_env) ''pool'' 0 s = Inr s' \<and>
     checkDocRoots ex_env (p_locations s') = Inl (Exit 1)"
proof -
  let ?l = "default_location\<lparr>loc_root := Some (Heap ''/srv''),
      loc_type := loc_type default_location OR TYPE_DOC_ROOT\<rparr>"
  have "case bind_res ex_pool_state (f_root (Heap ''/srv'')) of Inl e \<Rightarrow> False
    | Inr s \<Rightarrow> p_locations s = [?l, default_location] \<and> loc_passTo ?l = None \<and>
        isUpstreamGroup ''pool'' s = Inr (Some 0) \<and>
        (case f_proxy_pass (ce_resolve ex_env) ''pool'' 0 s of Inl e \<Rightarrow> False | Inr s' \<Rightarrow> True)"
    by code_simp
  then obtain s s' where "bind_res ex_pool_state (f_root (Heap ''/srv'')) = Inr s"
    "p_locations s = [?l, default_location]" "loc_passTo ?l = None"
    "isUpstreamGroup ''pool'' s = Inr (Some 0)"
    "f_proxy_pass (ce_resolve ex_env) ''pool'' 0 s = Inr s'"
    by (auto split: sum.splits)
  then show ?thesis
    using pending_group_pass_rejected [of s ?l default_location] by blast
qed

section \<open>Logs of the \<open>http\<close> block\<close>

abbreviation log_pending :: "pstate \<Rightarrow> bool" where
  "log_pending s \<equiv> p_currentAccessLog s \<noteq> None"

lemma scalar_pending [simp]:
  "p_currentAccessLog (f_default_type t s) = p_currentAccessLog s"
  "p_currentAccessLog (f_autoindex b s) = p_currentAccessLog s"
  "p_currentAccessLog (f_indexFile i s) = p_currentAccessLog s"
  "p_currentAccessLog (f_server_tokens b s) = p_currentAccessLog s"
  "p_currentAccessLog (f_protocol p s) = p_currentAccessLog s"
  "p_currentAccessLog (f_try_target t s) = p_currentAccessLog s"
  "p_currentAccessLog (f_ssl_certificate p s) = p_currentAccessLog s"
  "p_currentAccessLog (f_ssl_certificate_key p s) = p_currentAccessLog s"
  by (simp_all add: f_default_type_def f_autoindex_def f_indexFile_def f_server_tokens_def
      f_protocol_def f_try_target_def f_ssl_certificate_def f_ssl_certificate_key_def)

lemma res_pending:
  "f_server_name n t s = Inr s' \<Longrightarrow> p_currentAccessLog s' = p_currentAccessLog s"
  "f_listen nm pn s = Inr s' \<Longrightarrow> p_currentAccessLog s' = p_currentAccessLog s"
  "f_tls s = Inr s' \<Longrightarrow> p_currentAccessLog s' = p_currentAccessLog s"
  "f_root r s = Inr s' \<Longrightarrow> p_currentAccessLog s' = p_currentAccessLog s"
  "f_expires e s = Inr s' \<Longrightarrow> p_currentAccessLog s' = p_currentAccessLog s"
  "f_location t m s = Inr s' \<Longrightarrow> p_currentAccessLog s' = p_currentAccessLog s"
  "f_try_files s = Inr s' \<Longrightarrow> p_currentAccessLog s' = p_currentAccessLog s"
  "f_error_log p s = Inr s' \<Longrightarrow> p_currentAccessLog s' = p_currentAccessLog s"
  "exec_ssl d s = Inr s' \<Longrightarrow> p_currentAccessLog s' = p_currentAccessLog s"
  by (auto simp: f_server_name_def f_listen_def f_tls_def f_root_def f_expires_def f_location_def
      f_try_files_def f_error_log_def Let_def res_simps split: if_splits option.splits list.splits)
    (cases d; auto simp: res_simps)

lemma attach_group_pending:
  "attach_group ty grp s = Inr s' \<Longrightarrow> p_currentAccessLog s' = p_currentAccessLog s"
  by (auto simp: attach_group_def res_simps split: list.splits)

lemma pass_pending:
  "f_proxy_pass dns h p s = Inr s' \<Longrightarrow> p_currentAccessLog s' = p_currentAccessLog s"
  "f_fastcgi_pass dns h p s = Inr s' \<Longrightarrow> p_currentAccessLog s' = p_currentAccessLog s"
proof -
  have "proxyPassToUpstreamGroup dns ty i s = Inr s' \<Longrightarrow> p_currentAccessLog s' = p_currentAccessLog s"
    for ty i
    unfolding proxyPassToUpstreamGroup_def attach_group_def [symmetric]
    by (auto simp: res_simps Let_def dest!: attach_group_pending split: if_splits)
  moreover have "proxyPassToHost dns ty h p s = Inr s' \<Longrightarrow> p_currentAccessLog s' = p_currentAccessLog s"
    for ty
    by (auto simp: proxyPassToHost_def split: option.splits list.splits)
  ultimately show "f_proxy_pass dns h p s = Inr s' \<Longrightarrow> p_currentAccessLog s' = p_currentAccessLog s"
    "f_fastcgi_pass dns h p s = Inr s' \<Longrightarrow> p_currentAccessLog s' = p_currentAccessLog s"
    by (auto simp: f_proxy_pass_def f_fastcgi_pass_def res_simps split: option.splits)
qed

lemma fold_pending:
  "(\<And>a s. p_currentAccessLog (f a s) = p_currentAccessLog s) \<Longrightarrow>
   p_currentAccessLog (fold f as s) = p_currentAccessLog s"
  by (induction as arbitrary: s) auto

interpretation location_pending: action_system "exec_location_directive dns" log_pending for dns
proof unfold_locales
  fix s s' a
  assume "log_pending s" "exec_location_directive dns a s = Inr s'"
  then show "log_pending s'"
    by (cases a) (auto dest!: res_pending pass_pending pinv_fcgi simp: fold_pending)
qed

interpretation name_pending: action_system "\<lambda>(n, t). f_server_name (Heap n) t" log_pending
  by unfold_locales (auto dest!: res_pending)

interpretation listen_pending: action_system exec_listen_option log_pending
proof unfold_locales
  fix s s' a
  assume "log_pending s" "exec_listen_option a s = Inr s'"
  then show "log_pending s'" by (cases a) (auto dest!: res_pending)
qed

interpretation server_pending: action_system "exec_server_directive dns" log_pending for dns
proof unfold_locales
  fix s s' a
  assume i: "log_pending s" and e: "exec_server_directive dns a s = Inr s'"
  show "log_pending s'"
  proof (cases a)
    case (S_server_name ns)
    with e have "run_res (\<lambda>(n, t). f_server_name (Heap n) t) ns s = Inr s'" by simp
    with i show ?thesis by (rule name_pending.run_keeps)
  next
    case (S_location t m ds)
    with e obtain s1 where "run_res (exec_location_directive dns) ds s = Inr s1"
      "f_location t m s1 = Inr s'" by (auto simp: res_simps)
    with location_pending.run_keeps [OF i] show ?thesis by (auto dest!: res_pending)
  next
    case (S_listen os)
    with e have "run_res exec_listen_option os s = Inr s'" by simp
    with i show ?thesis by (rule listen_pending.run_keeps)
  next
    case (S_access_log p t)
    with i e show ?thesis by (simp add: f_access_log_def split: if_splits)
  qed (use i e in \<open>auto dest!: res_pending pinv_fcgi simp: fold_pending\<close>)
qed

text \<open>After an \<open>access_log\<close> of the \<open>http\<close> block, a server block with an
  \<open>access_log\<close> of its own is refused: the log that was meant as a default for all servers
  is taken for the server's.\<close>

lemma http_log_excludes_server_log:
  assumes "f_access_log p t s = Inr s1" "S_access_log q u \<in> set ds"
  shows "\<exists>e. exec_http_directive dns (H_server ds) s1 = Inl e"
proof -
  from assms(1) have i: "log_pending s1" by (auto simp: f_access_log_def split: if_splits)
  from assms(2) obtain as bs where ds: "ds = as @ S_access_log q u # bs" by (auto dest: split_list)
  have "run_res (exec_server_directive dns) ds s1 \<noteq> Inr s2" for s2
  proof
    assume "run_res (exec_server_directive dns) ds s1 = Inr s2"
    then obtain s3 s4 where as: "run_res (exec_server_directive dns) as s1 = Inr s3"
      and l: "f_access_log q u s3 = Inr s4"
      by (auto simp: ds run_res_append res_simps)
    from server_pending.run_keeps [OF i as] l show False by (auto simp: f_access_log_def)
  qed
  then show ?thesis
    by (cases "run_res (exec_server_directive dns) ds s1") auto
qed

lemma http_log_excludes_server_log_example:
  "\<exists>s1 e. f_access_log ''/log/a'' 0 (setup_defaults initial_state) = Inr s1 \<and>
     exec_http_directive (\<lambda>h. None) (H_server [S_access_log ''/log/b'' 0]) s1 = Inl e"
proof -
  obtain s1 where "f_access_log ''/log/a'' 0 (setup_defaults initial_state) = Inr s1"
    using setup_defaults_fields(6) [OF ex_fresh(1)] by (simp add: f_access_log_def)
  moreover from http_log_excludes_server_log [OF this, of "''/log/b''" 0
      "[S_access_log ''/log/b'' 0]" "\<lambda>h. None"]
  have "\<exists>e. exec_http_directive (\<lambda>h. None) (H_server [S_access_log ''/log/b'' 0]) s1 = Inl e"
    by (metis list.set_intros(1))
  ultimately show ?thesis by blast
qed

section \<open>Memory that is not the parser's to free\<close>

text \<open>The first directive of a location that is not \<open>root\<close> gives it the default root,
  a literal; a \<open>root\<close> directive after it frees that literal. This holds for a pass to a host
  and for \<open>try_files\<close>.\<close>

lemma root_after_pass_frees_literal:
  assumes "pinv s" "length (p_locations s) = 1"
    "proxyPassToHost dns ty h p s = Inr s1 \<or> f_try_files s = Inr s1"
  shows "f_root r s1 = Inl BadFree"
proof -
  from assms(1,2) obtain d where d: "p_locations s = [d]" "loc_root d = Some default_root"
    by (rule one_location)
  with assms(3) obtain l where "p_locations s1 = [l, d]" "loc_root l = Some default_root"
    by (auto simp: proxyPassToHost_def f_try_files_def Let_def split: option.splits)
  then show ?thesis by (simp add: f_root_def default_root_def)
qed

lemma root_after_pass_frees_literal_example:
  "\<exists>s1. f_try_files (setup_defaults initial_state) = Inr s1 \<and>
     f_root (Heap ''/srv'') s1 = Inl BadFree"
proof -
  have i: "pinv (setup_defaults initial_state)" "length (p_locations (setup_defaults initial_state)) = 1"
    using setup_defaults_pinv [OF ex_fresh(1)] by (simp_all add: pinv_http_def)
  have "\<exists>s1. f_try_files (setup_defaults initial_state) = Inr s1"
    by (simp add: f_try_files_def setup_defaults_fields(1) [OF ex_fresh(1)] Let_def)
  with root_after_pass_frees_literal [OF i] show ?thesis by blast
qed

text \<open>\<open>expires off\<close> hands a literal to \<open>f_expires\<close>, which frees it: the parser
  always stops there with a bad \<open>free\<close>. An \<open>expires\<close> value from the file is freed
  properly and sets the head of the location list, which is the shared default when the block
  has no pending location.\<close>

lemma expires_frees_argument:
  "exec_location_directive dns L_expires_off s = Inl BadFree \<and>
   exec_location_directive dns (L_expires e) s =
     (case p_locations s of
        [] \<Rightarrow> Inr s
      | l # ls \<Rightarrow> bind_res (expires_value e) (\<lambda>v. Inr (s\<lparr>p_locations := l\<lparr>loc_expires := v\<rparr> # ls\<rparr>)))"
proof -
  have "expires_value ''off'' = Inr 0" by code_simp
  then show ?thesis by (simp add: f_expires_def split: list.split)
qed

text \<open>A numeric \<open>fastcgi_param\<close> value overruns its buffer exactly when it is a power of
  ten, and dereferences a null pointer exactly when it is not positive; otherwise the digits fit.\<close>

lemma num_param_overrun:
  "f_fastcgi_num_param name v =
     (if v \<le> 0 then Inl NullDeref
      else if \<exists>k. v = 10 ^ k then Inl OutOfBounds
      else Inr (checkParameter name (fmt_d v)))"
proof (cases "v \<le> 0")
  case False
  then have f: "fmt_d v = show_nat (nat v)" by (simp add: fmt_d_def)
  show ?thesis
  proof (cases "\<exists>k. v = 10 ^ k")
    case True
    then obtain k where v: "nat v = 10 ^ k" by (auto simp: nat_power_eq)
    have "k < length (show_nat (10 ^ k))" by (rule length_show_nat_pow) simp
    then show ?thesis using False True
      by (simp add: f_fastcgi_num_param_def Let_def f v ceil_log10_pow)
  next
    case no: False
    have "\<nexists>k. nat v = 10 ^ k"
    proof
      assume "\<exists>k. nat v = 10 ^ k"
      then obtain k where "int (nat v) = 10 ^ k" by auto
      with False no show False by auto
    qed
    with False have "length (show_nat (nat v)) + 1 \<le> ceil_log10 (nat v) + 1"
      by (intro num_param_fits) auto
    with False no show ?thesis by (simp add: f_fastcgi_num_param_def Let_def f)
  qed
qed (simp add: f_fastcgi_num_param_def)

end
