(* ===== verification/OG_IO.thy ===== *)
theory OG_IO
  imports OG_State
begin

text \<open>
  The setting of the request path: what the handlers ask of the operating system (a record of
  functions), what they do to the outside (a list of actions in order), and the sequencing of
  handlers, which reads and updates the global state, emits actions, and may stop. The actions
  emitted before a stop are kept.
\<close>

section \<open>System and actions\<close>

record file_stat =
  st_isDir :: bool
  st_size :: int

text \<open>
  \<open>os_time opt\<close> is the string \<open>strftime\<close> gives for the format, \<open>None\<close> when \<open>time\<close> or
  \<open>localtime\<close> fails. \<open>os_open p\<close> is the result of \<open>open(p, O_RDONLY)\<close>;
  \<open>os_fsize fd\<close> that of \<open>lseek\<close> to the end. \<open>os_junk_isDir\<close> is what \<open>S_ISDIR\<close> reads
  from a \<open>struct stat\<close> that was never filled in, \<open>os_group_int\<close> the locale's \<open>%'d\<close>. \<open>os_regcomp p\<close> is \<open>None\<close> when the pattern does
  not compile, else the result of \<open>regexec\<close> as a function of the subject. \<open>os_connect\<close> is
  \<open>socket\<close> and \<open>connect\<close> to an address, \<open>None\<close> on failure. \<open>os_recv fd\<close> is what
  successive calls of \<open>recvData\<close> on that socket return, nothing after the last.
\<close>

record os =
  os_time :: "int \<Rightarrow> string option"
  os_peer :: "int \<Rightarrow> string"
  os_stat :: "string \<Rightarrow> file_stat option"
  os_open :: "string \<Rightarrow> int"
  os_fsize :: "int \<Rightarrow> nat"
  os_readdir :: "string \<Rightarrow> string list option"
  os_junk_isDir :: bool
  os_group_int :: "int \<Rightarrow> string"
  os_regcomp :: "string \<Rightarrow> (string \<Rightarrow> int) option"
  os_connect :: "sockaddr_in \<Rightarrow> int option"
  os_recv :: "int \<Rightarrow> string list"

datatype action =
    Send (send_fd: int) (send_ssl: bool) (send_data: string)
  | SendFile int bool int nat
  | WriteLog int string
  | Close int
  | Shutdown int
  | EpollAdd int
  | FreeCtx nat

text \<open>The writes of a run to one descriptor, in order.\<close>

fun sent_to :: "int \<Rightarrow> action list \<Rightarrow> string list" where
  "sent_to fd [] = []"
| "sent_to fd (Send f b d # as) = (if f = fd then d # sent_to fd as else sent_to fd as)"
| "sent_to fd (_ # as) = sent_to fd as"

lemma sent_to_append [simp]: "sent_to fd (as @ bs) = sent_to fd as @ sent_to fd bs"
  by (induction fd as rule: sent_to.induct) auto

lemma sent_to_map [simp]: "sent_to fd (map (Send f b) ds) = (if f = fd then ds else [])"
  by (induction ds) auto

section \<open>Sequencing\<close>

type_synonym 'a io = "gstate \<Rightarrow> action list \<times> ('a \<times> gstate) res"

definition ret_io :: "'a \<Rightarrow> 'a io" where
  "ret_io x g = ([], Inr (x, g))"

definition bind_io :: "'a io \<Rightarrow> ('a \<Rightarrow> 'b io) \<Rightarrow> 'b io" where
  "bind_io m f g =
     (case m g of
        (as, Inl e) \<Rightarrow> (as, Inl e)
      | (as, Inr (x, g')) \<Rightarrow> (case f x g' of (bs, r) \<Rightarrow> (as @ bs, r)))"

definition stop_io :: "stop \<Rightarrow> 'a io" where
  "stop_io e g = ([], Inl e)"

definition lift_res :: "'a res \<Rightarrow> 'a io" where
  "lift_res r g = (case r of Inl e \<Rightarrow> ([], Inl e) | Inr x \<Rightarrow> ([], Inr (x, g)))"

definition emit_io :: "action \<Rightarrow> unit io" where
  "emit_io a g = ([a], Inr ((), g))"

definition get_io :: "gstate io" where
  "get_io g = ([], Inr (g, g))"

definition mod_io :: "(gstate \<Rightarrow> gstate) \<Rightarrow> unit io" where
  "mod_io f g = ([], Inr ((), f g))"

fun each_io :: "('a \<Rightarrow> unit io) \<Rightarrow> 'a list \<Rightarrow> unit io" where
  "each_io f [] = ret_io ()"
| "each_io f (x # xs) = bind_io (f x) (\<lambda>_. each_io f xs)"

text \<open>The actions of a run, and its outcome.\<close>

definition actions_of :: "'a io \<Rightarrow> gstate \<Rightarrow> action list" where
  "actions_of m g = fst (m g)"

definition outcome_of :: "'a io \<Rightarrow> gstate \<Rightarrow> ('a \<times> gstate) res" where
  "outcome_of m g = snd (m g)"

named_theorems io_simps \<open>rewriting of sequenced handlers\<close>

lemma ret_io_run [io_simps]: "ret_io x g = ([], Inr (x, g))" by (simp add: ret_io_def)
lemma stop_io_run [io_simps]: "stop_io e g = ([], Inl e)" by (simp add: stop_io_def)
lemma emit_io_run [io_simps]: "emit_io a g = ([a], Inr ((), g))" by (simp add: emit_io_def)
lemma get_io_run [io_simps]: "get_io g = ([], Inr (g, g))" by (simp add: get_io_def)
lemma mod_io_run [io_simps]: "mod_io f g = ([], Inr ((), f g))" by (simp add: mod_io_def)
lemma lift_Inl [io_simps]: "lift_res (Inl e) g = ([], Inl e)" by (simp add: lift_res_def)
lemma lift_Inr [io_simps]: "lift_res (Inr x) g = ([], Inr (x, g))" by (simp add: lift_res_def)

lemma bind_io_ok: "m g = (as, Inr (x, g')) \<Longrightarrow>
   bind_io m f g = (as @ fst (f x g'), snd (f x g'))"
  by (simp add: bind_io_def split: prod.split)

lemma bind_io_stop: "m g = (as, Inl e) \<Longrightarrow> bind_io m f g = (as, Inl e)"
  by (simp add: bind_io_def)

lemma bind_ret [io_simps]: "bind_io (ret_io x) f g = f x g"
  by (simp add: bind_io_def ret_io_def)

lemma bind_get [io_simps]: "bind_io get_io f g = f g g"
  by (simp add: bind_io_def get_io_def)

lemma bind_mod [io_simps]: "bind_io (mod_io h) f g = f () (h g)"
  by (simp add: bind_io_def mod_io_def)

lemma bind_emit [io_simps]: "bind_io (emit_io a) f g = (a # fst (f () g), snd (f () g))"
  by (simp add: bind_io_def emit_io_def split: prod.split)

lemma bind_lift_Inr [io_simps]: "bind_io (lift_res (Inr x)) f g = f x g"
  by (simp add: bind_io_def lift_res_def)

lemma bind_lift_Inl [io_simps]: "bind_io (lift_res (Inl e)) f g = ([], Inl e)"
  by (simp add: bind_io_def lift_res_def)

lemma bind_stop [io_simps]: "bind_io (stop_io e) f g = ([], Inl e)"
  by (simp add: bind_io_def stop_io_def)

lemma bind_io_assoc: "bind_io (bind_io m f) h = bind_io m (\<lambda>x. bind_io (f x) h)"
  by (rule ext) (simp add: bind_io_def split: prod.split sum.split)

lemma bind_io_InrE:
  assumes "bind_io m f g = (as, Inr (y, g2))"
  obtains bs x g1 cs where "m g = (bs, Inr (x, g1))" "f x g1 = (cs, Inr (y, g2))" "as = bs @ cs"
  using assms by (auto simp: bind_io_def split: prod.splits sum.splits)

section \<open>Handlers that leave the global state alone\<close>

text \<open>
  Most handlers only read the global state. \<open>reads_only m\<close> says so, and sequencing keeps it.
\<close>

definition reads_only :: "'a io \<Rightarrow> bool" where
  "reads_only m = (\<forall>g as x g'. m g = (as, Inr (x, g')) \<longrightarrow> g' = g)"

named_theorems ro_intros \<open>handlers that only read the global state\<close>

lemma reads_onlyD: "reads_only m \<Longrightarrow> m g = (as, Inr (x, g')) \<Longrightarrow> g' = g"
  by (auto simp: reads_only_def)

lemma ro_basic [ro_intros]:
  "reads_only (ret_io x)" "reads_only (stop_io e)" "reads_only (emit_io a)"
  "reads_only get_io" "reads_only (lift_res r)"
  by (auto simp: reads_only_def io_simps lift_res_def split: sum.splits)

lemma ro_bind [ro_intros]:
  assumes "reads_only m" "\<And>x. reads_only (f x)" shows "reads_only (bind_io m f)"
  unfolding reads_only_def
proof (intro allI impI)
  fix g as y g2
  assume "bind_io m f g = (as, Inr (y, g2))"
  then obtain bs x g1 cs where "m g = (bs, Inr (x, g1))" "f x g1 = (cs, Inr (y, g2))"
    by (rule bind_io_InrE)
  with assms show "g2 = g" by (blast dest: reads_onlyD)
qed

lemma ro_if [ro_intros]: "reads_only m \<Longrightarrow> reads_only n \<Longrightarrow> reads_only (if b then m else n)"
  by simp

lemma ro_option [ro_intros]:
  "reads_only m \<Longrightarrow> (\<And>x. reads_only (f x)) \<Longrightarrow>
   reads_only (case p of None \<Rightarrow> m | Some x \<Rightarrow> f x)"
  by (cases p) auto

lemma ro_each [ro_intros]: "(\<And>x. reads_only (f x)) \<Longrightarrow> reads_only (each_io f xs)"
  by (induction xs) (auto intro: ro_intros)

end
