(* ===== verification/OG_Request.thy ===== *)
theory OG_Request
  imports OG_IO
begin

text \<open>
  From the bytes of a request to a location: the parsing part of \<^verbatim>\<open>processInput.c\<close>, the
  choice of the server by host name (\<open>hasPort\<close>, \<open>getServerForHost\<close>), and that of the
  location by path (\<^verbatim>\<open>getDocRoot.c\<close>). The parser runs on the zero-filled input buffer with
  a cursor; a reference parser on the request as a string gives its meaning.
\<close>

section \<open>The request line and the host\<close>

definition input_buffer :: "string \<Rightarrow> char list" where
  "input_buffer received = received @ replicate (BUFF_SIZE - length received) NUL"

text \<open>
  \<open>while (*p++) if (strncmp(p, "Host: ", 6) == 0) break;\<close>: the cursor at the match, or
  behind the NUL that ends the input.
\<close>

fun find_host :: "char list \<Rightarrow> char list res" where
  "find_host [] = Inl OutOfBounds"
| "find_host (c # q) =
     (if c = NUL then Inr q
      else bind_res (strncmp_buf q ''Host: '') (\<lambda>b. if b then Inr q else find_host q))"

record parsed =
  pr_verb :: string
  pr_path :: string
  pr_protocol :: string
  pr_host :: string

text \<open>\<open>None\<close> is the case of no blank at all; a missing later delimiter is followed as a null
  pointer.\<close>

definition parse_request :: "char list \<Rightarrow> parsed option res" where
  "parse_request buf =
     bind_res (cut_at (CHR '' '') buf) (\<lambda>r.
     case r of
       None \<Rightarrow> Inr None
     | Some (verb, q1) \<Rightarrow>
         bind_res (bind_res (cut_at (CHR '' '') q1) deref) (\<lambda>(path, q2).
         bind_res (bind_res (cut_at CR q2) deref) (\<lambda>(proto, q3).
         bind_res (find_host q3) (\<lambda>p.
         bind_res (bind_res (cut_at CR (drop 6 p)) deref) (\<lambda>(host, q4).
         Inr (Some \<lparr>pr_verb = verb, pr_path = path, pr_protocol = proto, pr_host = host\<rparr>))))))"

text \<open>The path is cut at its first question mark; an empty query string is none.\<close>

definition split_query :: "string \<Rightarrow> string \<times> string option" where
  "split_query path =
     (case cut_char (CHR ''?'') path of
        None \<Rightarrow> (path, None)
      | Some (p, q) \<Rightarrow> (p, if length q > 0 then Some q else None))"

section \<open>The server\<close>

definition hasPort :: "int \<Rightarrow> server \<Rightarrow> bool" where
  "hasPort portNum srv = list_ex (\<lambda>p. port_num p = portNum) (srv_ports srv)"

fun find_server :: "string \<Rightarrow> int \<Rightarrow> server list \<Rightarrow> server option" where
  "find_server host portNum [] = None"
| "find_server host portNum (s # ss) =
     (if list_ex (\<lambda>sn. length host = length (sn_name sn) \<and> host = sn_name sn \<and> hasPort portNum s)
           (srv_names s)
      then Some s else find_server host portNum ss)"

definition getServerForHost :: "string \<Rightarrow> gstate \<Rightarrow> server option res" where
  "getServerForHost host g =
     (case getServerList g of
        [] \<Rightarrow> Inl NullDeref
      | s # _ \<Rightarrow>
          (case srv_ports s of
             [] \<Rightarrow> Inl NullDeref
           | p # _ \<Rightarrow>
               let (name, portNum) =
                     (case cut_char (CHR '':'') host of
                        None \<Rightarrow> (host, port_num p)
                      | Some (n, r) \<Rightarrow> (n, atoi r))
               in Inr (case find_server name portNum (getServerList g) of
                    Some s' \<Rightarrow> Some s'
                  | None \<Rightarrow> if \<not> isDefaultServer g then None else Some s)))"

section \<open>The location\<close>

definition regexMatch :: "os \<Rightarrow> string \<Rightarrow> string \<Rightarrow> bool" where
  "regexMatch os pattern subject =
     (case os_regcomp os pattern of None \<Rightarrow> False | Some exec \<Rightarrow> exec subject = 0)"

fun find_location :: "os \<Rightarrow> string \<Rightarrow> location list \<Rightarrow> location option" where
  "find_location os path [] = None"
| "find_location os path (l # ls) =
     (if loc_matchType l = REGEX_MATCH \<and> regexMatch os (loc_match l) path then Some l
      else if loc_matchType l = PREFIX_MATCH \<and> strncmp0 (length (loc_match l)) path (loc_match l)
      then Some l
      else if loc_matchType l = EQUAL_MATCH \<and> length path = length (loc_match l) \<and>
              path = loc_match l
      then Some l
      else find_location os path ls)"

definition getDocRoot :: "os \<Rightarrow> server \<Rightarrow> string \<Rightarrow> location option" where
  "getDocRoot os srv path = find_location os path (srv_locations srv)"

section \<open>The parser as a function of the request text\<close>

definition reference_parse :: "string \<Rightarrow> parsed option res" where
  "reference_parse t =
     (case cut_char (CHR '' '') t of
        None \<Rightarrow> Inr None
      | Some (verb, q1) \<Rightarrow>
          bind_res (deref (cut_char (CHR '' '') q1)) (\<lambda>(path, q2).
          bind_res (deref (cut_char CR q2)) (\<lambda>(proto, q3).
          bind_res (deref (strstr (tl q3) ''Host: '')) (\<lambda>h.
          bind_res (deref (cut_char CR (drop 6 h))) (\<lambda>(host, q4).
          Inr (Some \<lparr>pr_verb = verb, pr_path = path, pr_protocol = proto, pr_host = host\<rparr>))))))"

lemma cut_at_cut_char:
  assumes "NUL \<notin> set t" "c \<noteq> NUL"
  shows "cut_at c (t @ NUL # z) =
     Inr (case cut_char c t of None \<Rightarrow> None | Some (a, b) \<Rightarrow> Some (a, b @ NUL # z))"
  using assms by (induction t) (auto split: option.splits)

lemma cut_char_NUL: "cut_char c t = Some (a, b) \<Longrightarrow> NUL \<notin> set t \<Longrightarrow> NUL \<notin> set b"
  by (auto simp: cut_char_Some)

lemma strstr_NUL: "strstr t s = Some r \<Longrightarrow> NUL \<notin> set t \<Longrightarrow> NUL \<notin> set r"
  using strstr_append by fastforce

lemma strstr_hit: "prefix s t \<Longrightarrow> s \<noteq> [] \<Longrightarrow> strstr t s = Some t"
  by (cases t) auto

lemma strstr_tl: "\<not> prefix s t \<Longrightarrow> s \<noteq> [] \<Longrightarrow> strstr (tl t) s = strstr t s"
  by (cases t) auto

lemma find_host_strstr:
  assumes "NUL \<notin> set t"
  shows "find_host (t @ NUL # z) =
     Inr (case strstr (tl t) ''Host: '' of None \<Rightarrow> z | Some h \<Rightarrow> h @ NUL # z)"
  using assms
proof (induction t)
  case (Cons c t)
  then have c: "c \<noteq> NUL" "NUL \<notin> set t" by auto
  have n: "NUL \<notin> set ''Host: ''" by simp
  have s: "strncmp_buf (t @ NUL # z) ''Host: '' = Inr (prefix ''Host: '' t)"
    by (rule strncmp_buf_term [OF n])
  show ?case
  proof (cases "prefix ''Host: '' t")
    case True
    then have "strstr t ''Host: '' = Some t" by (rule strstr_hit) simp
    with True s c show ?thesis by (simp del: strstr.simps)
  next
    case False
    then have "strstr (tl t) ''Host: '' = strstr t ''Host: ''" by (rule strstr_tl) simp
    with False s c Cons.IH show ?thesis by (simp del: strstr.simps)
  qed
qed simp

lemma parse_request_eq:
  assumes "NUL \<notin> set t" "length t + 8 \<le> BUFF_SIZE"
  shows "parse_request (input_buffer t) = reference_parse t"
proof -
  define k where "k = BUFF_SIZE - length t - 1"
  let ?z = "replicate k NUL"
  have buf: "input_buffer t = t @ NUL # ?z"
    using assms(2) by (simp add: input_buffer_def k_def replicate_Suc [symmetric] Suc_diff_le
        del: replicate_Suc)
  have k: "7 \<le> k" using assms(2) by (simp add: k_def)
  have empty: "cut_at CR (replicate (k - 6) NUL) = Inr None"
  proof -
    from k have "k - 6 = Suc (k - 7)" by arith
    then show ?thesis by simp
  qed
  show ?thesis
  proof (cases "cut_char (CHR '' '') t")
    case None
    then show ?thesis
      by (simp add: parse_request_def reference_parse_def buf cut_at_cut_char [OF assms(1)])
  next
    case (Some vq)
    obtain verb q1 where v: "vq = (verb, q1)" by (cases vq)
    with Some have n1: "NUL \<notin> set q1" using cut_char_NUL assms(1) by blast
    show ?thesis
    proof (cases "cut_char (CHR '' '') q1")
      case None
      with Some v show ?thesis
        by (simp add: parse_request_def reference_parse_def buf cut_at_cut_char [OF assms(1)]
            cut_at_cut_char [OF n1])
    next
      case (Some pq)
      obtain path q2 where p: "pq = (path, q2)" by (cases pq)
      with Some have n2: "NUL \<notin> set q2" using cut_char_NUL n1 by blast
      note a = \<open>cut_char (CHR '' '') t = Some vq\<close> [unfolded v]
      note b = Some [unfolded p]
      show ?thesis
      proof (cases "cut_char CR q2")
        case None
        with a b show ?thesis
          by (simp add: parse_request_def reference_parse_def buf cut_at_cut_char [OF assms(1)]
              cut_at_cut_char [OF n1] cut_at_cut_char [OF n2])
      next
        case (Some rq)
        obtain proto q3 where r: "rq = (proto, q3)" by (cases rq)
        with Some have n3: "NUL \<notin> set q3" using cut_char_NUL n2 by blast
        note c = Some [unfolded r]
        show ?thesis
        proof (cases "strstr (tl q3) ''Host: ''")
          case None
          with a b c show ?thesis
            by (simp add: parse_request_def reference_parse_def buf cut_at_cut_char [OF assms(1)]
                cut_at_cut_char [OF n1] cut_at_cut_char [OF n2] find_host_strstr [OF n3] empty)
        next
          case (Some h)
          have "NUL \<notin> set (tl q3)" using n3 by (cases q3) auto
          with Some have nh: "NUL \<notin> set h" using strstr_NUL by blast
          from strstr_append [OF Some] have "length ''Host: '' \<le> length h"
            by (blast dest: prefix_length_le)
          then have six: "6 \<le> length h" by simp
          have nd: "NUL \<notin> set (drop 6 h)" using nh by (meson in_set_dropD)
          from a b c Some show ?thesis
            by (simp add: parse_request_def reference_parse_def buf cut_at_cut_char [OF assms(1)]
                cut_at_cut_char [OF n1] cut_at_cut_char [OF n2] find_host_strstr [OF n3] six
                cut_at_cut_char [OF nd] split: option.splits)
        qed
      qed
    qed
  qed
qed

text \<open>C21: On any request without NUL bytes that leaves eight bytes of the buffer free, the cursor
  parser computes the reference parser: verb and path end at the first two blanks, the protocol
  at the carriage return, and the host is the text after the first \<open>Host: \<close> anywhere behind
  the request line, inside another header included. Where a delimiter or the host is missing it
  follows a null pointer, except for the first blank.\<close>

theorem parse_request_reference:
  assumes "NUL \<notin> set t" "length t + 8 \<le> BUFF_SIZE"
  shows "parse_request (input_buffer t) = reference_parse t"
  using assms by (rule parse_request_eq)

text \<open>A request as a client writes it: the request line, header lines, the host line, the rest.\<close>

definition render_request :: "parsed \<Rightarrow> string \<Rightarrow> string \<Rightarrow> string" where
  "render_request r pre post =
     pr_verb r @ '' '' @ pr_path r @ '' '' @ pr_protocol r @ crlf @ pre @
     ''Host: '' @ pr_host r @ crlf @ post"

text \<open>C3: Rendering a request and parsing it gives back its verb, path, protocol and host, when
  no part contains its delimiter, the headers before the host line do not contain \<open>Host: \<close>,
  and the whole fits the buffer.\<close>

theorem parse_render_roundtrip:
  assumes "CHR '' '' \<notin> set (pr_verb r)" "CHR '' '' \<notin> set (pr_path r)" "CR \<notin> set (pr_protocol r)"
    "CR \<notin> set (pr_host r)" "NUL \<notin> set (render_request r pre post)"
    "strstr (pre @ ''Host: '' @ pr_host r @ crlf @ post) ''Host: '' =
       Some (''Host: '' @ pr_host r @ crlf @ post)"
    "length (render_request r pre post) + 8 \<le> BUFF_SIZE"
  shows "parse_request (input_buffer (render_request r pre post)) = Inr (Some r)"
proof -
  let ?h = "pre @ ''Host: '' @ pr_host r @ crlf @ post"
  have s: "cut_char (CHR '' '') (render_request r pre post) =
      Some (pr_verb r, pr_path r @ CHR '' '' # pr_protocol r @ CR # LF # ?h)"
    using cut_char_append [OF assms(1)] by (simp add: render_request_def crlf_def)
  have p: "cut_char (CHR '' '') (pr_path r @ CHR '' '' # pr_protocol r @ CR # LF # ?h) =
      Some (pr_path r, pr_protocol r @ CR # LF # ?h)"
    by (rule cut_char_append [OF assms(2)])
  have v: "cut_char CR (pr_protocol r @ CR # LF # ?h) = Some (pr_protocol r, LF # ?h)"
    by (rule cut_char_append [OF assms(3)])
  have d: "drop 6 (''Host: '' @ xs) = xs" for xs :: string by simp
  have h: "cut_char CR (pr_host r @ crlf @ post) = Some (pr_host r, LF # post)"
    using cut_char_append [OF assms(4)] by (simp add: crlf_def)
  have "reference_parse (render_request r pre post) = Inr (Some r)"
    unfolding reference_parse_def s by (simp only: option.case prod.case deref_simps bind_res_Inr p
        v list.sel assms(6) d h) simp
  then show ?thesis by (simp only: parse_request_eq [OF assms(5,7)])
qed

section \<open>Concrete requests\<close>

definition ex_request :: parsed where
  "ex_request = \<lparr>pr_verb = ''GET'', pr_path = ''/a?b=c'', pr_protocol = ''HTTP/1.1'',
     pr_host = ''a.org:80''\<rparr>"

lemma parse_render_roundtrip_witness:
  "parse_request (input_buffer (render_request ex_request (''Accept: *'' @ crlf) crlf)) =
     Inr (Some ex_request)"
proof (rule parse_render_roundtrip)
  show "strstr ((''Accept: *'' @ crlf) @ ''Host: '' @ pr_host ex_request @ crlf @ crlf) ''Host: '' =
       Some (''Host: '' @ pr_host ex_request @ crlf @ crlf)"
    by code_simp
qed (simp_all add: ex_request_def render_request_def crlf_def BUFF_SIZE_def)

definition ex_forwarded :: string where
  "ex_forwarded = ''GET / HTTP/1.1'' @ crlf @ ''X-Forwarded-Host: evil.org'' @ crlf @
     ''Host: a.org'' @ crlf @ crlf"

lemma parse_request_reference_witness:
  "parse_request (input_buffer ex_forwarded) =
     Inr (Some \<lparr>pr_verb = ''GET'', pr_path = ''/'', pr_protocol = ''HTTP/1.1'', pr_host = ''evil.org''\<rparr>)"
proof -
  have "reference_parse ex_forwarded =
     Inr (Some \<lparr>pr_verb = ''GET'', pr_path = ''/'', pr_protocol = ''HTTP/1.1'', pr_host = ''evil.org''\<rparr>)"
    by code_simp
  moreover have "NUL \<notin> set ex_forwarded" "length ex_forwarded + 8 \<le> BUFF_SIZE"
    by (simp_all add: ex_forwarded_def crlf_def BUFF_SIZE_def)
  ultimately show ?thesis using parse_request_reference by simp
qed

section \<open>Which server and which location\<close>

definition serves :: "string \<Rightarrow> int \<Rightarrow> server \<Rightarrow> bool" where
  "serves name n s = (name \<in> sn_name ` set (srv_names s) \<and> n \<in> port_num ` set (srv_ports s))"

lemma hasPort_iff: "hasPort n s \<longleftrightarrow> n \<in> port_num ` set (srv_ports s)"
  by (auto simp: hasPort_def list_ex_iff)

lemma find_server_find: "find_server name n ss = find (serves name n) ss"
  by (induction ss) (auto simp: serves_def list_ex_iff hasPort_iff)

text \<open>The name and the port that a host header stands for, given the port of the first server.\<close>

definition names_host :: "string \<Rightarrow> int \<Rightarrow> int \<Rightarrow> string \<Rightarrow> bool" where
  "names_host name n dflt host = (host = name \<and> n = dflt \<or> host = name @ '':'' @ fmt_d n)"

lemma getServerForHost_find:
  assumes "g_servers g = s0 # rest" "srv_ports s0 = p # ps" "CHR '':'' \<notin> set name"
    "0 \<le> n" "n < 2 ^ 31" "names_host name n (port_num p) host"
  shows "getServerForHost host g =
     Inr (case find (serves name n) (s0 # rest) of
            Some s \<Rightarrow> Some s | None \<Rightarrow> if g_defaultServer g then Some s0 else None)"
proof -
  have c: "cut_char (CHR '':'') (name @ '':'' @ fmt_d n) = Some (name, fmt_d n)"
    using cut_char_append [OF assms(3)] by simp
  have a: "atoi (fmt_d n) = n" using atoi_fmt_d [OF assms(4,5), of "[]"] by simp
  have e: "cut_char (CHR '':'') name = None" using assms(3) by (simp add: cstr_simps)
  have "(case cut_char (CHR '':'') host of None \<Rightarrow> (host, port_num p) | Some (m, r) \<Rightarrow> (m, atoi r)) =
      (name, n)"
    using assms(6) by (auto simp: names_host_def c a e simp del: append.simps)
  then show ?thesis
    by (simp add: getServerForHost_def assms(1,2) find_server_find del: find.simps split: option.split)
qed

text \<open>C7: A request for host \<open>name:port\<close> goes to the first server of the list that has the
  name and listens on the port; without a port the first server's first port is meant. When no
  server fits, the first server of the list gets the request, unless the default server is
  switched off.\<close>

theorem server_for_host:
  assumes "g_servers g = s0 # rest" "srv_ports s0 = p # ps" "CHR '':'' \<notin> set name"
    "0 \<le> n" "n < 2 ^ 31" "names_host name n (port_num p) host"
  shows "getServerForHost host g =
     Inr (case find (serves name n) (s0 # rest) of
            Some s \<Rightarrow> Some s | None \<Rightarrow> if g_defaultServer g then Some s0 else None)"
  using assms by (rule getServerForHost_find)

definition ex_server :: "string \<Rightarrow> int \<Rightarrow> server" where
  "ex_server name n = empty_server\<lparr>srv_names := [\<lparr>sn_name = name, sn_type = 0\<rparr>],
     srv_ports := [\<lparr>port_num = n, port_tls = False\<rparr>], srv_indexFiles := [''index.html''],
     srv_accessLog := Some 0, srv_errorLog := Some 0\<rparr>"

lemma server_for_host_witness:
  "getServerForHost ''b.org:8080'' (initial_state\<lparr>g_servers := [ex_server ''a.org'' 80, ex_server ''b.org'' 8080]\<rparr>) =
     Inr (Some (ex_server ''b.org'' 8080))"
proof -
  let ?g = "initial_state\<lparr>g_servers := [ex_server ''a.org'' 80, ex_server ''b.org'' 8080]\<rparr>"
  have n: "names_host ''b.org'' 8080 (port_num p) ''b.org:8080''" for p :: port
    by (simp add: names_host_def fmt_d_def show_nat.simps digit_char_def)
  have "getServerForHost ''b.org:8080'' ?g =
     Inr (case find (serves ''b.org'' 8080) [ex_server ''a.org'' 80, ex_server ''b.org'' 8080] of
            Some s \<Rightarrow> Some s | None \<Rightarrow> if g_defaultServer ?g then Some (ex_server ''a.org'' 80) else None)"
    by (intro server_for_host [OF _ _ _ _ _ n]) (simp_all add: ex_server_def)
  moreover have "serves ''b.org'' 8080 (ex_server ''b.org'' 8080)"
    "\<not> serves ''b.org'' 8080 (ex_server ''a.org'' 80)" by code_simp+
  ultimately show ?thesis by simp
qed

definition matches :: "os \<Rightarrow> string \<Rightarrow> location \<Rightarrow> bool" where
  "matches os path l =
     (loc_matchType l = REGEX_MATCH \<and> regexMatch os (loc_match l) path \<or>
      loc_matchType l = PREFIX_MATCH \<and> prefix (loc_match l) path \<or>
      loc_matchType l = EQUAL_MATCH \<and> path = loc_match l)"


end
