(* ===== verification/OG_Response.thy ===== *)
theory OG_Response
  imports OG_IO
begin

text \<open>
  What the server sends and logs: \<^verbatim>\<open>getTimestamp.c\<close>, the two logs of \<^verbatim>\<open>log.c\<close>,
  \<^verbatim>\<open>sendErrorResponse.c\<close>, \<open>serveFile\<close> and \<open>getMimeType\<close> of
  \<^verbatim>\<open>handleGetVerb.c\<close>, \<open>sendFile\<close> of \<^verbatim>\<open>socket.c\<close>, and
  \<^verbatim>\<open>showDirectoryListing.c\<close>.
\<close>

section \<open>Time stamps and formats\<close>

definition RESPONSE_FORMAT :: int where "RESPONSE_FORMAT = 0"
definition LOG_FILE_FORMAT :: int where "LOG_FILE_FORMAT = 1"
definition LOG_RECORD_FORMAT :: int where "LOG_RECORD_FORMAT = 2"

lemmas format_defs = RESPONSE_FORMAT_def LOG_FILE_FORMAT_def LOG_RECORD_FORMAT_def

text \<open>
  When \<open>time\<close> or \<open>localtime\<close> fails the buffer stays uninitialised and the caller
  prints it.
\<close>

definition getTimestamp :: "os \<Rightarrow> int \<Rightarrow> string res" where
  "getTimestamp os opt =
     (case os_time os opt of
        None \<Rightarrow> Inl OutOfBounds
      | Some ts \<Rightarrow>
          if opt = RESPONSE_FORMAT \<or> opt = LOG_FILE_FORMAT \<or> opt = LOG_RECORD_FORMAT
          then Inr ts else Inl (Exit 1))"

text \<open>\<open>%s\<close> of a pointer that may be null.\<close>

definition fmt_s :: "string option \<Rightarrow> string" where
  "fmt_s p = (case p of None \<Rightarrow> ''(null)'' | Some s \<Rightarrow> s)"

lemma fmt_s_Some [simp]: "fmt_s (Some s) = s" by (simp add: fmt_s_def)

text \<open>\<open>snprintf\<close> into a buffer of \<open>n\<close> bytes, then \<open>sendData\<close> or \<open>write\<close> of its result.\<close>

definition send_buf :: "request \<Rightarrow> nat \<Rightarrow> string \<Rightarrow> unit io" where
  "send_buf req n s =
     bind_io (lift_res (emit_snprintf n s)) (\<lambda>d. emit_io (Send (req_clientFd req) (req_ssl req) d))"

definition send_str :: "request \<Rightarrow> string \<Rightarrow> unit io" where
  "send_str req s = emit_io (Send (req_clientFd req) (req_ssl req) s)"

section \<open>Logs\<close>

definition log_fd :: "log_file list \<Rightarrow> nat option \<Rightarrow> int res" where
  "log_fd ls p =
     (case p of None \<Rightarrow> Inl NullDeref
      | Some i \<Rightarrow> if lf_freed (ls ! i) then Inl UseAfterFree else Inr (lf_fd (ls ! i)))"

definition first_name :: "server \<Rightarrow> string res" where
  "first_name s = (case srv_names s of [] \<Rightarrow> Inl NullDeref | n # _ \<Rightarrow> Inr (sn_name n))"

definition log_line :: "string \<Rightarrow> string \<Rightarrow> string option \<Rightarrow> int \<Rightarrow> string \<Rightarrow> string option \<Rightarrow> string \<Rightarrow> string" where
  "log_line ts peerIp verb httpCode name path lst =
     ts @ '' '' @ peerIp @ '' '' @ fmt_s verb @ '' '' @ fmt_d httpCode @ '' '' @
     name @ '' '' @ fmt_s path @ '' '' @ lst @ [LF]"

definition accessLog :: "os \<Rightarrow> int \<Rightarrow> server option \<Rightarrow> string option \<Rightarrow> int \<Rightarrow> string option \<Rightarrow> int \<Rightarrow> unit io" where
  "accessLog os clientFd srv verb httpCode path sz =
     bind_io (lift_res (getTimestamp os LOG_RECORD_FORMAT)) (\<lambda>ts.
     bind_io (lift_res (deref srv)) (\<lambda>s.
     bind_io (lift_res (first_name s)) (\<lambda>name.
     bind_io get_io (\<lambda>g.
     bind_io (lift_res (log_fd (g_accessLog g) (srv_accessLog s))) (\<lambda>fd.
     bind_io (lift_res (emit_snprintf BUFF_SIZE
       (log_line ts (os_peer os clientFd) verb httpCode name path (fmt_d sz)))) (\<lambda>d.
     emit_io (WriteLog fd d)))))))"

definition errorLog :: "os \<Rightarrow> int \<Rightarrow> server option \<Rightarrow> string option \<Rightarrow> int \<Rightarrow> string option \<Rightarrow> string \<Rightarrow> unit io" where
  "errorLog os clientFd srv verb httpCode path msg =
     bind_io (lift_res (getTimestamp os LOG_RECORD_FORMAT)) (\<lambda>ts.
     bind_io (lift_res (deref srv)) (\<lambda>s.
     bind_io (lift_res (first_name s)) (\<lambda>name.
     bind_io get_io (\<lambda>g.
     bind_io (lift_res (log_fd (g_errorLog g) (srv_errorLog s))) (\<lambda>fd.
     bind_io (lift_res (emit_snprintf BUFF_SIZE
       (log_line ts (os_peer os clientFd) verb httpCode name path msg))) (\<lambda>d.
     emit_io (WriteLog fd d)))))))"

section \<open>Error responses\<close>

definition error_body :: "int \<Rightarrow> string \<Rightarrow> string" where
  "error_body code msg =
     ''<html>'' @ crlf @ ''<head><title>'' @ fmt_d code @ '' '' @ msg @ ''</title></head>'' @ crlf @
     ''<center><h1>'' @ fmt_d code @ '' '' @ msg @ ''</h1></center>'' @ crlf @
     ''</body>'' @ crlf @ ''</html>'' @ crlf"

definition error_headers :: "string \<Rightarrow> string \<Rightarrow> int \<Rightarrow> string \<Rightarrow> string" where
  "error_headers version ts code msg =
     ''HTTP/1.1 '' @ fmt_d code @ '' '' @ msg @ crlf @
     ''Server: ogws/'' @ version @ crlf @
     ''Date: '' @ ts @ crlf @
     ''Content-Type: text/html'' @ crlf"

definition content_length :: "int \<Rightarrow> string" where
  "content_length n = ''Content-Length: '' @ fmt_d n @ crlf @ crlf"

definition sendErrorResponse :: "os \<Rightarrow> request \<Rightarrow> int \<Rightarrow> string \<Rightarrow> string option \<Rightarrow> unit io" where
  "sendErrorResponse os req code msg path =
     bind_io (lift_res (getTimestamp os RESPONSE_FORMAT)) (\<lambda>ts.
     bind_io get_io (\<lambda>g.
     let body = error_body code msg in
     bind_io (send_buf req BUFF_SIZE (error_headers (fmt_s (getVersion g)) ts code msg)) (\<lambda>_.
     bind_io (send_buf req 64 (content_length (int (length body)))) (\<lambda>_.
     bind_io (send_buf req BUFF_SIZE body) (\<lambda>_.
     errorLog os (req_clientFd req) (req_server req) (req_verb req) code path msg)))))"

section \<open>Files\<close>

text \<open>\<open>strcpy\<close> into a buffer of \<open>n\<close> bytes.\<close>

definition copy_into :: "nat \<Rightarrow> string \<Rightarrow> string res" where
  "copy_into n s = (if length s < n then Inr s else Inl OutOfBounds)"

fun find_mime :: "string \<Rightarrow> mime_type list \<Rightarrow> string option" where
  "find_mime ext [] = None"
| "find_mime ext (m # ms) = (if ext = mt_extension m then Some (mt_mimeType m) else find_mime ext ms)"

definition getMimeType :: "gstate \<Rightarrow> string \<Rightarrow> string res" where
  "getMimeType g name =
     bind_res (deref (getDefaultType g)) (\<lambda>dt.
     bind_res (copy_into 256 dt) (\<lambda>dflt.
     case strrchr name (CHR ''.'') of
       None \<Rightarrow> Inr dflt
     | Some p \<Rightarrow> (case find_mime (tl p) (getMimeTypeList g) of
         None \<Rightarrow> Inr dflt
       | Some mt \<Rightarrow> copy_into 256 mt)))"

definition sendFile :: "request \<Rightarrow> nat \<Rightarrow> unit io" where
  "sendFile req sz = emit_io (SendFile (req_clientFd req) (req_ssl req) (req_localFd req) sz)"

definition file_headers :: "string \<Rightarrow> string \<Rightarrow> string \<Rightarrow> int \<Rightarrow> string" where
  "file_headers version ts mimeType sz =
     ''HTTP/1.1 '' @ fmt_d 200 @ '' OK'' @ crlf @
     ''Server: ogws/'' @ version @ crlf @
     ''Date: '' @ ts @ crlf @
     ''Content-Type: '' @ mimeType @ crlf @
     ''Content-Length: '' @ fmt_d sz @ crlf @ crlf"

text \<open>The size is a \<open>size_t\<close>, printed with \<open>%d\<close> and passed to the log as an \<open>int\<close>.\<close>

definition serveFile :: "os \<Rightarrow> request \<Rightarrow> unit io" where
  "serveFile os req =
     bind_io get_io (\<lambda>g.
     bind_io (lift_res (deref (req_fullPath req))) (\<lambda>fullPath.
     bind_io (lift_res (getMimeType g fullPath)) (\<lambda>mimeType.
     let sz = os_fsize os (req_localFd req) in
     bind_io (lift_res (getTimestamp os RESPONSE_FORMAT)) (\<lambda>ts.
     bind_io (send_buf req BUFF_SIZE
       (file_headers (fmt_s (getVersion g)) ts mimeType (to_int32 (int sz)))) (\<lambda>_.
     bind_io (lift_res (deref (req_verb req))) (\<lambda>verb.
     bind_io
       (if verb = ''GET'' then
          bind_io (sendFile req sz) (\<lambda>_.
          accessLog os (req_clientFd req) (req_server req) (Some ''GET'') 200 (req_path req)
            (to_int32 (int sz)))
        else
          accessLog os (req_clientFd req) (req_server req) (Some ''HEAD'') 200 (req_path req)
            (to_int32 (int sz)))
       (\<lambda>_. emit_io (Close (req_localFd req)))))))))"

section \<open>Directory listings\<close>

definition listing_header :: string where
  "listing_header =
     ''<html><head><title>Directory Listing</title><style type=\"text/css\">body {font-family: system-ui;}'' @
     ''.sz {font-size: 10px;}</style></head><body><h1>Directory Listing</h1><ul>''"

definition listing_footer :: string where
  "listing_footer = ''</ul></body></html>''"

definition fragment_text :: "os \<Rightarrow> string \<Rightarrow> string \<Rightarrow> string \<Rightarrow> string" where
  "fragment_text os dirPath path fileName =
     (let st = os_stat os (dirPath @ ''/'' @ fileName);
          isDir = (case st of None \<Rightarrow> os_junk_isDir os | Some sb \<Rightarrow> st_isDir sb);
          fileSize = (case st of None \<Rightarrow> 0 | Some sb \<Rightarrow> to_int32 (st_size sb));
          link = ''<li><a href=\"'' @ path @ ''/'' @ fileName @ ''\">'' @ fileName @ ''</a>''
      in if isDir then link @ '' Directory</li>''
         else link @ ''<span  class=\"sz\"> - '' @ os_group_int os fileSize @ '' Bytes</span></li>'')"

text \<open>
  The path is built in a buffer of \<open>BUFF_SIZE\<close> bytes; the fragment's text is what
  \<open>snprintf\<close> leaves in that buffer, its length the untruncated one.
\<close>

definition addFragment :: "os \<Rightarrow> string \<Rightarrow> string \<Rightarrow> string \<Rightarrow> unit io" where
  "addFragment os dirPath path fileName =
     (if fileName = ''.'' then ret_io ()
      else if length dirPath + 1 + length fileName \<ge> BUFF_SIZE then stop_io OutOfBounds
      else let t = fragment_text os dirPath path fileName in
        mod_io (\<lambda>g. g\<lparr>g_fragments := chain_append (g_fragments g)
          \<lparr>fr_len = length t, fr_text = take (BUFF_SIZE - 1) t\<rparr>\<rparr>))"

text \<open>A fragment shorter than its length is sent with what lies behind it in memory.\<close>

definition send_fragment :: "request \<Rightarrow> fragment \<Rightarrow> unit io" where
  "send_fragment req f =
     (if length (fr_text f) < fr_len f then stop_io OutOfBounds else send_str req (fr_text f))"

definition listing_headers :: "string \<Rightarrow> int \<Rightarrow> string" where
  "listing_headers ts contentLength =
     ''HTTP/1.1 '' @ fmt_d 200 @ '' OK'' @ crlf @
     ''Server: ogws/0.1'' @ crlf @
     ''Date: '' @ ts @ crlf @
     ''Content-Type: text/html'' @ crlf @
     ''Content-Length: '' @ fmt_d contentLength @ crlf @ crlf"

definition showDirectoryListing :: "os \<Rightarrow> request \<Rightarrow> unit io" where
  "showDirectoryListing os req =
     bind_io (lift_res (deref (req_fullPath req))) (\<lambda>fullPath.
     case os_readdir os fullPath of
       None \<Rightarrow> sendErrorResponse os req 404 ''Not Found'' (req_path req)
     | Some names \<Rightarrow>
         bind_io (each_io (addFragment os fullPath (fmt_s (req_path req))) names) (\<lambda>_.
         bind_io get_io (\<lambda>g.
         let contentLength = to_int32 (int (length listing_header + length listing_footer +
               sum_list (map fr_len (g_fragments g))))
         in
         bind_io (lift_res (getTimestamp os RESPONSE_FORMAT)) (\<lambda>ts.
         bind_io (send_buf req BUFF_SIZE (listing_headers ts contentLength)) (\<lambda>_.
         bind_io (send_str req listing_header) (\<lambda>_.
         bind_io (each_io (send_fragment req) (g_fragments g)) (\<lambda>_.
         bind_io (mod_io (\<lambda>g. g\<lparr>g_fragments := []\<rparr>)) (\<lambda>_.
         bind_io (send_str req listing_footer) (\<lambda>_.
         accessLog os (req_clientFd req) (req_server req) (Some ''GET'') 200 (req_path req)
           contentLength)))))))))"

section \<open>A concrete system and state\<close>

definition ex_os :: os where
  "ex_os = \<lparr>os_time = (\<lambda>opt. Some ''20230401''), os_peer = (\<lambda>fd. ''10.0.0.1''),
     os_stat = (\<lambda>p. if p = ''/srv/a.txt'' then Some \<lparr>st_isDir = False, st_size = 5\<rparr>
                else if p = ''/srv/d'' then Some \<lparr>st_isDir = True, st_size = 0\<rparr> else None),
     os_open = (\<lambda>p. if p = ''/srv/a.txt'' then 9 else -1), os_fsize = (\<lambda>fd. 5),
     os_readdir = (\<lambda>p. if p = ''/srv/d'' then Some [''.'', ''x''] else None),
     os_junk_isDir = False, os_group_int = fmt_d, os_regcomp = (\<lambda>p. None),
     os_connect = (\<lambda>a. Some 8), os_recv = (\<lambda>fd. [''HTTP/1.1 200 OK''])\<rparr>"

definition ex_location :: location where
  "ex_location = \<lparr>loc_type = TYPE_DOC_ROOT, loc_matchType = PREFIX_MATCH, loc_match = ''/'',
     loc_root = Some (Heap ''/srv''), loc_protocol = 0, loc_tryTarget = [], loc_passTo = None,
     loc_group = None, loc_expires = 0\<rparr>"

definition ex_srv :: server where
  "ex_srv = empty_server\<lparr>srv_names := [\<lparr>sn_name = ''a.org'', sn_type = 0\<rparr>],
     srv_ports := [\<lparr>port_num = 80, port_tls = False\<rparr>], srv_indexFiles := [''index.html''],
     srv_locations := [ex_location], srv_accessLog := Some 0, srv_errorLog := Some 0\<rparr>"

definition ex_state :: gstate where
  "ex_state = initial_state\<lparr>g_servers := [ex_srv], g_version := Some ''0.1'',
     g_defaultType := Some ''text/plain'',
     g_accessLog := [\<lparr>lf_path = ''/log/a'', lf_fd = 5, lf_type = 0, lf_freed = False\<rparr>],
     g_errorLog := [\<lparr>lf_path = ''/log/e'', lf_fd = 6, lf_type = 0, lf_freed = False\<rparr>]\<rparr>"

text \<open>A request for \<open>path\<close> on descriptor 7.\<close>

definition ex_req :: "string \<Rightarrow> string \<Rightarrow> request" where
  "ex_req verb path = \<lparr>req_path = Some path, req_fullPath = Some (''/srv'' @ path),
     req_queryString = None, req_headers = None, req_verb = Some verb, req_protocol = None,
     req_host = None, req_localFd = 9, req_clientFd = 7, req_isDir = False, req_ssl = False,
     req_server = Some ex_srv, req_loc = Some ex_location\<rparr>"

section \<open>The handlers above only read the state\<close>

lemma ro_send [ro_intros]: "reads_only (send_buf req n s)" "reads_only (send_str req s)"
  by (auto simp: send_buf_def send_str_def intro!: ro_intros)

lemma ro_logs [ro_intros]:
  "reads_only (accessLog os fd srv v c p sz)" "reads_only (errorLog os fd srv v c p m)"
  by (auto simp: accessLog_def errorLog_def intro!: ro_intros)

lemma ro_error [ro_intros]: "reads_only (sendErrorResponse os req code msg path)"
  unfolding sendErrorResponse_def Let_def by (intro ro_intros)

lemma ro_serveFile [ro_intros]: "reads_only (serveFile os req)"
  unfolding serveFile_def Let_def sendFile_def by (intro ro_intros)

section \<open>What is sent\<close>

text \<open>A server whose names and logs are as the configuration checks leave them.\<close>

definition server_live :: "gstate \<Rightarrow> server \<Rightarrow> bool" where
  "server_live g s =
     (srv_names s \<noteq> [] \<and>
      (\<exists>i. srv_accessLog s = Some i \<and> i < length (g_accessLog g) \<and> \<not> lf_freed (g_accessLog g ! i)) \<and>
      (\<exists>i. srv_errorLog s = Some i \<and> i < length (g_errorLog g) \<and> \<not> lf_freed (g_errorLog g ! i)))"

text \<open>The clock works and its stamps fit their buffer; peer addresses are dotted quads.\<close>

definition os_sane :: "os \<Rightarrow> bool" where
  "os_sane os =
     ((\<exists>ts. os_time os RESPONSE_FORMAT = Some ts \<and> length ts < 256) \<and>
      (\<exists>ts. os_time os LOG_RECORD_FORMAT = Some ts \<and> length ts < 256))"

lemma ex_sane: "os_sane ex_os"
  by (simp add: os_sane_def ex_os_def)

lemma ex_live: "server_live ex_state ex_srv"
  by (simp add: server_live_def ex_state_def ex_srv_def initial_state_def)

lemma ex_version: "fmt_s (getVersion ex_state) = ''0.1''"
  by (simp add: ex_state_def initial_state_def getVersion_def)

lemma getTimestamp_sane:
  assumes "os_sane os"
  obtains ts where "getTimestamp os RESPONSE_FORMAT = Inr ts" "length ts < 256"
  using assms by (auto simp: os_sane_def getTimestamp_def)

lemma getTimestamp_log_sane:
  assumes "os_sane os"
  obtains ts where "getTimestamp os LOG_RECORD_FORMAT = Inr ts" "length ts < 256"
  using assms by (auto simp: os_sane_def getTimestamp_def)

lemma send_buf_fits:
  "length s < n \<Longrightarrow> send_buf req n s g = ([Send (req_clientFd req) (req_ssl req) s], Inr ((), g))"
  by (simp add: send_buf_def emit_snprintf_fits io_simps)

lemma bind_send_fits:
  "length s < n \<Longrightarrow> bind_io (send_buf req n s) f g =
     (Send (req_clientFd req) (req_ssl req) s # fst (f () g), snd (f () g))"
  by (simp add: bind_io_def send_buf_fits split: prod.split)

lemma bind_send_str:
  "bind_io (send_str req s) f g =
     (Send (req_clientFd req) (req_ssl req) s # fst (f () g), snd (f () g))"
  by (simp add: send_str_def io_simps)

text \<open>The log file a live server writes to.\<close>

definition error_log_fd :: "gstate \<Rightarrow> server \<Rightarrow> int" where
  "error_log_fd g s = lf_fd (g_errorLog g ! the (srv_errorLog s))"

definition access_log_fd :: "gstate \<Rightarrow> server \<Rightarrow> int" where
  "access_log_fd g s = lf_fd (g_accessLog g ! the (srv_accessLog s))"

definition time_of :: "os \<Rightarrow> int \<Rightarrow> string" where
  "time_of os opt = (case os_time os opt of None \<Rightarrow> [] | Some ts \<Rightarrow> ts)"

lemma time_of_sane:
  assumes "os_sane os"
  shows "getTimestamp os RESPONSE_FORMAT = Inr (time_of os RESPONSE_FORMAT)"
    "length (time_of os RESPONSE_FORMAT) < 256"
    "getTimestamp os LOG_RECORD_FORMAT = Inr (time_of os LOG_RECORD_FORMAT)"
    "length (time_of os LOG_RECORD_FORMAT) < 256"
  using assms by (auto simp: os_sane_def getTimestamp_def time_of_def)

definition error_line :: "os \<Rightarrow> request \<Rightarrow> server \<Rightarrow> int \<Rightarrow> string option \<Rightarrow> string \<Rightarrow> string" where
  "error_line os req s code path msg =
     log_line (time_of os LOG_RECORD_FORMAT) (os_peer os (req_clientFd req)) (req_verb req) code
       (sn_name (hd (srv_names s))) path msg"

definition access_line :: "os \<Rightarrow> request \<Rightarrow> server \<Rightarrow> string \<Rightarrow> int \<Rightarrow> int \<Rightarrow> string" where
  "access_line os req s verb code sz =
     log_line (time_of os LOG_RECORD_FORMAT) (os_peer os (req_clientFd req)) (Some verb) code
       (sn_name (hd (srv_names s))) (req_path req) (fmt_d sz)"

lemma first_name_live: "srv_names s \<noteq> [] \<Longrightarrow> first_name s = Inr (sn_name (hd (srv_names s)))"
  by (cases "srv_names s") (auto simp: first_name_def)

lemma errorLog_run:
  assumes "os_sane os" "server_live g s"
  shows "errorLog os (req_clientFd req) (Some s) (req_verb req) code path msg g =
     (case emit_snprintf BUFF_SIZE (error_line os req s code path msg) of
        Inl e \<Rightarrow> ([], Inl e)
      | Inr d \<Rightarrow> ([WriteLog (error_log_fd g s) d], Inr ((), g)))"
  using assms(2)
  by (auto simp: errorLog_def time_of_sane [OF assms(1)] server_live_def first_name_live io_simps
      log_fd_def error_line_def error_log_fd_def split: sum.split)

lemma accessLog_run:
  assumes "os_sane os" "server_live g s"
  shows "accessLog os (req_clientFd req) (Some s) (Some verb) code (req_path req) sz g =
     (case emit_snprintf BUFF_SIZE (access_line os req s verb code sz) of
        Inl e \<Rightarrow> ([], Inl e)
      | Inr d \<Rightarrow> ([WriteLog (access_log_fd g s) d], Inr ((), g)))"
  using assms(2)
  by (auto simp: accessLog_def time_of_sane [OF assms(1)] server_live_def first_name_live io_simps
      log_fd_def access_line_def access_log_fd_def split: sum.split)

lemma length_fmt_d_le:
  assumes "\<bar>i\<bar> < 10 ^ k" "0 < k" shows "length (fmt_d i) \<le> Suc k"
proof -
  from assms(1) have "nat \<bar>i\<bar> < 10 ^ k" by (simp add: nat_less_iff)
  from length_show_nat_le [OF this assms(2)] show ?thesis by (auto simp: fmt_d_def)
qed

lemma length_fmt_d: "- (10 ^ 9) < i \<Longrightarrow> i < 10 ^ 9 \<Longrightarrow> length (fmt_d i) \<le> 10"
  using length_fmt_d_le [of i 9] by simp

lemma length_fmt_d32: "- (2 ^ 31) \<le> i \<Longrightarrow> i < 2 ^ 31 \<Longrightarrow> length (fmt_d i) \<le> 11"
  using length_fmt_d_le [of i 10] by simp

lemma length_crlf [simp]: "length crlf = 2" by (simp add: crlf_def)

lemma error_text_fits:
  assumes "- (10 ^ 9) < code" "code < 10 ^ 9" "length msg \<le> 100" "length v \<le> 100"
    "length ts < 256"
  shows "length (error_body code msg) < 500" "length (error_headers v ts code msg) < BUFF_SIZE"
  using length_fmt_d [OF assms(1,2)] assms(3-5)
  by (simp_all add: error_body_def error_headers_def BUFF_SIZE_def)

lemma content_length_fits: "n < 10 ^ 9 \<Longrightarrow> length (content_length (int n)) < 64"
  using length_fmt_d [of "int n"] by (simp add: content_length_def)

text \<open>The three writes of an error response.\<close>

definition error_sends :: "os \<Rightarrow> gstate \<Rightarrow> request \<Rightarrow> int \<Rightarrow> string \<Rightarrow> action list" where
  "error_sends os g req code msg =
     map (Send (req_clientFd req) (req_ssl req))
       [error_headers (fmt_s (getVersion g)) (time_of os RESPONSE_FORMAT) code msg,
        content_length (int (length (error_body code msg))), error_body code msg]"

lemma sendErrorResponse_run:
  assumes "os_sane os" "- (10 ^ 9) < code" "code < 10 ^ 9" "length msg \<le> 100"
    "length (fmt_s (getVersion g)) \<le> 100"
  shows "sendErrorResponse os req code msg path g =
     (let r = errorLog os (req_clientFd req) (req_server req) (req_verb req) code path msg g
      in (error_sends os g req code msg @ fst r, snd r))"
proof -
  note fits = error_text_fits [OF assms(2-5) time_of_sane(2) [OF assms(1)]]
  have b: "length (error_body code msg) < BUFF_SIZE" "length (error_body code msg) < 10 ^ 9"
    using fits(1) by (simp_all add: BUFF_SIZE_def)
  show ?thesis
    by (simp add: sendErrorResponse_def time_of_sane [OF assms(1)] io_simps Let_def
        bind_send_fits [OF fits(2)] bind_send_fits [OF b(1)] error_sends_def
        bind_send_fits [OF content_length_fits [OF b(2)]])
qed

lemma error_response_run:
  assumes "os_sane os" "server_live g s" "req_server req = Some s" "0 \<le> code" "code < 1000"
    "length msg \<le> 100" "length (fmt_s (getVersion g)) \<le> 100"
  shows "sendErrorResponse os req code msg path g =
     (let line = error_line os req s code path msg in
      if length line < BUFF_SIZE
      then (error_sends os g req code msg @ [WriteLog (error_log_fd g s) line], Inr ((), g))
      else if length line = BUFF_SIZE
      then (error_sends os g req code msg @
              [WriteLog (error_log_fd g s) (butlast line @ [NUL])], Inr ((), g))
      else (error_sends os g req code msg, Inl OutOfBounds))"
proof -
  have "sendErrorResponse os req code msg path g =
     (let r = errorLog os (req_clientFd req) (req_server req) (req_verb req) code path msg g
      in (error_sends os g req code msg @ fst r, snd r))"
    using assms by (intro sendErrorResponse_run) simp_all
  moreover have "length l = BUFF_SIZE \<Longrightarrow> take (BUFF_SIZE - 1) l = butlast l" for l :: string
    by (simp add: butlast_conv_take)
  ultimately show ?thesis
    by (simp add: assms(3) errorLog_run [OF assms(1,2)] Let_def emit_snprintf_def BUFF_SIZE_def)
qed

text \<open>C22: An error response to a request of a live server is complete and well formed: status
  line and headers, a content length that is the length of the body, the body, and one line in
  the server's error log. The log line alone depends on the request: if it is longer than its
  buffer, the write reads past the buffer, after the client has its response.\<close>

theorem error_response_complete:
  assumes "os_sane os" "server_live g s" "req_server req = Some s" "0 \<le> code" "code < 1000"
    "length msg \<le> 100" "length (fmt_s (getVersion g)) \<le> 100"
  shows "sendErrorResponse os req code msg path g =
     (let line = error_line os req s code path msg in
      if length line < BUFF_SIZE
      then (error_sends os g req code msg @ [WriteLog (error_log_fd g s) line], Inr ((), g))
      else if length line = BUFF_SIZE
      then (error_sends os g req code msg @
              [WriteLog (error_log_fd g s) (butlast line @ [NUL])], Inr ((), g))
      else (error_sends os g req code msg, Inl OutOfBounds))"
  using assms by (rule error_response_run)

lemma ex_simps:
  "req_clientFd (ex_req v p) = 7" "req_ssl (ex_req v p) = False" "req_localFd (ex_req v p) = 9"
  "req_server (ex_req v p) = Some ex_srv" "req_verb (ex_req v p) = Some v"
  "req_path (ex_req v p) = Some p" "req_fullPath (ex_req v p) = Some (''/srv'' @ p)"
  "req_loc (ex_req v p) = Some ex_location"
  "time_of ex_os opt = ''20230401''" "os_fsize ex_os fd = 5" "g_fragments ex_state = []"
  "access_log_fd ex_state ex_srv = 5" "error_log_fd ex_state ex_srv = 6"
  by (simp_all add: ex_req_def time_of_def ex_os_def ex_state_def ex_srv_def access_log_fd_def
      error_log_fd_def initial_state_def)

text \<open>Lines of the concrete logs.\<close>

lemmas ex_line_defs = error_line_def access_line_def log_line_def time_of_def ex_os_def ex_req_def
  ex_srv_def ex_location_def empty_server_def fmt_d_def show_nat.simps digit_char_def BUFF_SIZE_def

lemma error_response_complete_witness:
  "sendErrorResponse ex_os (ex_req ''PUT'' ''/a'') 405 ''Method Not Allowed'' (Some ''PUT'') ex_state =
     (error_sends ex_os ex_state (ex_req ''PUT'' ''/a'') 405 ''Method Not Allowed'' @
        [WriteLog (error_log_fd ex_state ex_srv)
           (error_line ex_os (ex_req ''PUT'' ''/a'') ex_srv 405 (Some ''PUT'') ''Method Not Allowed'')],
      Inr ((), ex_state))"
proof -
  have "length (error_line ex_os (ex_req ''PUT'' ''/a'') ex_srv 405 (Some ''PUT'') ''Method Not Allowed'')
      < BUFF_SIZE"
    by (simp add: ex_line_defs)
  then show ?thesis
    using error_response_complete [OF ex_sane ex_live, of "ex_req ''PUT'' ''/a''" 405
        "''Method Not Allowed''" "Some ''PUT''"]
    by (simp add: ex_version ex_simps Let_def)
qed

section \<open>Serving a file\<close>

lemma getMimeType_short: "getMimeType g name = Inr mt \<Longrightarrow> length mt < 256"
  by (auto simp: getMimeType_def copy_into_def res_simps split: option.splits if_splits)

lemma file_headers_fit:
  assumes "length v \<le> 100" "length ts < 256" "length mt < 256"
  shows "length (file_headers v ts mt (to_int32 n)) < BUFF_SIZE"
proof -
  have "length (fmt_d (to_int32 n)) \<le> 11"
    using to_int32_bounds [of n] by (intro length_fmt_d32) simp_all
  moreover have "length (fmt_d 200) \<le> 10" by (rule length_fmt_d) simp_all
  ultimately show ?thesis using assms by (simp add: file_headers_def BUFF_SIZE_def)
qed

lemma serveFile_run:
  assumes "os_sane os" "server_live g s" "req_server req = Some s"
    "req_fullPath req = Some fp" "req_verb req = Some v" "getMimeType g fp = Inr mt"
    "length (fmt_s (getVersion g)) \<le> 100"
    "sz = to_int32 (int (os_fsize os (req_localFd req)))"
    "verb = (if v = ''GET'' then ''GET'' else ''HEAD'')"
    "length (access_line os req s verb 200 sz) < BUFF_SIZE"
  shows "serveFile os req g =
     (Send (req_clientFd req) (req_ssl req)
        (file_headers (fmt_s (getVersion g)) (time_of os RESPONSE_FORMAT) mt sz) #
      (if v = ''GET''
       then [SendFile (req_clientFd req) (req_ssl req) (req_localFd req)
               (os_fsize os (req_localFd req))] else []) @
      [WriteLog (access_log_fd g s) (access_line os req s verb 200 sz), Close (req_localFd req)],
      Inr ((), g))"
proof -
  have h: "length (file_headers (fmt_s (getVersion g)) (time_of os RESPONSE_FORMAT) mt sz) < BUFF_SIZE"
    unfolding assms(8)
    by (rule file_headers_fit [OF assms(7) time_of_sane(2) [OF assms(1)]
          getMimeType_short [OF assms(6)]])
  have al: "accessLog os (req_clientFd req) (Some s) (Some verb) 200 (req_path req) sz g =
      ([WriteLog (access_log_fd g s) (access_line os req s verb 200 sz)], Inr ((), g))"
    using accessLog_run [OF assms(1,2)] assms(10) by (simp add: emit_snprintf_fits)
  note bl = bind_io_ok [of "accessLog os (req_clientFd req) (Some s) (Some verb) 200 (req_path req) sz",
      OF al, where f = "\<lambda>_. emit_io (Close (req_localFd req))"]
  show ?thesis
    using h bl assms(9) unfolding serveFile_def assms(3-6) Let_def assms(8) [symmetric]
    by (cases "v = ''GET''")
      (simp_all add: time_of_sane [OF assms(1)] io_simps assms(5,6) bind_send_fits sendFile_def
        bind_io_assoc)
qed

text \<open>A file is served with one header block, the file itself exactly when the verb is
  \<open>GET\<close>, one line in the access log, and its descriptor closed. Any other verb is logged and
  answered as \<open>HEAD\<close>. The content length is the size as a 32-bit integer.\<close>

lemma serveFile_complete:
  assumes "os_sane os" "server_live g s" "req_server req = Some s"
    "req_fullPath req = Some fp" "req_verb req = Some v" "getMimeType g fp = Inr mt"
    "length (fmt_s (getVersion g)) \<le> 100"
    "sz = to_int32 (int (os_fsize os (req_localFd req)))"
    "verb = (if v = ''GET'' then ''GET'' else ''HEAD'')"
    "length (access_line os req s verb 200 sz) < BUFF_SIZE"
  shows "serveFile os req g =
     (Send (req_clientFd req) (req_ssl req)
        (file_headers (fmt_s (getVersion g)) (time_of os RESPONSE_FORMAT) mt sz) #
      (if v = ''GET''
       then [SendFile (req_clientFd req) (req_ssl req) (req_localFd req)
               (os_fsize os (req_localFd req))] else []) @
      [WriteLog (access_log_fd g s) (access_line os req s verb 200 sz), Close (req_localFd req)],
      Inr ((), g))"
  using assms by (rule serveFile_run)

lemma ex_mime: "getMimeType ex_state ''/srv/a.txt'' = Inr ''text/plain''"
  by code_simp

lemma serveFile_complete_example:
  "fst (serveFile ex_os (ex_req ''HEAD'' ''/a.txt'') ex_state) =
     [Send 7 False (file_headers ''0.1'' ''20230401'' ''text/plain'' 5),
      WriteLog 5 (access_line ex_os (ex_req ''HEAD'' ''/a.txt'') ex_srv ''HEAD'' 200 5), Close 9]"
proof -
  have m: "getMimeType ex_state (''/srv'' @ ''/a.txt'') = Inr ''text/plain''" using ex_mime by simp
  have l: "length (access_line ex_os (ex_req ''HEAD'' ''/a.txt'') ex_srv ''HEAD'' 200 5) < BUFF_SIZE"
    by (simp add: ex_line_defs)
  have "5 = to_int32 (int (os_fsize ex_os (req_localFd (ex_req ''HEAD'' ''/a.txt''))))"
    by (simp add: ex_simps to_int32_id)
  from serveFile_complete [OF ex_sane ex_live _ _ _ m _ this _ l, of "''HEAD''"]
  show ?thesis
    by (simp add: ex_version ex_simps)
qed

section \<open>Directory listings\<close>

definition listed :: "string list \<Rightarrow> string list" where
  "listed names = filter (\<lambda>n. n \<noteq> ''.'') names"

definition fragment_of :: "os \<Rightarrow> string \<Rightarrow> string \<Rightarrow> string \<Rightarrow> fragment" where
  "fragment_of os fp path n =
     (let t = fragment_text os fp path n in \<lparr>fr_len = length t, fr_text = take (BUFF_SIZE - 1) t\<rparr>)"

lemma addFragment_run:
  "length fp + 1 + length n < BUFF_SIZE \<Longrightarrow>
   addFragment os fp path n g =
     ([], Inr ((), g\<lparr>g_fragments := g_fragments g @ map (fragment_of os fp path) (listed [n])\<rparr>))"
  by (simp add: addFragment_def listed_def fragment_of_def Let_def io_simps)

lemma addFragments_run:
  "\<forall>n \<in> set names. length fp + 1 + length n < BUFF_SIZE \<Longrightarrow>
   each_io (addFragment os fp path) names g =
     ([], Inr ((), g\<lparr>g_fragments := g_fragments g @ map (fragment_of os fp path) (listed names)\<rparr>))"
proof (induction names arbitrary: g)
  case (Cons n ns)
  then have "addFragment os fp path n g =
     ([], Inr ((), g\<lparr>g_fragments := g_fragments g @ map (fragment_of os fp path) (listed [n])\<rparr>))"
    by (intro addFragment_run) simp
  moreover from Cons have "each_io (addFragment os fp path) ns
      (g\<lparr>g_fragments := g_fragments g @ map (fragment_of os fp path) (listed [n])\<rparr>) =
     ([], Inr ((), g\<lparr>g_fragments := g_fragments g @ map (fragment_of os fp path) (listed (n # ns))\<rparr>))"
    by (simp add: listed_def)
  ultimately show ?case by (simp add: bind_io_def)
qed (simp add: io_simps listed_def)

lemma send_fragments_run:
  "\<forall>f \<in> set fs. fr_len f = length (fr_text f) \<Longrightarrow>
   each_io (send_fragment req) fs g =
     (map (\<lambda>f. Send (req_clientFd req) (req_ssl req) (fr_text f)) fs, Inr ((), g))"
  by (induction fs) (auto simp: io_simps send_fragment_def bind_send_str)

text \<open>The body of a listing, as the strings sent.\<close>

definition listing_body :: "os \<Rightarrow> string \<Rightarrow> string \<Rightarrow> string list \<Rightarrow> string list" where
  "listing_body os fp path names =
     listing_header # map (fragment_text os fp path) (listed names) @ [listing_footer]"

lemma listing_headers_fit:
  assumes "length ts < 256" shows "length (listing_headers ts (to_int32 n)) < BUFF_SIZE"
proof -
  have "length (fmt_d (to_int32 n)) \<le> 11"
    using to_int32_bounds [of n] by (intro length_fmt_d32) simp_all
  moreover have "length (fmt_d 200) \<le> 10" by (rule length_fmt_d) simp_all
  ultimately show ?thesis using assms by (simp add: listing_headers_def BUFF_SIZE_def)
qed

text \<open>C23: A directory listing announces the length of the body it sends: with an empty
  fragment list, entries whose paths and fragments fit the buffers, and a body below two
  gigabytes, the content length is the sum of the lengths of the pieces sent after the headers,
  one piece per entry except the directory itself. The fragment list is empty again.\<close>

theorem listing_content_length:
  assumes "os_sane os" "server_live g s" "req_server req = Some s" "g_fragments g = []"
    "req_fullPath req = Some fp" "req_path req = Some path" "os_readdir os fp = Some names"
    "\<forall>n \<in> set names. length fp + 1 + length n < BUFF_SIZE"
    "\<forall>n \<in> set names. length (fragment_text os fp path n) < BUFF_SIZE"
    "tot = int (sum_list (map length (listing_body os fp path names)))" "tot < 2 ^ 31"
    "length (access_line os req s ''GET'' 200 tot) < BUFF_SIZE"
  shows "showDirectoryListing os req g =
     (map (Send (req_clientFd req) (req_ssl req))
        (listing_headers (time_of os RESPONSE_FORMAT) tot # listing_body os fp path names) @
      [WriteLog (access_log_fd g s) (access_line os req s ''GET'' 200 tot)], Inr ((), g))"
proof -
  let ?fs = "map (fragment_of os fp path) (listed names)"
  have sub: "set (listed names) \<subseteq> set names" by (auto simp: listed_def)
  have len: "fr_len f = length (fr_text f)" if "f \<in> set ?fs" for f
  proof -
    from that sub obtain n where "n \<in> set names" "f = fragment_of os fp path n" by auto
    with assms(9) show ?thesis by (auto simp: fragment_of_def Let_def)
  qed
  have ftext: "fr_text (fragment_of os fp path n) = fragment_text os fp path n"
    if "n \<in> set (listed names)" for n
    using that sub assms(9) by (force simp: fragment_of_def Let_def)
  have flen: "map fr_len ?fs = map length (map (fragment_text os fp path) (listed names))"
    by (simp add: fragment_of_def Let_def)
  have tot: "int (length listing_header + length listing_footer + sum_list (map fr_len ?fs)) = tot"
    unfolding flen assms(10) listing_body_def by (simp add: comp_def)
  have "0 \<le> tot" unfolding assms(10) by simp
  then have t32: "to_int32 tot = tot" using assms(11) by (simp add: to_int32_id)
  have h: "length (listing_headers (time_of os RESPONSE_FORMAT) tot) < BUFF_SIZE"
    using listing_headers_fit [OF time_of_sane(2) [OF assms(1)], of tot] by (simp add: t32)
  have al: "accessLog os (req_clientFd req) (Some s) (Some ''GET'') 200 (Some path) tot g =
      ([WriteLog (access_log_fd g s) (access_line os req s ''GET'' 200 tot)], Inr ((), g))"
    using accessLog_run [OF assms(1,2), of req "''GET''" 200 tot] assms(6,12)
    by (simp add: emit_snprintf_fits)
  have clean: "g\<lparr>g_fragments := xs, g_fragments := []\<rparr> = g" "g_fragments (g\<lparr>g_fragments := xs\<rparr>) = xs" for xs
    using assms(4) by simp_all
  from addFragments_run [OF assms(8), of os path g] assms(4)
  have add: "each_io (addFragment os fp path) names g = ([], Inr ((), g\<lparr>g_fragments := ?fs\<rparr>))"
    by simp
  have sent: "each_io (send_fragment req) ?fs (g\<lparr>g_fragments := ?fs\<rparr>) =
      (map (Send (req_clientFd req) (req_ssl req)) (map (fragment_text os fp path) (listed names)),
       Inr ((), g\<lparr>g_fragments := ?fs\<rparr>))"
  proof -
    have "\<forall>f \<in> set ?fs. fr_len f = length (fr_text f)" using len by blast
    note r = send_fragments_run [OF this, of req "g\<lparr>g_fragments := ?fs\<rparr>"]
    have "map (\<lambda>f. Send (req_clientFd req) (req_ssl req) (fr_text f)) ?fs =
        map (Send (req_clientFd req) (req_ssl req)) (map (fragment_text os fp path) (listed names))"
      using ftext by auto
    with r show ?thesis by (simp only:)
  qed
  show ?thesis
    unfolding showDirectoryListing_def Let_def listing_body_def
    by (simp only: assms(3,5,6,7) io_simps deref_simps option.case fmt_s_Some
        bind_io_ok [of "each_io (addFragment os fp path) names", OF add]
        tot t32 time_of_sane(1) [OF assms(1)] bind_send_fits [OF h] bind_send_str
        bind_io_ok [of "each_io (send_fragment req) ?fs", OF sent] clean al
        fst_conv snd_conv append.simps list.map map_append append_assoc)
qed

lemma listing_content_length_witness:
  "\<exists>tot. showDirectoryListing ex_os (ex_req ''GET'' ''/d'') ex_state =
     (map (Send 7 False)
        (listing_headers ''20230401'' tot # listing_body ex_os ''/srv/d'' ''/d'' [''.'', ''x'']) @
      [WriteLog 5 (access_line ex_os (ex_req ''GET'' ''/d'') ex_srv ''GET'' 200 tot)], Inr ((), ex_state))"
proof -
  let ?names = "[''.'', ''x'']"
  let ?tot = "int (sum_list (map length (listing_body ex_os ''/srv/d'' ''/d'' ?names)))"
  have f: "\<forall>n \<in> set ?names. length (fragment_text ex_os ''/srv/d'' ''/d'' n) < BUFF_SIZE"
    by (simp add: fragment_text_def ex_os_def Let_def BUFF_SIZE_def fmt_d_def show_nat.simps)
  have t: "?tot < 2 ^ 31" "?tot < 10 ^ 9" "0 \<le> ?tot"
    by (simp_all add: listing_body_def listed_def fragment_text_def ex_os_def Let_def fmt_d_def
        show_nat.simps listing_header_def listing_footer_def)
  have "length (fmt_d ?tot) \<le> 10" using t by (intro length_fmt_d) linarith+
  then have l: "length (access_line ex_os (ex_req ''GET'' ''/d'') ex_srv ''GET'' 200 ?tot) < BUFF_SIZE"
    by (simp add: access_line_def log_line_def time_of_def ex_os_def ex_req_def ex_srv_def
        BUFF_SIZE_def fmt_d_def show_nat.simps [of 200] show_nat.simps [of 20] show_nat.simps [of 2])
  have "showDirectoryListing ex_os (ex_req ''GET'' ''/d'') ex_state =
     (map (Send (req_clientFd (ex_req ''GET'' ''/d'')) (req_ssl (ex_req ''GET'' ''/d'')))
        (listing_headers (time_of ex_os RESPONSE_FORMAT) ?tot #
           listing_body ex_os ''/srv/d'' ''/d'' ?names) @
      [WriteLog (access_log_fd ex_state ex_srv)
         (access_line ex_os (ex_req ''GET'' ''/d'') ex_srv ''GET'' 200 ?tot)], Inr ((), ex_state))"
  proof (rule listing_content_length [OF ex_sane ex_live _ _ _ _ _ _ f refl t(1) l])
  qed (simp_all add: ex_simps, simp_all add: ex_os_def BUFF_SIZE_def)
  then have "showDirectoryListing ex_os (ex_req ''GET'' ''/d'') ex_state =
     (map (Send 7 False)
        (listing_headers ''20230401'' ?tot # listing_body ex_os ''/srv/d'' ''/d'' ?names) @
      [WriteLog 5 (access_line ex_os (ex_req ''GET'' ''/d'') ex_srv ''GET'' 200 ?tot)], Inr ((), ex_state))"
    by (simp only: ex_simps)
  then show ?thesis by blast
qed

end
