(* ===== verification/OG_Upstream.thy ===== *)
theory OG_Upstream
  imports OG_Response OG_FastCGI
begin

text \<open>
  Requests passed on to an upstream server: \<^verbatim>\<open>getUpstreamServer.c\<close>,
  \<^verbatim>\<open>handleProxyPass.c\<close> and \<open>handleFastCGIPass\<close> of \<^verbatim>\<open>handleFastCGIPass.c\<close>. The
  theory shows that a group is served in turn, what the upstream server receives, and which part
  of its answer reaches the client.
\<close>

section \<open>Choosing a server\<close>

text \<open>
  The address for the next request of a location, and the state with the group moved on. The
  group is the struct the location points to, so the move is seen by every location that shares
  it.
\<close>

definition next_address :: "location \<Rightarrow> gstate \<Rightarrow> (sockaddr_in option \<times> gstate) res" where
  "next_address loc g =
     (if has_flag (loc_type loc) TYPE_UPSTREAM_GROUP then
        (case loc_group loc of
           None \<Rightarrow> Inr (None, g)
         | Some i \<Rightarrow>
             let u = g_upstreams g ! i in
             if ug_freed u then Inl UseAfterFree
             else (case ug_current u of
                 [] \<Rightarrow> Inl NullDeref
               | a # as \<Rightarrow>
                   bind_res (deref (up_passTo (g_nodes g ! a))) (\<lambda>addr.
                   let cur = (if as = [] then ug_servers u else as)
                   in Inr (Some addr,
                       g\<lparr>g_upstreams := (g_upstreams g)[i := u\<lparr>ug_current := cur\<rparr>]\<rparr>))))
      else bind_res (deref (loc_passTo loc)) (\<lambda>addr. Inr (Some addr, g)))"

definition getUpstreamServer :: "os \<Rightarrow> request \<Rightarrow> int option io" where
  "getUpstreamServer os req =
     bind_io (lift_res (deref (req_loc req))) (\<lambda>loc.
     bind_io get_io (\<lambda>g.
     bind_io (lift_res (next_address loc g)) (\<lambda>(addr, g').
     bind_io (mod_io (\<lambda>_. g')) (\<lambda>_.
     ret_io (case addr of None \<Rightarrow> None | Some a \<Rightarrow> os_connect os a)))))"

section \<open>Forwarding\<close>

definition getClient :: "int \<Rightarrow> client io" where
  "getClient fd =
     bind_io get_io (\<lambda>g.
     case getClientConnection fd g of None \<Rightarrow> stop_io (Exit 1) | Some c \<Rightarrow> ret_io c)"

definition send_up :: "int \<Rightarrow> string \<Rightarrow> unit io" where
  "send_up fd s = emit_io (Send fd False s)"

text \<open>
  The status code of the upstream's answer, from the buffer that \<open>recvData\<close> has zeroed
  before it filled it. Without two blanks a null pointer is followed.
\<close>

definition response_code :: "string \<Rightarrow> int res" where
  "response_code c =
     bind_res (cut_at (CHR '' '') (c @ replicate (BUFF_SIZE - length c) NUL)) (\<lambda>r.
     case r of
       None \<Rightarrow> Inl NullDeref
     | Some (_, q) \<Rightarrow>
         bind_res (cut_at (CHR '' '') q) (\<lambda>r'.
         case r' of None \<Rightarrow> Inl NullDeref | Some (t, _) \<Rightarrow> Inr (atoi t)))"

text \<open>The loop that copies the answer, on what the calls of \<open>recvData\<close> return.\<close>

fun relay :: "request \<Rightarrow> bool \<Rightarrow> int \<Rightarrow> int \<Rightarrow> string list \<Rightarrow> (int \<times> int) io" where
  "relay req start code sz [] = ret_io (code, sz)"
| "relay req start code sz (c # cs) =
     (if c = [] then ret_io (code, sz)
      else
        bind_io (send_str req c) (\<lambda>_.
        bind_io (if start then lift_res (response_code c) else ret_io code) (\<lambda>code'.
        if length c = BUFF_SIZE then relay req False code' (sz + int (length c)) cs
        else ret_io (code', sz + int (length c)))))"

definition forward :: "os \<Rightarrow> request \<Rightarrow> unit io" where
  "forward os req =
     bind_io (getUpstreamServer os req) (\<lambda>up.
     case up of
       None \<Rightarrow> ret_io ()
     | Some fd \<Rightarrow>
         bind_io (lift_res (deref (req_headers req))) (\<lambda>headers.
         bind_io
           (case strstr headers (crlf @ crlf) of
              None \<Rightarrow> send_up fd headers
            | Some r \<Rightarrow>
                bind_io (send_up fd (take (length headers - length r) headers @ crlf)) (\<lambda>_.
                bind_io (getClient (req_clientFd req)) (\<lambda>c.
                bind_io (send_up fd (''X-Forwarded-For: '' @ cl_ip c @ crlf @ crlf)) (\<lambda>_.
                if drop 4 r = [] then ret_io () else send_up fd (drop 4 r)))))
           (\<lambda>_.
         bind_io (relay req True 200 0 (os_recv os fd)) (\<lambda>(code, sz).
         bind_io (emit_io (Shutdown fd)) (\<lambda>_.
         bind_io (emit_io (Close fd)) (\<lambda>_.
         accessLog os (req_clientFd req) (req_server req) (req_verb req) code (req_path req) sz))))))"

definition handleProxyPass :: "os \<Rightarrow> request \<Rightarrow> unit io" where
  "handleProxyPass os req = forward os req"

definition handleFastCGIPass :: "os \<Rightarrow> request \<Rightarrow> unit io" where
  "handleFastCGIPass os req = bind_io (mod_io (initParameters req)) (\<lambda>_. forward os req)"

section \<open>A group is served in turn\<close>

text \<open>\<open>n\<close> requests to one location: the addresses chosen and the state after them.\<close>

fun addresses :: "location \<Rightarrow> nat \<Rightarrow> gstate \<Rightarrow> (sockaddr_in option list \<times> gstate) res" where
  "addresses loc 0 g = Inr ([], g)"
| "addresses loc (Suc n) g =
     bind_res (next_address loc g) (\<lambda>(a, g1).
     bind_res (addresses loc n g1) (\<lambda>(as, g2). Inr (a # as, g2)))"

text \<open>A group whose nodes are resolved and whose next server is at position \<open>k\<close> of its list.\<close>

definition group_at :: "nat \<Rightarrow> nat \<Rightarrow> nat list \<Rightarrow> gstate \<Rightarrow> bool" where
  "group_at i k as g =
     (i < length (g_upstreams g) \<and> \<not> ug_freed (g_upstreams g ! i) \<and>
      ug_servers (g_upstreams g ! i) = as \<and> k < length as \<and>
      ug_current (g_upstreams g ! i) = drop k as \<and>
      (\<forall>a \<in> set as. up_passTo (g_nodes g ! a) \<noteq> None))"

lemma next_address_group:
  assumes "has_flag (loc_type loc) TYPE_UPSTREAM_GROUP" "loc_group loc = Some i"
    "group_at i k as g"
  shows "\<exists>g'. next_address loc g = Inr (up_passTo (g_nodes g ! (as ! k)), g') \<and>
     group_at i (Suc k mod length as) as g' \<and> g_nodes g' = g_nodes g"
proof -
  let ?u = "g_upstreams g ! i"
  from assms(3) have k: "k < length as" and cur: "ug_current ?u = as ! k # drop (Suc k) as"
    by (auto simp: group_at_def Cons_nth_drop_Suc)
  from assms(3) k obtain addr where addr: "up_passTo (g_nodes g ! (as ! k)) = Some addr"
    unfolding group_at_def by (metis nth_mem option.exhaust)
  let ?c = "if drop (Suc k) as = [] then ug_servers ?u else drop (Suc k) as"
  let ?g = "g\<lparr>g_upstreams := (g_upstreams g)[i := ?u\<lparr>ug_current := ?c\<rparr>]\<rparr>"
  from assms(3) have "\<not> ug_freed ?u" by (simp add: group_at_def)
  then have na: "next_address loc g = Inr (Some addr, ?g)"
    by (simp add: next_address_def assms(1,2) cur addr Let_def)
  have "?c = drop (Suc k mod length as) as"
  proof (cases "Suc k = length as")
    case True
    then show ?thesis using assms(3) by (simp add: group_at_def)
  next
    case False
    with k have "Suc k < length as" by simp
    then show ?thesis by simp
  qed
  moreover have "Suc k mod length as < length as" using k by (intro mod_less_divisor) linarith
  ultimately have "group_at i (Suc k mod length as) as ?g"
    using assms(3) by (simp add: group_at_def)
  with na addr show ?thesis by auto
qed

lemma addresses_group:
  assumes "has_flag (loc_type loc) TYPE_UPSTREAM_GROUP" "loc_group loc = Some i"
    "group_at i k as g"
  shows "\<exists>g'. addresses loc n g =
     Inr (map (\<lambda>j. up_passTo (g_nodes g ! (as ! ((k + j) mod length as)))) [0..<n], g') \<and>
     group_at i ((k + n) mod length as) as g'"
  using assms(3)
proof (induction n arbitrary: k g)
  case 0
  then show ?case by (simp add: group_at_def)
next
  case (Suc n)
  from Suc.prems have k: "k < length as" by (simp add: group_at_def)
  from next_address_group [OF assms(1,2) Suc.prems] obtain g1
    where g1: "next_address loc g = Inr (up_passTo (g_nodes g ! (as ! k)), g1)"
      "group_at i (Suc k mod length as) as g1" "g_nodes g1 = g_nodes g" by blast
  from Suc.IH [OF g1(2)] obtain g2 where g2: "addresses loc n g1 =
      Inr (map (\<lambda>j. up_passTo (g_nodes g1 ! (as ! ((Suc k mod length as + j) mod length as)))) [0..<n], g2)"
      "group_at i ((Suc k mod length as + n) mod length as) as g2" by blast
  have m: "(Suc k mod length as + j) mod length as = (k + Suc j) mod length as" for j
    by (simp add: mod_simps)
  have "[0..<Suc n] = 0 # map Suc [0..<n]" by (simp add: map_Suc_upt upt_conv_Cons del: upt_Suc)
  then have "map (\<lambda>j. up_passTo (g_nodes g ! (as ! ((k + j) mod length as)))) [0..<Suc n] =
      up_passTo (g_nodes g ! (as ! k)) #
      map (\<lambda>j. up_passTo (g_nodes g ! (as ! ((k + Suc j) mod length as)))) [0..<n]"
    using k by (simp add: comp_def del: upt_Suc)
  with g1 g2 show ?case by (simp add: m del: upt_Suc)
qed


section \<open>What is forwarded\<close>

text \<open>The part of the answer that reaches the client: up to the first read that is not full.\<close>

fun relayed :: "string list \<Rightarrow> string list" where
  "relayed [] = []"
| "relayed (c # cs) =
     (if c = [] then [] else c # (if length c = BUFF_SIZE then relayed cs else []))"

lemma relay_actions:
  "relay req start code sz cs g = (as, Inr (r, g')) \<Longrightarrow>
   as = map (Send (req_clientFd req) (req_ssl req)) (relayed cs) \<and> g' = g \<and>
   snd r = sz + int (length (concat (relayed cs)))"
proof (induction req start code sz cs arbitrary: as rule: relay.induct)
  case (2 req start code sz c cs)
  show ?case
  proof (cases "c = []")
    case False
    let ?get = "if start then lift_res (response_code c) else ret_io code"
    let ?rest = "\<lambda>code'. if length c = BUFF_SIZE then relay req False code' (sz + int (length c)) cs
          else ret_io (code', sz + int (length c))"
    have run: "relay req start code sz (c # cs) g =
        (Send (req_clientFd req) (req_ssl req) c # fst (bind_io ?get ?rest g),
         snd (bind_io ?get ?rest g))"
      using False by (simp add: bind_send_str)
    with "2.prems" have "snd (bind_io ?get ?rest g) = Inr (r, g')" by simp
    then obtain code' where "?get g = ([], Inr (code', g))"
      by (cases "response_code c") (auto simp: io_simps split: if_splits)
    then have "bind_io ?get ?rest g = ?rest code' g" by (simp add: bind_io_def)
    with run "2.prems" have as: "as = Send (req_clientFd req) (req_ssl req) c # fst (?rest code' g)"
      and r: "snd (?rest code' g) = Inr (r, g')" by simp_all
    show ?thesis
    proof (cases "length c = BUFF_SIZE")
      case True
      from True as r have r2: "relay req False code' (sz + int (length c)) cs g = (tl as, Inr (r, g'))"
        by (simp add: prod_eq_iff)
      have "tl as = map (Send (req_clientFd req) (req_ssl req)) (relayed cs) \<and> g' = g \<and>
          snd r = sz + int (length c) + int (length (concat (relayed cs)))"
        using "2.IH" [OF False True r2] .
      with as False True show ?thesis by simp
    next
      case nf: False
      with as r False show ?thesis by (auto simp: io_simps)
    qed
  qed (use "2.prems" in \<open>auto simp: io_simps\<close>)
qed (auto simp: io_simps)

text \<open>A full-size read is passed on whole; the bytes after the first short read are lost.\<close>

lemma relayed_prefix: "prefix (relayed cs) cs"
  by (induction cs) auto

lemma bind_lift_cases:
  "bind_io (lift_res r) f g = (case r of Inl e \<Rightarrow> ([], Inl e) | Inr x \<Rightarrow> f x g)"
  by (cases r) (simp_all add: io_simps)

lemma accessLog_shape:
  "accessLog os fd srv verb code path sz g = (as, Inr ((), g')) \<Longrightarrow>
   g' = g \<and> (\<exists>lfd d. as = [WriteLog lfd d])"
  by (auto simp: accessLog_def bind_lift_cases io_simps split: sum.splits)

lemma next_address_frame:
  "next_address loc g = Inr (a, g1) \<Longrightarrow> g_clients g1 = g_clients g"
  by (auto simp: next_address_def Let_def res_simps split: if_splits option.splits list.splits)

lemma getUpstreamServer_run:
  "req_loc req = Some loc \<Longrightarrow> next_address loc g = Inr (Some addr, g1) \<Longrightarrow>
   getUpstreamServer os req g = ([], Inr (os_connect os addr, g1))"
  by (simp add: getUpstreamServer_def io_simps)

lemma bind_io_eq:
  "m g = (as, Inr (x, g')) \<Longrightarrow> f x g' = (bs, r) \<Longrightarrow> bind_io m f g = (as @ bs, r)"
  by (simp add: bind_io_def)

text \<open>What goes to the upstream server, as the list of writes.\<close>

definition upstream_writes :: "string \<Rightarrow> string \<Rightarrow> string \<Rightarrow> string list" where
  "upstream_writes head ip body =
     [head @ crlf, ''X-Forwarded-For: '' @ ip @ crlf @ crlf] @ (if body = [] then [] else [body])"

text \<open>What is left when the request has been sent: the answer, the close, and the log.\<close>

definition forward_tail :: "os \<Rightarrow> request \<Rightarrow> int \<Rightarrow> unit io" where
  "forward_tail os req fd =
     bind_io (relay req True 200 0 (os_recv os fd)) (\<lambda>(code, sz).
     bind_io (emit_io (Shutdown fd)) (\<lambda>_.
     bind_io (emit_io (Close fd)) (\<lambda>_.
     accessLog os (req_clientFd req) (req_server req) (req_verb req) code (req_path req) sz)))"

lemma forward_eq:
  assumes "req_headers req = Some (head @ crlf @ crlf @ body)"
    "strstr (head @ crlf @ crlf @ body) (crlf @ crlf) = Some (crlf @ crlf @ body)"
    "getClientConnection (req_clientFd req) g = Some c"
    "req_loc req = Some loc" "next_address loc g = Inr (Some addr, g1)"
    "os_connect os addr = Some fd"
  shows "forward os req g =
      (map (Send fd False) (upstream_writes head (cl_ip c) body) @ fst (forward_tail os req fd g1),
       snd (forward_tail os req fd g1))"
proof -
  have cl: "getClientConnection (req_clientFd req) g1 = Some c"
    using assms(3) next_address_frame [OF assms(5)] by (simp add: getClientConnection_def)
  have d4: "drop 4 (crlf @ crlf @ body) = body" by (simp add: crlf_def)
  have up: "getUpstreamServer os req g = ([], Inr (Some fd, g1))"
    using getUpstreamServer_run [OF assms(4,5)] assms(6) by simp
  show ?thesis
    by (simp add: forward_def bind_io_ok [of "getUpstreamServer os req", OF up] io_simps assms(1,2)
        d4 send_up_def getClient_def cl upstream_writes_def bind_io_assoc forward_tail_def)
qed

lemma forward_tail_shape:
  assumes "forward_tail os req fd g = (as, Inr ((), g2))"
  obtains lfd d where "g2 = g"
    "as = map (Send (req_clientFd req) (req_ssl req)) (relayed (os_recv os fd)) @
       [Shutdown fd, Close fd, WriteLog lfd d]"
proof -
  from assms obtain bs r g3 cs where r: "relay req True 200 0 (os_recv os fd) g = (bs, Inr (r, g3))"
    and t: "(case r of (code, sz) \<Rightarrow>
         bind_io (emit_io (Shutdown fd)) (\<lambda>_.
         bind_io (emit_io (Close fd)) (\<lambda>_.
         accessLog os (req_clientFd req) (req_server req) (req_verb req) code (req_path req) sz)))
         g3 = (cs, Inr ((), g2))"
    and bc: "as = bs @ cs"
    unfolding forward_tail_def by (rule bind_io_InrE)
  from relay_actions [OF r] have b: "g3 = g"
    "bs = map (Send (req_clientFd req) (req_ssl req)) (relayed (os_recv os fd))" by simp_all
  obtain code sz where "r = (code, sz)" by (cases r)
  with t b have t': "accessLog os (req_clientFd req) (req_server req) (req_verb req) code
      (req_path req) sz g = (drop 2 cs, Inr ((), g2))" and cs: "cs = Shutdown fd # Close fd # drop 2 cs"
    by (auto simp: io_simps prod_eq_iff)
  from accessLog_shape [OF t'] obtain lfd d where "g2 = g" "drop 2 cs = [WriteLog lfd d]" by blast
  with that [of lfd d] bc b cs show thesis by simp
qed

text \<open>C6: When a proxied request completes, the upstream server has received the client's
  header block with an \<open>X-Forwarded-For\<close> line for the client's address inserted before the
  blank line, then the body; the client has received the upstream's answer up to its first
  short read, and nothing else; and only the choice of the upstream server has changed the
  state.\<close>

theorem proxy_pass_forwards:
  assumes "req_headers req = Some (head @ crlf @ crlf @ body)"
    "strstr (head @ crlf @ crlf @ body) (crlf @ crlf) = Some (crlf @ crlf @ body)"
    "getClientConnection (req_clientFd req) g = Some c"
    "req_loc req = Some loc" "next_address loc g = Inr (Some addr, g1)"
    "os_connect os addr = Some fd" "fd \<noteq> req_clientFd req"
    "handleProxyPass os req g = (as, Inr ((), g2))"
  shows "concat (sent_to fd as) =
      head @ crlf @ ''X-Forwarded-For: '' @ cl_ip c @ crlf @ crlf @ body \<and>
    sent_to (req_clientFd req) as = relayed (os_recv os fd) \<and> g2 = g1"
proof -
  let ?t = "forward_tail os req fd g1"
  from assms(8) forward_eq [OF assms(1-6)]
  have as: "as = map (Send fd False) (upstream_writes head (cl_ip c) body) @ fst ?t"
    and "?t = (fst ?t, Inr ((), g2))"
    by (simp_all add: handleProxyPass_def prod_eq_iff)
  from forward_tail_shape [OF this(2)] obtain lfd d where "g2 = g1"
    "fst ?t = map (Send (req_clientFd req) (req_ssl req)) (relayed (os_recv os fd)) @
       [Shutdown fd, Close fd, WriteLog lfd d]" .
  with as assms(7) show ?thesis by (simp add: upstream_writes_def)
qed

section \<open>A concrete group\<close>

definition ex_addr :: "int \<Rightarrow> sockaddr_in" where
  "ex_addr p = \<lparr>sin_family = 2, sin_port = htons (word_of_int p), sin_addr = 0x7F000001\<rparr>"

definition ex_node :: "int \<Rightarrow> upstream" where
  "ex_node p = \<lparr>up_host = ''back'', up_port = p, up_passTo = Some (ex_addr p), up_weight = 1\<rparr>"

definition ex_group_state :: gstate where
  "ex_group_state = ex_state\<lparr>g_nodes := [ex_node 9000, ex_node 9001],
     g_upstreams := [\<lparr>ug_current = [1, 0, 0], ug_name = ''pool'', ug_servers = [1, 0, 0], ug_freed = False\<rparr>],
     g_clients := [\<lparr>cl_fd = 7, cl_server = ex_srv, cl_ip = ''10.0.0.1'', cl_ctx = None\<rparr>]\<rparr>"

definition ex_group_location :: location where
  "ex_group_location = ex_location\<lparr>loc_type := TYPE_UPSTREAM_GROUP, loc_group := Some 0\<rparr>"

lemma ex_group_facts:
  "has_flag (loc_type ex_group_location) TYPE_UPSTREAM_GROUP" "loc_group ex_group_location = Some 0"
  "group_at 0 0 [1, 0, 0] ex_group_state"
  by (simp_all add: ex_group_location_def flag_simps group_at_def ex_group_state_def ex_node_def)


definition ex_proxy_location :: location where
  "ex_proxy_location = ex_location\<lparr>loc_type := TYPE_PROXY_PASS, loc_passTo := Some (ex_addr 9000)\<rparr>"

definition ex_proxy_req :: request where
  "ex_proxy_req = (ex_req ''GET'' ''/'')\<lparr>req_loc := Some ex_proxy_location,
     req_headers := Some (''GET / HTTP/1.1'' @ crlf @ ''Host: a.org'' @ crlf @ crlf @ ''x=1'')\<rparr>"

lemma response_code_ok: "response_code ''HTTP/1.1 200 OK'' = Inr 200"
proof -
  have "cut_at (CHR '' '') (''HTTP/1.1 200 OK'' @ replicate n NUL) =
      Inr (Some (''HTTP/1.1'', ''200 OK'' @ replicate n NUL))" for n
    by simp
  moreover have "cut_at (CHR '' '') (''200 OK'' @ replicate n NUL) =
      Inr (Some (''200'', ''OK'' @ replicate n NUL))" for n
    by simp
  moreover have "atoi ''200'' = 200"
    using atoi_fmt_d [of 200 "[]"] by (simp add: fmt_d_def show_nat.simps digit_char_def)
  ultimately show ?thesis by (simp add: response_code_def del: cut_at.simps append.simps)
qed

lemma proxy_pass_forwards_witness:
  "\<exists>as. handleProxyPass ex_os ex_proxy_req ex_group_state = (as, Inr ((), ex_group_state)) \<and>
     concat (sent_to 8 as) = ''GET / HTTP/1.1'' @ crlf @ ''Host: a.org'' @ crlf @
       ''X-Forwarded-For: 10.0.0.1'' @ crlf @ crlf @ ''x=1'' \<and>
     sent_to 7 as = [''HTTP/1.1 200 OK'']"
proof -
  let ?g = ex_group_state and ?req = ex_proxy_req
  let ?head = "''GET / HTTP/1.1'' @ crlf @ ''Host: a.org''" and ?body = "''x=1''"
  let ?c = "\<lparr>cl_fd = 7, cl_server = ex_srv, cl_ip = ''10.0.0.1'', cl_ctx = None\<rparr>"
  have h: "req_headers ?req = Some (?head @ crlf @ crlf @ ?body)" by (simp add: ex_proxy_req_def)
  have s: "strstr (?head @ crlf @ crlf @ ?body) (crlf @ crlf) = Some (crlf @ crlf @ ?body)"
    by (simp add: crlf_def)
  have c: "getClientConnection (req_clientFd ?req) ?g = Some ?c"
    by (simp add: ex_proxy_req_def ex_simps getClientConnection_def ex_group_state_def)
  have l: "req_loc ?req = Some ex_proxy_location" by (simp add: ex_proxy_req_def)
  have n: "next_address ex_proxy_location ?g = Inr (Some (ex_addr 9000), ?g)"
    by (simp add: next_address_def ex_proxy_location_def flag_simps)
  have o: "os_connect ex_os (ex_addr 9000) = Some 8" "os_recv ex_os 8 = [''HTTP/1.1 200 OK'']"
    by (simp_all add: ex_os_def)
  have fd: "8 \<noteq> req_clientFd ?req" by (simp add: ex_proxy_req_def ex_simps)
  have live: "server_live ?g ex_srv" using ex_live by (simp add: server_live_def ex_group_state_def)
  have line: "length (access_line ex_os ?req ex_srv ''GET'' 200 15) < BUFF_SIZE"
    by (simp add: ex_line_defs ex_proxy_req_def)
  have r: "req_verb ?req = Some ''GET''" "req_server ?req = Some ex_srv"
    by (simp_all add: ex_proxy_req_def ex_simps)
  have al: "snd (accessLog ex_os (req_clientFd ?req) (Some ex_srv) (Some ''GET'') 200 (req_path ?req) 15 ?g)
      = Inr ((), ?g)"
    using accessLog_run [OF ex_sane live, of ?req "''GET''" 200 15] line by (simp add: emit_snprintf_fits)
  have "snd (forward_tail ex_os ?req 8 ?g) = Inr ((), ?g)"
    using al by (simp add: forward_tail_def io_simps bind_io_assoc o r bind_send_str
        response_code_ok BUFF_SIZE_def)
  with forward_eq [OF h s c l n o(1)] have "snd (handleProxyPass ex_os ?req ?g) = Inr ((), ?g)"
    by (simp add: handleProxyPass_def)
  then have run: "handleProxyPass ex_os ?req ?g = (fst (handleProxyPass ex_os ?req ?g), Inr ((), ?g))"
    by (simp add: prod_eq_iff)
  from proxy_pass_forwards [OF h s c l n o(1) fd run] run show ?thesis
    by (intro exI [of _ "fst (handleProxyPass ex_os ?req ?g)"])
      (simp add: o ex_proxy_req_def ex_simps BUFF_SIZE_def)
qed

end
