(* ===== verification/OG_Dispatch.thy ===== *)
theory OG_Dispatch
  imports OG_Request OG_Upstream
begin

text \<open>
  The request handlers: the file lookup and \<open>handleGetVerb\<close> of \<^verbatim>\<open>handleGetVerb.c\<close>,
  \<^verbatim>\<open>handleTryFiles.c\<close>, and \<open>processInput\<close> of \<^verbatim>\<open>processInput.c\<close> that ties parsing,
  lookup and handlers together.
\<close>

section \<open>Paths\<close>

text \<open>\<open>FULL_PATH\<close> is the size of the two path buffers, a literal 300 in the code.\<close>

definition FULL_PATH :: nat where "FULL_PATH = 300"

definition join_path :: "string \<Rightarrow> string \<Rightarrow> string" where
  "join_path dir p = (if p = [] \<or> hd p \<noteq> CHR ''/'' then dir @ ''/'' @ p else dir @ p)"

text \<open>The request with its full path and directory flag, and the result: 1, or -1 if there is
  no such file.\<close>

definition pathExists :: "os \<Rightarrow> request \<Rightarrow> string option \<Rightarrow> (request \<times> int) res" where
  "pathExists os req path =
     bind_res (deref (req_loc req)) (\<lambda>loc.
     bind_res (deref (loc_root loc)) (\<lambda>root.
     bind_res (deref path) (\<lambda>p.
     let full = join_path (cval root) p;
         req1 = req\<lparr>req_fullPath := Some full, req_isDir := False\<rparr>
     in if length full \<ge> FULL_PATH then Inl OutOfBounds
        else (case os_stat os full of
            None \<Rightarrow> Inr (req1, -1)
          | Some sb \<Rightarrow> Inr (req1\<lparr>req_isDir := st_isDir sb\<rparr>, 1)))))"

fun open_index :: "os \<Rightarrow> string \<Rightarrow> string list \<Rightarrow> (string \<times> int) option res" where
  "open_index os full [] = Inr None"
| "open_index os full (f # fs) =
     (let p = join_path full f in
      if length p \<ge> FULL_PATH then Inl OutOfBounds
      else if os_open os p \<ge> 0 then Inr (Some (p, os_open os p))
      else open_index os full fs)"

text \<open>The request with the full path of the index file, and its descriptor or -1.\<close>

definition openDefaultIndexFile :: "os \<Rightarrow> request \<Rightarrow> (request \<times> int) res" where
  "openDefaultIndexFile os req =
     bind_res (deref (req_server req)) (\<lambda>srv.
     bind_res (deref (req_fullPath req)) (\<lambda>full.
     bind_res (open_index os full (srv_indexFiles srv)) (\<lambda>r.
     case r of
       None \<Rightarrow> Inr (req, -1)
     | Some (p, fd) \<Rightarrow> Inr (req\<lparr>req_fullPath := Some p\<rparr>, fd))))"

section \<open>\<open>GET\<close> and \<open>HEAD\<close>\<close>

definition handleGetVerb :: "os \<Rightarrow> request \<Rightarrow> unit io" where
  "handleGetVerb os req =
     bind_io (lift_res (pathExists os req (req_path req))) (\<lambda>(req1, found).
     if found = -1 then sendErrorResponse os req1 404 ''Not Found'' (req_path req1)
     else if req_isDir req1 then
       bind_io (lift_res (openDefaultIndexFile os req1)) (\<lambda>(req2, fd).
       let req3 = req2\<lparr>req_localFd := fd\<rparr> in
       if fd = -1 then
         bind_io (lift_res (deref (req_server req3))) (\<lambda>srv.
         if srv_autoIndex srv then showDirectoryListing os req3
         else sendErrorResponse os req3 404 ''Not Found'' (req_path req3))
       else serveFile os req3)
     else
       bind_io (lift_res (deref (req_fullPath req1))) (\<lambda>full.
       let req2 = req1\<lparr>req_localFd := os_open os full\<rparr> in
       if req_localFd req2 = -1 then sendErrorResponse os req2 404 ''Not Found'' (req_path req2)
       else serveFile os req2))"

section \<open>\<open>try_files\<close>\<close>

text \<open>The result of \<open>pathExists\<close> is used as a truth value, which -1 satisfies too.\<close>

definition serveDefaultFile :: "os \<Rightarrow> request \<Rightarrow> unit io" where
  "serveDefaultFile os req =
     bind_io (lift_res (deref (req_loc req))) (\<lambda>loc.
     if has_flag (loc_type loc) TYPE_PROXY_PASS then handleProxyPass os req
     else
       bind_io get_io (\<lambda>g.
       bind_io (lift_res (deref (g_tryTarget g))) (\<lambda>target.
       let req1 = req\<lparr>req_path := Some target\<rparr> in
       bind_io (lift_res (pathExists os req1 (Some target))) (\<lambda>(req2, found).
       if found \<noteq> 0 then
         (if req_isDir req2 then sendErrorResponse os req2 404 ''Not Found'' (req_path req2)
          else
            bind_io (lift_res (deref (req_fullPath req2))) (\<lambda>full.
            let req3 = req2\<lparr>req_localFd := os_open os full\<rparr> in
            if req_localFd req3 = -1
            then sendErrorResponse os req3 404 ''Not Found'' (req_path req3)
            else serveFile os req3))
       else sendErrorResponse os req2 404 ''Not Found'' (req_path req2)))))"

definition checkTryFilesFormat :: "location \<Rightarrow> string option" where
  "checkTryFilesFormat loc =
     (case loc_tryTarget loc of
        t1 # t2 # t3 # _ \<Rightarrow> if t1 = ''$uri'' \<and> t2 = ''$uri/'' then Some t3 else None
      | _ \<Rightarrow> None)"

text \<open>After the response to an unknown format the function goes on.\<close>

definition handleTryFiles :: "os \<Rightarrow> request \<Rightarrow> unit io" where
  "handleTryFiles os req =
     bind_io (lift_res (deref (req_loc req))) (\<lambda>loc.
     let target = checkTryFilesFormat loc in
     bind_io (mod_io (\<lambda>g. g\<lparr>g_tryTarget := target\<rparr>)) (\<lambda>_.
     bind_io (if target = None then sendErrorResponse os req 404 ''Not Found'' (req_path req)
              else ret_io ()) (\<lambda>_.
     bind_io (lift_res (pathExists os (req\<lparr>req_isDir := False\<rparr>) (req_path req))) (\<lambda>(req1, found).
     if found = -1 then serveDefaultFile os req1
     else if \<not> req_isDir req1 then
       bind_io (lift_res (deref (req_fullPath req1))) (\<lambda>full.
       let req2 = req1\<lparr>req_localFd := os_open os full\<rparr> in
       if req_localFd req2 = -1 then serveDefaultFile os req2 else serveFile os req2)
     else
       bind_io (lift_res (openDefaultIndexFile os req1)) (\<lambda>(req2, fd).
       let req3 = req2\<lparr>req_localFd := fd\<rparr> in
       if fd = -1 then
         bind_io (lift_res (deref (req_server req3))) (\<lambda>srv.
         if srv_autoIndex srv then showDirectoryListing os req3 else serveDefaultFile os req3)
       else if has_flag (loc_type loc) TYPE_PROXY_PASS then handleProxyPass os req3
       else serveFile os req3)))))"

section \<open>A request\<close>

definition verbIs :: "string \<Rightarrow> string \<Rightarrow> bool" where
  "verbIs verb compare = (length verb = length compare \<and> verb = compare)"

text \<open>From the parsed request on: server, location, length check, and the choice of handler.\<close>

definition dispatch :: "os \<Rightarrow> request \<Rightarrow> parsed \<Rightarrow> unit io" where
  "dispatch os req pr =
     (let (path, query) = split_query (pr_path pr);
          req1 = req\<lparr>req_verb := Some (pr_verb pr), req_path := Some path,
            req_protocol := Some (pr_protocol pr), req_host := Some (pr_host pr),
            req_queryString := query\<rparr>
      in
      bind_io get_io (\<lambda>g.
      bind_io (lift_res (getServerForHost (pr_host pr) g)) (\<lambda>srv.
      let req2 = req1\<lparr>req_server := srv\<rparr> in
      case srv of
        None \<Rightarrow> sendErrorResponse os req2 404 ''Bad request'' (Some ''No server for this host'')
      | Some s \<Rightarrow>
          let req3 = req2\<lparr>req_loc := getDocRoot os s path\<rparr> in
          (case getDocRoot os s path of
             None \<Rightarrow> sendErrorResponse os req3 500 ''Bad configuration'' (Some ''No doc root'')
           | Some loc \<Rightarrow>
               (case loc_root loc of
                  None \<Rightarrow> sendErrorResponse os req3 500 ''Bad configuration'' (Some ''No doc root'')
                | Some root \<Rightarrow>
                    if length (cval root) + length path > 255
                    then sendErrorResponse os req3 414 ''URI too long''
                           (Some (take 255 path @ ''...''))
                    else if has_flag (loc_type loc) TYPE_TRY_FILES then handleTryFiles os req3
                    else if has_flag (loc_type loc) TYPE_PROXY_PASS then handleProxyPass os req3
                    else if has_flag (loc_type loc) TYPE_FASTCGI_PASS
                    then handleFastCGIPass os req3
                    else if verbIs (pr_verb pr) ''GET'' \<or> verbIs (pr_verb pr) ''HEAD''
                    then handleGetVerb os req3
                    else sendErrorResponse os req3 405 ''Method Not Allowed''
                           (Some (pr_verb pr)))))))"

text \<open>\<open>received\<close> is what the first read of the connection returned, at most the buffer.\<close>

definition processInput :: "os \<Rightarrow> request \<Rightarrow> string \<Rightarrow> unit io" where
  "processInput os req received =
     (if length received = BUFF_SIZE
      then sendErrorResponse os req 413 ''Bad Request'' (Some ''Request too large'')
      else if length received \<le> 0
      then sendErrorResponse os req 400 ''Bad Request'' (Some ''No data'')
      else
        let buf = input_buffer received;
            req1 = req\<lparr>req_headers := Some (takeWhile (\<lambda>c. c \<noteq> NUL) buf)\<rparr>
        in
        bind_io (lift_res (parse_request buf)) (\<lambda>r.
        case r of
          None \<Rightarrow> sendErrorResponse os req1 400 ''Bad Request'' (Some ''Bad data'')
        | Some pr \<Rightarrow> dispatch os req1 pr))"

text \<open>\<open>_request\<close> as the callers of \<open>processInput\<close> fill it in.\<close>

definition new_request :: "server \<Rightarrow> int \<Rightarrow> bool \<Rightarrow> request" where
  "new_request srv fd ssl = \<lparr>req_path = None, req_fullPath = None, req_queryString = None,
     req_headers = None, req_verb = None, req_protocol = None, req_host = None,
     req_localFd = 0, req_clientFd = fd, req_isDir = False, req_ssl = ssl,
     req_server = Some srv, req_loc = None\<rparr>"

end
