(* ===== verification/OG_DispatchProps.thy ===== *)
theory OG_DispatchProps
  imports OG_Dispatch
begin

text \<open>
  Properties of the request path: how many responses a request gets, that no path overruns its
  buffer, and what happens at the edges (an unknown host, an unknown \<open>try_files\<close> format,
  a request without a host).
\<close>

section \<open>Counting responses\<close>

text \<open>The writes to a descriptor that start a response.\<close>

definition status_lines :: "int \<Rightarrow> action list \<Rightarrow> nat" where
  "status_lines fd as = length (filter (prefix ''HTTP/1.1 '') (sent_to fd as))"

lemma status_lines_append [simp]:
  "status_lines fd (as @ bs) = status_lines fd as + status_lines fd bs"
  by (simp add: status_lines_def)

lemma status_lines_simps [simp]:
  "status_lines fd [] = 0"
  "status_lines fd (Send f b d # as) =
     (if f = fd \<and> prefix ''HTTP/1.1 '' d then 1 else 0) + status_lines fd as"
  "status_lines fd (SendFile f b l n # as) = status_lines fd as"
  "status_lines fd (WriteLog f d # as) = status_lines fd as"
  "status_lines fd (Close f # as) = status_lines fd as"
  "status_lines fd (Shutdown f # as) = status_lines fd as"
  "status_lines fd (EpollAdd f # as) = status_lines fd as"
  "status_lines fd (FreeCtx n # as) = status_lines fd as"
  by (simp_all add: status_lines_def)

text \<open>
  The contract of a handler that is counted: from a state with \<open>P\<close>, if it completes it has
  sent \<open>n\<close> status lines and its state has \<open>Q\<close>.
\<close>

definition sends :: "int \<Rightarrow> (gstate \<Rightarrow> bool) \<Rightarrow> nat \<Rightarrow> 'a io \<Rightarrow> (gstate \<Rightarrow> bool) \<Rightarrow> bool" where
  "sends fd P n m Q =
     (\<forall>g as x g'. P g \<longrightarrow> m g = (as, Inr (x, g')) \<longrightarrow> status_lines fd as = n \<and> Q g')"

named_theorems send_intros \<open>how many status lines handlers send\<close>

lemma sendsD:
  "sends fd P n m Q \<Longrightarrow> P g \<Longrightarrow> m g = (as, Inr (x, g')) \<Longrightarrow> status_lines fd as = n \<and> Q g'"
  unfolding sends_def by blast

lemma sends_basic [send_intros]:
  "sends fd P 0 (ret_io x) P" "sends fd P 0 (lift_res r) P" "sends fd P n (stop_io e) Q"
  "sends fd P 0 (emit_io (SendFile f b l k)) P" "sends fd P 0 (emit_io (WriteLog f d)) P"
  "sends fd P 0 (emit_io (Close f)) P" "sends fd P 0 (emit_io (Shutdown f)) P"
  by (auto simp: sends_def io_simps lift_res_def split: sum.splits)

lemma sends_bind:
  assumes "sends fd P n m Q" "\<And>x. sends fd Q k (f x) R"
  shows "sends fd P (n + k) (bind_io m f) R"
  unfolding sends_def
proof (intro allI impI)
  fix g as y g2
  assume p: "P g" and "bind_io m f g = (as, Inr (y, g2))"
  then obtain bs x g1 cs where r: "m g = (bs, Inr (x, g1))" "f x g1 = (cs, Inr (y, g2))"
    and as: "as = bs @ cs" by (auto elim: bind_io_InrE)
  from sendsD [OF assms(1) p r(1)] have q: "status_lines fd bs = n" "Q g1" by simp_all
  from sendsD [OF assms(2) q(2) r(2)] q(1) as show "status_lines fd as = n + k \<and> R g2" by simp
qed

lemma sends_bind0:
  "sends fd P 0 m Q \<Longrightarrow> (\<And>x. sends fd Q k (f x) R) \<Longrightarrow> sends fd P k (bind_io m f) R"
  using sends_bind [of fd P 0 m Q k f R] by simp

lemma sends_bind1:
  "sends fd P 1 m Q \<Longrightarrow> (\<And>x. sends fd Q 0 (f x) R) \<Longrightarrow> sends fd P 1 (bind_io m f) R"
  using sends_bind [of fd P 1 m Q 0 f R] by simp

lemma sends_seq0:
  "sends fd P 0 m P \<Longrightarrow> (\<And>x. sends fd P k (f x) R) \<Longrightarrow> sends fd P k (bind_io m f) R"
  by (rule sends_bind0)

lemma sends_seq1:
  "sends fd P 1 m P \<Longrightarrow> (\<And>x. sends fd P 0 (f x) R) \<Longrightarrow> sends fd P 1 (bind_io m f) R"
  by (rule sends_bind1)

lemma sends_pre: "sends fd P n m Q \<Longrightarrow> (\<And>g. P' g \<Longrightarrow> P g) \<Longrightarrow> sends fd P' n m Q"
  unfolding sends_def by blast

lemma sends_get: "(\<And>h. P h \<Longrightarrow> sends fd P k (f h) R) \<Longrightarrow> sends fd P k (bind_io get_io f) R"
  by (auto simp: sends_def io_simps)

lemma sends_mod: "(\<And>g. P g \<Longrightarrow> Q (h g)) \<Longrightarrow> sends fd P 0 (mod_io h) Q"
  by (auto simp: sends_def io_simps)

lemma sends_lift:
  "(\<And>x. r = Inr x \<Longrightarrow> sends fd P k (f x) R) \<Longrightarrow> sends fd P k (bind_io (lift_res r) f) R"
  by (cases r) (auto simp: sends_def io_simps)

lemma sends_if [send_intros]:
  "sends fd P n m Q \<Longrightarrow> sends fd P n k Q \<Longrightarrow> sends fd P n (if b then m else k) Q"
  by simp

lemma sends_cond:
  "(b \<Longrightarrow> sends fd P n m Q) \<Longrightarrow> (\<not> b \<Longrightarrow> sends fd P n k Q) \<Longrightarrow>
   sends fd P n (if b then m else k) Q"
  by simp

lemma sends_option:
  "(p = None \<Longrightarrow> sends fd P n m Q) \<Longrightarrow> (\<And>x. p = Some x \<Longrightarrow> sends fd P n (f x) Q) \<Longrightarrow>
   sends fd P n (case p of None \<Rightarrow> m | Some x \<Rightarrow> f x) Q"
  by (cases p) auto

lemma sends_each:
  "(\<And>x. x \<in> set xs \<Longrightarrow> sends fd P 0 (f x) P) \<Longrightarrow> sends fd P 0 (each_io f xs) P"
  by (induction xs) (auto intro!: sends_bind0 sends_basic)

text \<open>A buffer is sent with its beginning intact, whatever its length.\<close>

lemma emit_snprintf_prefix:
  assumes "emit_snprintf n s = Inr d" "length p < n" "NUL \<notin> set p"
  shows "prefix p d \<longleftrightarrow> prefix p s"
proof (cases "length s < n")
  case True
  then show ?thesis using assms(1) by (simp add: emit_snprintf_fits)
next
  case False
  with assms(1) have l: "length s = n" "d = take (n - 1) s @ [NUL]"
    using assms(2) by (cases n; auto simp: emit_snprintf_def split: if_splits)+
  then have "take (length p) d = take (length p) s" using assms(2) by simp
  then show ?thesis by (metis take_is_prefix append_eq_conv_conj prefix_def)
qed

lemma sends_buf:
  assumes "9 < n" "prefix ''HTTP/1.1 '' s = (k = 1)" "k \<le> 1"
  shows "sends (req_clientFd req) P k (send_buf req n s) P"
proof -
  have "prefix ''HTTP/1.1 '' d = prefix ''HTTP/1.1 '' s" if "emit_snprintf n s = Inr d" for d
    using that assms(1) by (intro emit_snprintf_prefix) (simp_all add: eval_nat_numeral)
  then show ?thesis
    using assms(2,3) by (cases "emit_snprintf n s") (auto simp: sends_def send_buf_def io_simps)
qed

lemma sends_str: "\<not> prefix ''HTTP/1.1 '' s \<Longrightarrow> sends fd P 0 (send_str req s) P"
  by (auto simp: sends_def send_str_def io_simps)

lemma buff_pos: "9 < BUFF_SIZE" by (simp add: BUFF_SIZE_def)

section \<open>Each handler sends one response\<close>

lemma sends_logs [send_intros]:
  "sends fd P 0 (accessLog os f srv v c p sz) P" "sends fd P 0 (errorLog os f srv v c p m) P"
  unfolding accessLog_def errorLog_def
  by (intro sends_get sends_lift sends_seq0 send_intros)+

lemma sends_error [send_intros]:
  "sends (req_clientFd req) P 1 (sendErrorResponse os req code msg path) P"
  unfolding sendErrorResponse_def Let_def
  by (intro sends_lift sends_get sends_seq1 sends_seq0 sends_buf buff_pos send_intros)
    (simp_all add: error_headers_def content_length_def error_body_def)

lemma sends_serveFile [send_intros]: "sends (req_clientFd req) P 1 (serveFile os req) P"
  unfolding serveFile_def Let_def sendFile_def
  by (intro sends_lift sends_get sends_seq1 sends_seq0 sends_buf buff_pos send_intros)
    (simp_all add: file_headers_def)

text \<open>The pieces of a directory listing after its headers are markup.\<close>

definition markup :: "fragment \<Rightarrow> bool" where
  "markup f = prefix ''<'' (fr_text f)"

abbreviation no_fragments :: "gstate \<Rightarrow> bool" where
  "no_fragments g \<equiv> g_fragments g = []"

lemma sends_addFragment:
  "sends fd (\<lambda>g. list_all markup (g_fragments g)) 0 (addFragment os fp path n)
     (\<lambda>g. list_all markup (g_fragments g))"
proof -
  have "prefix ''<'' (fragment_text os fp path n)"
    by (simp add: fragment_text_def Let_def)
  then have "markup \<lparr>fr_len = k, fr_text = take (BUFF_SIZE - 1) (fragment_text os fp path n)\<rparr>" for k
    by (auto simp: markup_def prefix_def BUFF_SIZE_def)
  then show ?thesis
    by (auto simp: addFragment_def Let_def intro!: sends_mod send_intros)
qed

lemma sends_fragment: "markup f \<Longrightarrow> sends fd P 0 (send_fragment req f) P"
  by (cases "fr_text f")
    (auto simp: send_fragment_def markup_def intro!: send_intros sends_str)

lemma sends_listing [send_intros]:
  "sends (req_clientFd req) no_fragments 1 (showDirectoryListing os req) no_fragments"
proof -
  have hd: "prefix ''HTTP/1.1 '' (listing_headers ts n)" for ts n
    by (simp add: listing_headers_def)
  have lh: "\<not> prefix ''HTTP/1.1 '' listing_header" "\<not> prefix ''HTTP/1.1 '' listing_footer"
    by (simp_all add: listing_header_def listing_footer_def)
  have "sends (req_clientFd req) no_fragments 0 (each_io (addFragment os fp path) names)
      (\<lambda>g. list_all markup (g_fragments g))" for fp path names
    by (rule sends_pre [of _ "\<lambda>g. list_all markup (g_fragments g)"])
      (auto intro: sends_each sends_addFragment)
  note add = sends_bind0 [OF this]
  show ?thesis
    unfolding showDirectoryListing_def Let_def
    by (intro sends_lift sends_option send_intros add sends_get sends_seq1 [OF sends_buf [OF buff_pos]]
        sends_seq0 [OF sends_str] sends_seq0 [OF sends_each [OF sends_fragment]]
        sends_bind0 [OF sends_mod [where Q = no_fragments]])
      (auto simp: hd lh list_all_iff)
qed

lemma pathExists_frame:
  "pathExists os req p = Inr (req1, n) \<Longrightarrow>
   req_clientFd req1 = req_clientFd req \<and> req_ssl req1 = req_ssl req \<and>
   req_server req1 = req_server req \<and> req_loc req1 = req_loc req \<and>
   req_path req1 = req_path req \<and> req_verb req1 = req_verb req"
  by (auto simp: pathExists_def res_simps Let_def split: if_splits option.splits)

lemma openDefaultIndexFile_frame:
  "openDefaultIndexFile os req = Inr (req1, fd) \<Longrightarrow>
   req_clientFd req1 = req_clientFd req \<and> req_ssl req1 = req_ssl req \<and>
   req_server req1 = req_server req \<and> req_loc req1 = req_loc req \<and>
   req_path req1 = req_path req \<and> req_verb req1 = req_verb req"
  by (auto simp: openDefaultIndexFile_def res_simps split: option.splits)

text \<open>The final handlers, for a request that differs in fields other than the client.\<close>

lemma sends_final:
  assumes "req_clientFd r = fd"
  shows "sends fd P 1 (sendErrorResponse os r code msg path) P"
    "sends fd P 1 (serveFile os r) P"
    "sends fd no_fragments 1 (showDirectoryListing os r) no_fragments"
  using sends_error [of r] sends_serveFile [of r] sends_listing [of r] assms by simp_all

lemma sends_handleGetVerb:
  "sends (req_clientFd req) no_fragments 1 (handleGetVerb os req) no_fragments"
  unfolding handleGetVerb_def
  by (intro sends_lift)
    (auto simp: Let_def dest!: pathExists_frame openDefaultIndexFile_frame
      intro!: sends_lift sends_if sends_final [unfolded One_nat_def])

lemma sends_serveDefaultFile:
  assumes "req_loc req = Some loc" "\<not> has_flag (loc_type loc) TYPE_PROXY_PASS"
  shows "sends (req_clientFd req) no_fragments 1 (serveDefaultFile os req) no_fragments"
  unfolding serveDefaultFile_def
  by (intro sends_lift)
    (auto simp: Let_def assms dest!: pathExists_frame
      intro!: sends_lift sends_get sends_if sends_final [unfolded One_nat_def])

lemma sends_serveDefaultFile_client:
  "req_loc r = Some loc \<Longrightarrow> \<not> has_flag (loc_type loc) TYPE_PROXY_PASS \<Longrightarrow> req_clientFd r = fd \<Longrightarrow>
   sends fd no_fragments (Suc 0) (serveDefaultFile os r) no_fragments"
  using sends_serveDefaultFile [of r loc os] by simp

lemma sends_handleTryFiles:
  assumes "req_loc req = Some loc" "\<not> has_flag (loc_type loc) TYPE_PROXY_PASS"
    "checkTryFilesFormat loc \<noteq> None"
  shows "sends (req_clientFd req) no_fragments 1 (handleTryFiles os req) no_fragments"
  unfolding handleTryFiles_def
  by (intro sends_lift)
    (auto simp: Let_def assms dest!: pathExists_frame openDefaultIndexFile_frame
      intro!: sends_lift sends_if sends_final [unfolded One_nat_def] sends_bind0 [OF sends_mod [where Q = no_fragments]]
        sends_bind0 [OF sends_basic(1)]
      intro!: sends_serveDefaultFile_client [of _ loc])

section \<open>Whole requests\<close>

lemma getServerForHost_in:
  "getServerForHost host g = Inr (Some s) \<Longrightarrow> s \<in> set (g_servers g)"
proof -
  have f: "find_server n k ss = Some s \<Longrightarrow> s \<in> set ss" for n k ss
    by (induction ss) (auto split: if_splits)
  assume "getServerForHost host g = Inr (Some s)"
  then show ?thesis
    by (auto simp: getServerForHost_def Let_def split: list.splits prod.splits option.splits
        if_splits dest!: f)
qed

lemma getDocRoot_in: "getDocRoot os srv path = Some l \<Longrightarrow> l \<in> set (srv_locations srv)"
proof -
  have "find_location os path ls = Some l \<Longrightarrow> l \<in> set ls" for ls
    by (induction ls) (auto split: if_splits)
  then show "getDocRoot os srv path = Some l \<Longrightarrow> l \<in> set (srv_locations srv)"
    by (simp add: getDocRoot_def)
qed

text \<open>No location passes requests on, and every \<open>try_files\<close> has the format that is known.\<close>

definition local_location :: "location \<Rightarrow> bool" where
  "local_location l =
     (\<not> has_flag (loc_type l) TYPE_PROXY_PASS \<and> \<not> has_flag (loc_type l) TYPE_FASTCGI_PASS \<and>
      (has_flag (loc_type l) TYPE_TRY_FILES \<longrightarrow> checkTryFilesFormat l \<noteq> None))"

definition served_locally :: "gstate \<Rightarrow> bool" where
  "served_locally g = list_all (\<lambda>s. list_all local_location (srv_locations s)) (g_servers g)"

lemma sends_dispatch:
  "sends (req_clientFd req) (\<lambda>g. no_fragments g \<and> served_locally g) 1 (dispatch os req pr) no_fragments"
proof -
  have pre: "sends fd no_fragments n m Q \<Longrightarrow>
      sends fd (\<lambda>g. no_fragments g \<and> served_locally g) n m Q" for fd n Q and m :: "unit io"
    by (erule sends_pre) simp
  have get: "req_clientFd r = fd \<Longrightarrow> sends fd no_fragments 1 (handleGetVerb os r) no_fragments"
    for r fd using sends_handleGetVerb [of r os] by simp
  have tf: "req_clientFd r = fd \<Longrightarrow> req_loc r = Some l \<Longrightarrow> local_location l \<Longrightarrow>
      has_flag (loc_type l) TYPE_TRY_FILES \<Longrightarrow>
      sends fd no_fragments 1 (handleTryFiles os r) no_fragments"
    for r fd l using sends_handleTryFiles [of r l os] by (simp add: local_location_def)
  have loc: "local_location l"
    if "no_fragments h \<and> served_locally h" "getServerForHost host h = Inr (Some s)"
      "getDocRoot os s path = Some l" for h host s path l
    using that getServerForHost_in getDocRoot_in by (fastforce simp: served_locally_def list_all_iff)
  show ?thesis
    unfolding dispatch_def Let_def case_prod_beta
    by (intro sends_get sends_lift sends_option sends_cond pre sends_final get tf)
      (simp_all, (drule (2) loc, simp add: local_location_def)+)
qed



lemma one_response_run:
  assumes "no_fragments g" "served_locally g" "processInput os req received g = (as, Inr ((), g'))"
  shows "status_lines (req_clientFd req) as = 1 \<and> g_fragments g' = []"
proof -
  let ?P = "\<lambda>g. no_fragments g \<and> served_locally g"
  have pre: "sends fd no_fragments n m Q \<Longrightarrow> sends fd ?P n m Q" for fd n Q and m :: "unit io"
    by (erule sends_pre) simp
  have disp: "req_clientFd r = fd \<Longrightarrow> sends fd ?P 1 (dispatch os r pr) no_fragments" for r fd pr
    using sends_dispatch [of r os pr] by simp
  have "sends (req_clientFd req) ?P 1 (processInput os req received) no_fragments"
    unfolding processInput_def Let_def
    by (intro sends_if sends_lift sends_option disp pre sends_final) simp_all
  from sendsD [OF this _ assms(3)] assms(1,2) show ?thesis by simp
qed



text \<open>A request that is parsed and reaches \<open>dispatch\<close>.\<close>

lemma processInput_parsed:
  assumes "received \<noteq> []" "length received < BUFF_SIZE"
    "parse_request (input_buffer received) = Inr (Some pr)"
  shows "processInput os req received g =
     dispatch os (req\<lparr>req_headers := Some (takeWhile (\<lambda>c. c \<noteq> NUL) (input_buffer received))\<rparr>) pr g"
  using assms by (simp add: processInput_def Let_def io_simps)

text \<open>The request as \<open>dispatch\<close> has completed it when it calls a handler.\<close>

definition filled :: "request \<Rightarrow> string \<Rightarrow> parsed \<Rightarrow> server \<Rightarrow> location \<Rightarrow> request" where
  "filled req received pr srv loc =
     req\<lparr>req_headers := Some (takeWhile (\<lambda>c. c \<noteq> NUL) (input_buffer received)),
       req_verb := Some (pr_verb pr), req_path := Some (fst (split_query (pr_path pr))),
       req_protocol := Some (pr_protocol pr), req_host := Some (pr_host pr),
       req_queryString := snd (split_query (pr_path pr)), req_server := Some srv,
       req_loc := Some loc\<rparr>"

lemma dispatch_located:
  assumes "received \<noteq> []" "length received < BUFF_SIZE"
    "parse_request (input_buffer received) = Inr (Some pr)"
    "getServerForHost (pr_host pr) g = Inr (Some s)"
    "getDocRoot os s (fst (split_query (pr_path pr))) = Some loc" "loc_root loc = Some root"
    "length (cval root) + length (fst (split_query (pr_path pr))) \<le> 255"
  shows "processInput os req received g =
     (if has_flag (loc_type loc) TYPE_TRY_FILES then handleTryFiles os (filled req received pr s loc)
      else if has_flag (loc_type loc) TYPE_PROXY_PASS then handleProxyPass os (filled req received pr s loc)
      else if has_flag (loc_type loc) TYPE_FASTCGI_PASS
      then handleFastCGIPass os (filled req received pr s loc)
      else if verbIs (pr_verb pr) ''GET'' \<or> verbIs (pr_verb pr) ''HEAD''
      then handleGetVerb os (filled req received pr s loc)
      else sendErrorResponse os (filled req received pr s loc) 405 ''Method Not Allowed''
             (Some (pr_verb pr))) g"
  using assms
  by (simp add: processInput_parsed dispatch_def Let_def case_prod_beta io_simps filled_def)

lemma get_serves_file_run:
  assumes "received \<noteq> []" "length received < BUFF_SIZE"
    "parse_request (input_buffer received) = Inr (Some pr)"
    "pr_verb pr = ''GET'' \<or> pr_verb pr = ''HEAD''" "split_query (pr_path pr) = (path, query)"
    "getServerForHost (pr_host pr) g = Inr (Some s)" "server_live g s" "os_sane os"
    "getDocRoot os s path = Some loc" "loc_root loc = Some root"
    "length (cval root) + length path \<le> 255"
    "\<not> has_flag (loc_type loc) TYPE_TRY_FILES" "\<not> has_flag (loc_type loc) TYPE_PROXY_PASS"
    "\<not> has_flag (loc_type loc) TYPE_FASTCGI_PASS"
    "file = join_path (cval root) path" "os_stat os file = Some sb" "\<not> st_isDir sb"
    "os_open os file = fd" "fd \<noteq> -1" "getMimeType g file = Inr mt"
    "length (fmt_s (getVersion g)) \<le> 100" "sz = to_int32 (int (os_fsize os fd))"
    "length (access_line os (req\<lparr>req_path := Some path\<rparr>) s (pr_verb pr) 200 sz) < BUFF_SIZE"
  shows "processInput os req received g =
     (Send (req_clientFd req) (req_ssl req)
        (file_headers (fmt_s (getVersion g)) (time_of os RESPONSE_FORMAT) mt sz) #
      (if pr_verb pr = ''GET''
       then [SendFile (req_clientFd req) (req_ssl req) fd (os_fsize os fd)] else []) @
      [WriteLog (access_log_fd g s)
         (access_line os (req\<lparr>req_path := Some path\<rparr>) s (pr_verb pr) 200 sz), Close fd],
      Inr ((), g))"
proof -
  let ?r = "(filled req received pr s loc)\<lparr>req_fullPath := Some file, req_isDir := False,
      req_localFd := fd\<rparr>"
  have path: "fst (split_query (pr_path pr)) = path" using assms(5) by simp
  have "processInput os req received g = handleGetVerb os (filled req received pr s loc) g"
    using dispatch_located [of received pr g s os loc root req] assms(1-4,6,9-14) path
    by (auto simp: verbIs_def)
  also have "\<dots> = serveFile os ?r g"
  proof -
    have "length file < FULL_PATH"
      using assms(11,15) by (simp add: join_path_def FULL_PATH_def)
    then have "pathExists os (filled req received pr s loc) (Some path) =
        Inr ((filled req received pr s loc)\<lparr>req_fullPath := Some file, req_isDir := False\<rparr>, 1)"
      using assms(10,15-17) by (simp add: pathExists_def filled_def Let_def)
    moreover have "req_path (filled req received pr s loc) = Some path"
      by (simp add: filled_def path)
    ultimately show ?thesis
      using assms(18,19) by (simp add: handleGetVerb_def io_simps Let_def)
  qed
  also have "\<dots> = (Send (req_clientFd ?r) (req_ssl ?r)
        (file_headers (fmt_s (getVersion g)) (time_of os RESPONSE_FORMAT) mt sz) #
      (if pr_verb pr = ''GET''
       then [SendFile (req_clientFd ?r) (req_ssl ?r) (req_localFd ?r)
               (os_fsize os (req_localFd ?r))] else []) @
      [WriteLog (access_log_fd g s) (access_line os ?r s (pr_verb pr) 200 sz),
       Close (req_localFd ?r)], Inr ((), g))"
  proof (rule serveFile_run [OF assms(8,7)])
    show "length (access_line os ?r s (pr_verb pr) 200 sz) < BUFF_SIZE"
      using assms(23) by (simp add: access_line_def filled_def path)
  qed (use assms in \<open>auto simp: filled_def\<close>)
  finally show ?thesis by (simp add: filled_def access_line_def path)
qed

text \<open>C4: A \<open>GET\<close> or \<open>HEAD\<close> request for a readable plain file of a location without
  other duties is answered with that file: from the bytes of the request to the bytes of the
  response, through the parser, the choice of server and location, and the file lookup.\<close>

theorem get_serves_file:
  assumes "received \<noteq> []" "length received < BUFF_SIZE"
    "parse_request (input_buffer received) = Inr (Some pr)"
    "pr_verb pr = ''GET'' \<or> pr_verb pr = ''HEAD''" "split_query (pr_path pr) = (path, query)"
    "getServerForHost (pr_host pr) g = Inr (Some s)" "server_live g s" "os_sane os"
    "getDocRoot os s path = Some loc" "loc_root loc = Some root"
    "length (cval root) + length path \<le> 255"
    "\<not> has_flag (loc_type loc) TYPE_TRY_FILES" "\<not> has_flag (loc_type loc) TYPE_PROXY_PASS"
    "\<not> has_flag (loc_type loc) TYPE_FASTCGI_PASS"
    "file = join_path (cval root) path" "os_stat os file = Some sb" "\<not> st_isDir sb"
    "os_open os file = fd" "fd \<noteq> -1" "getMimeType g file = Inr mt"
    "length (fmt_s (getVersion g)) \<le> 100" "sz = to_int32 (int (os_fsize os fd))"
    "length (access_line os (req\<lparr>req_path := Some path\<rparr>) s (pr_verb pr) 200 sz) < BUFF_SIZE"
  shows "processInput os req received g =
     (Send (req_clientFd req) (req_ssl req)
        (file_headers (fmt_s (getVersion g)) (time_of os RESPONSE_FORMAT) mt sz) #
      (if pr_verb pr = ''GET''
       then [SendFile (req_clientFd req) (req_ssl req) fd (os_fsize os fd)] else []) @
      [WriteLog (access_log_fd g s)
         (access_line os (req\<lparr>req_path := Some path\<rparr>) s (pr_verb pr) 200 sz), Close fd],
      Inr ((), g))"
  using assms by (rule get_serves_file_run)

section \<open>Where a request stops the server\<close>

text \<open>C29: A request without a \<open>Host: \<close> anywhere behind its request line stops the worker
  before any response: a null pointer is written through. So does a request line with a single
  blank.\<close>

theorem request_without_host_stops:
  assumes "NUL \<notin> set t" "length t + 8 \<le> BUFF_SIZE"
    "t = verb @ '' '' @ rest" "CHR '' '' \<notin> set verb"
    "CHR '' '' \<notin> set rest \<or> \<not> sublist ''Host: '' rest"
  shows "processInput os req t g = ([], Inl NullDeref)"
proof -
  have v: "cut_char (CHR '' '') t = Some (verb, rest)"
    using cut_char_append [OF assms(4)] by (simp add: assms(3))
  have "reference_parse t = Inl NullDeref"
  proof (cases "cut_char (CHR '' '') rest")
    case None
    then show ?thesis by (simp add: reference_parse_def v)
  next
    case (Some pq)
    obtain path q2 where pq: "pq = (path, q2)" by (cases pq)
    with Some have r: "rest = path @ CHR '' '' # q2" by (simp add: cut_char_Some)
    with assms(5) have "\<not> sublist ''Host: '' rest" by auto
    show ?thesis
    proof (cases "cut_char CR q2")
      case None
      with Some pq show ?thesis by (simp add: reference_parse_def v)
    next
      case (Some rq)
      obtain proto q3 where rq: "rq = (proto, q3)" by (cases rq)
      with Some have q2: "q2 = proto @ CR # q3" by (simp add: cut_char_Some)
      have "sublist (tl q3) q3" by (cases q3) (auto simp: sublist_Cons_right)
      also have "sublist q3 rest" unfolding r q2
        using sublist_appendI [of q3 "path @ CHR '' '' # proto @ [CR]" "[]"] by simp
      finally have "sublist (tl q3) rest" .
      with \<open>\<not> sublist ''Host: '' rest\<close> have "\<not> sublist ''Host: '' (tl q3)"
        using sublist_order.order_trans by blast
      then have "strstr (tl q3) ''Host: '' = None" by (subst strstr_None_iff) simp_all
      with Some rq \<open>cut_char (CHR '' '') rest = Some pq\<close> pq show ?thesis
        by (simp add: reference_parse_def v)
    qed
  qed
  then have "parse_request (input_buffer t) = Inl NullDeref"
    using parse_request_eq [OF assms(1,2)] by simp
  moreover have "0 < length t" "length t \<noteq> BUFF_SIZE" using assms(2,3) by auto
  ultimately show ?thesis by (simp add: processInput_def Let_def io_simps)
qed

lemma request_without_host_stops_witness:
  "processInput ex_os (new_request ex_srv 7 False) (''GET / HTTP/1.0'' @ crlf @ crlf) ex_state =
     ([], Inl NullDeref)"
proof (rule request_without_host_stops)
  show "''GET / HTTP/1.0'' @ crlf @ crlf = ''GET'' @ '' '' @ (''/ HTTP/1.0'' @ crlf @ crlf)"
    by simp
  have "strstr (''/ HTTP/1.0'' @ crlf @ crlf) ''Host: '' = None" by code_simp
  then show "CHR '' '' \<notin> set (''/ HTTP/1.0'' @ crlf @ crlf) \<or>
      \<not> sublist ''Host: '' (''/ HTTP/1.0'' @ crlf @ crlf)"
    by (subst (asm) strstr_None_iff) simp_all
qed (simp_all add: crlf_def BUFF_SIZE_def)

text \<open>C30: A \<open>try_files\<close> of a format other than \<open>$uri $uri/ /file\<close> is answered with a 404
  and then handled all the same: for a readable plain file the client gets the file as a second
  response on the same connection, and for a missing file the worker follows a null pointer.\<close>

theorem try_files_unknown_format:
  assumes "req_loc req = Some loc" "loc_root loc = Some root" "req_path req = Some path"
    "checkTryFilesFormat loc = None" "\<not> has_flag (loc_type loc) TYPE_PROXY_PASS"
    "os_sane os" "server_live g s" "req_server req = Some s"
    "length (cval root) + length path \<le> 255" "length (fmt_s (getVersion g)) \<le> 100"
    "length (error_line os req s 404 (Some path) ''Not Found'') < BUFF_SIZE"
    "file = join_path (cval root) path"
    "os_stat os file = None \<or> (\<exists>sb. os_stat os file = Some sb \<and> \<not> st_isDir sb) \<and> os_open os file \<noteq> -1"
  shows "handleTryFiles os req g =
     (let g1 = g\<lparr>g_tryTarget := None\<rparr>;
          first = error_sends os g req 404 ''Not Found'' @
            [WriteLog (error_log_fd g s) (error_line os req s 404 (Some path) ''Not Found'')];
          req1 = req\<lparr>req_isDir := False, req_fullPath := Some file, req_localFd := os_open os file\<rparr>
      in if os_stat os file = None then (first, Inl NullDeref)
         else (first @ fst (serveFile os req1 g1), snd (serveFile os req1 g1)))"
proof -
  let ?g = "g\<lparr>g_tryTarget := None\<rparr>"
  let ?first = "error_sends os g req 404 ''Not Found'' @
      [WriteLog (error_log_fd g s) (error_line os req s 404 (Some path) ''Not Found'')]"
  have live: "server_live ?g s" using assms(7) by (simp add: server_live_def)
  have v: "getVersion ?g = getVersion g" by (simp add: getVersion_def)
  have "sendErrorResponse os req 404 ''Not Found'' (Some path) ?g =
      (error_sends os ?g req 404 ''Not Found'' @
        [WriteLog (error_log_fd ?g s) (error_line os req s 404 (Some path) ''Not Found'')], Inr ((), ?g))"
    using error_response_run [OF assms(6) live assms(8), of 404 "''Not Found''" "Some path"]
      assms(10,11) by (simp add: v Let_def)
  then have err: "sendErrorResponse os req 404 ''Not Found'' (Some path) ?g = (?first, Inr ((), ?g))"
    by (simp add: error_sends_def v error_log_fd_def)
  note step = bind_io_ok [of "sendErrorResponse os req 404 ''Not Found'' (Some path)", OF err]
  have len: "length file < FULL_PATH"
    using assms(9,12) by (simp add: join_path_def FULL_PATH_def)
  show ?thesis
  proof (cases "os_stat os file")
    case None
    then have "pathExists os (req\<lparr>req_isDir := False\<rparr>) (Some path) =
        Inr (req\<lparr>req_isDir := False, req_fullPath := Some file\<rparr>, -1)"
      using assms(1,2,12) len by (simp add: pathExists_def Let_def)
    with None show ?thesis
      by (simp add: handleTryFiles_def assms(1,3,4,5) io_simps Let_def step serveDefaultFile_def)
  next
    case (Some sb)
    with assms(13) have "\<not> st_isDir sb" "os_open os file \<noteq> -1" by auto
    with Some have "pathExists os (req\<lparr>req_isDir := False\<rparr>) (Some path) =
        Inr (req\<lparr>req_isDir := False, req_fullPath := Some file\<rparr>, 1)"
      using assms(1,2,12) len by (simp add: pathExists_def Let_def)
    with Some \<open>os_open os file \<noteq> -1\<close> show ?thesis
      by (simp add: handleTryFiles_def assms(1,3,4,5) io_simps Let_def step)
  qed
qed

lemma try_files_unknown_format_witness:
  "snd (handleTryFiles ex_os (ex_req ''GET'' ''/b.txt'') ex_state) = Inl NullDeref"
proof -
  let ?r = "ex_req ''GET'' ''/b.txt''"
  have f: "checkTryFilesFormat ex_location = None" "loc_root ex_location = Some (Heap ''/srv'')"
    "\<not> has_flag (loc_type ex_location) TYPE_PROXY_PASS"
    by code_simp+
  have l: "length (error_line ex_os ?r ex_srv 404 (Some ''/b.txt'') ''Not Found'') < BUFF_SIZE"
    by (simp add: ex_line_defs)
  have n: "os_stat ex_os (join_path (cval (Heap ''/srv'')) ''/b.txt'') = None"
    by (simp add: ex_os_def join_path_def)
  from try_files_unknown_format [OF ex_simps(8) f(2) ex_simps(6) f(1,3) ex_sane ex_live
      ex_simps(4) _ _ l refl] n
  show ?thesis by (simp add: ex_version Let_def)
qed

section \<open>Concrete runs\<close>

text \<open>An empty request is answered whenever the error line fits its buffer.\<close>

lemma empty_request_run:
  assumes "os_sane os" "server_live g srv" "length (fmt_s (getVersion g)) \<le> 100"
    and "length (error_line os (new_request srv fd ssl) srv 400 (Some ''No data'') ''Bad Request'') \<le> BUFF_SIZE"
  shows "\<exists>as. processInput os (new_request srv fd ssl) [] g = (as, Inr ((), g))"
proof -
  let ?r = "new_request srv fd ssl"
  let ?l = "error_line os ?r srv 400 (Some ''No data'') ''Bad Request''"
  from assms(4) have l: "length ?l < BUFF_SIZE \<or> length ?l = BUFF_SIZE" by linarith
  have "req_server ?r = Some srv" by (simp add: new_request_def)
  from error_response_run [OF assms(1,2) this, of 400 "''Bad Request''" "Some ''No data''"] assms(3) l
  have "\<exists>as. sendErrorResponse os ?r 400 ''Bad Request'' (Some ''No data'') g = (as, Inr ((), g))"
    by (auto simp: Let_def)
  then show ?thesis by (simp add: processInput_def BUFF_SIZE_def)
qed

lemma ex_empty_line:
  "length (error_line ex_os (new_request ex_srv fd ssl) ex_srv 400 (Some ''No data'') ''Bad Request'') \<le> BUFF_SIZE"
  by (simp add: ex_line_defs new_request_def fmt_s_def)

lemma ex_empty_run:
  "processInput ex_os (new_request ex_srv 7 False) [] ex_state =
      (fst (processInput ex_os (new_request ex_srv 7 False) [] ex_state), Inr ((), ex_state))"
  using empty_request_run [OF ex_sane ex_live _ ex_empty_line, of 7 False] ex_version by auto



definition ex_get :: string where
  "ex_get = ''GET /a.txt HTTP/1.1'' @ crlf @ ''Host: a.org'' @ crlf @ crlf"

lemma get_serves_file_witness:
  "sent_to 7 (fst (processInput ex_os (new_request ex_srv 7 False) ex_get ex_state)) =
     [file_headers ''0.1'' ''20230401'' ''text/plain'' 5]"
proof -
  let ?r = "new_request ex_srv 7 False"
  let ?pr = "\<lparr>pr_verb = ''GET'', pr_path = ''/a.txt'', pr_protocol = ''HTTP/1.1'', pr_host = ''a.org''\<rparr>"
  have "reference_parse ex_get = Inr (Some ?pr)" by code_simp
  then have p: "parse_request (input_buffer ex_get) = Inr (Some ?pr)"
    by (subst parse_request_eq) (simp_all add: ex_get_def crlf_def BUFF_SIZE_def)
  have s: "getServerForHost (pr_host ?pr) ex_state = Inr (Some ex_srv)" by code_simp
  have d: "getDocRoot ex_os ex_srv ''/a.txt'' = Some ex_location" by code_simp
  have q: "split_query (pr_path ?pr) = (''/a.txt'', None)" by code_simp
  have f: "loc_root ex_location = Some (Heap ''/srv'')"
    "\<not> has_flag (loc_type ex_location) TYPE_TRY_FILES"
    "\<not> has_flag (loc_type ex_location) TYPE_PROXY_PASS"
    "\<not> has_flag (loc_type ex_location) TYPE_FASTCGI_PASS"
    by code_simp+
  have st: "os_stat ex_os ''/srv/a.txt'' = Some \<lparr>st_isDir = False, st_size = 5\<rparr>"
    "os_open ex_os ''/srv/a.txt'' = 9" by (simp_all add: ex_os_def)
  have l: "length (access_line ex_os (?r\<lparr>req_path := Some ''/a.txt''\<rparr>) ex_srv (pr_verb ?pr) 200 5) < BUFF_SIZE"
    by (simp add: ex_line_defs new_request_def)
  have "processInput ex_os ?r ex_get ex_state =
     (Send (req_clientFd ?r) (req_ssl ?r)
        (file_headers (fmt_s (getVersion ex_state)) (time_of ex_os RESPONSE_FORMAT) ''text/plain'' 5) #
      (if pr_verb ?pr = ''GET''
       then [SendFile (req_clientFd ?r) (req_ssl ?r) 9 (os_fsize ex_os 9)] else []) @
      [WriteLog (access_log_fd ex_state ex_srv)
         (access_line ex_os (?r\<lparr>req_path := Some ''/a.txt''\<rparr>) ex_srv (pr_verb ?pr) 200 5), Close 9],
      Inr ((), ex_state))"
    by (rule get_serves_file [OF _ _ p _ q s ex_live ex_sane d f(1) _ f(2-4) _ st(1) _ st(2) _ ex_mime _ _ l])
      (simp_all add: ex_get_def crlf_def BUFF_SIZE_def join_path_def ex_version ex_simps to_int32_id)
  then show ?thesis by (simp add: ex_version ex_simps new_request_def)
qed

end
