(* ===== verification/OG_Mime.thy ===== *)
theory OG_Mime
  imports OG_Response
begin

text \<open>
  \<^verbatim>\<open>parseMimeTypes.c\<close>: the parser of the \<^verbatim>\<open>mime.types\<close> file, on the text of the file up to
  its first NUL (every scan of the code stops there). The state gains one entry per extension.
  A renderer in the format that the file's comment describes gives the round trip.
\<close>

section \<open>The parser\<close>

definition saveMimeType :: "string \<Rightarrow> string \<Rightarrow> gstate \<Rightarrow> gstate" where
  "saveMimeType extension mimeType =
     setMimeTypeList \<lparr>mt_mimeType = mimeType, mt_extension = extension\<rparr>"

text \<open>The extensions of a line: the pieces between single blanks, empty ones included.\<close>

fun split_blank :: "string \<Rightarrow> string list" where
  "split_blank [] = [[]]"
| "split_blank (c # cs) =
     (if c = CHR '' '' then [] # split_blank cs
      else case split_blank cs of [] \<Rightarrow> [[c]] | p # ps \<Rightarrow> (c # p) # ps)"

text \<open>The tab that ends the mime type is looked for in the whole rest of the file, and only if
  there is none the blank is tried.\<close>

definition cut_type :: "string \<Rightarrow> (string \<times> string) option" where
  "cut_type p = (case cut_char TAB p of Some r \<Rightarrow> Some r | None \<Rightarrow> cut_char (CHR '' '') p)"

definition parseLine :: "string \<Rightarrow> gstate \<Rightarrow> (string \<times> gstate) res" where
  "parseLine p g =
     (case cut_type p of
        None \<Rightarrow> Inl (Exit 1)
      | Some (mimeType, q) \<Rightarrow>
          let p1 = dropWhile (\<lambda>c. c = CHR '' '' \<or> c = TAB) q in
          if p1 = [] then Inl (Exit 1)
          else (case cut_char (CHR '';'') p1 of
              None \<Rightarrow> Inl (Exit 1)
            | Some (line, endOfLine) \<Rightarrow>
                Inr (endOfLine, fold (\<lambda>e. saveMimeType e mimeType) (split_blank line) g)))"

lemma cut_char_shorter: "cut_char c t = Some (a, b) \<Longrightarrow> length b < length t"
  by (auto simp: cut_char_Some)

lemma cut_type_shorter: "cut_type t = Some (a, b) \<Longrightarrow> length b < length t"
  by (auto simp: cut_type_def dest: cut_char_shorter split: option.splits)

lemma parseLine_shorter: "parseLine p g = Inr (r, g') \<Longrightarrow> length r < length p"
proof -
  assume "parseLine p g = Inr (r, g')"
  then obtain mt q line where c: "cut_type p = Some (mt, q)"
    "cut_char (CHR '';'') (dropWhile (\<lambda>c. c = CHR '' '' \<or> c = TAB) q) = Some (line, r)"
    by (auto simp: parseLine_def Let_def split: option.splits if_splits)
  from cut_char_shorter [OF c(2)] have "length r < length q"
    using length_dropWhile_le [of "\<lambda>c. c = CHR '' '' \<or> c = TAB" q] by linarith
  with cut_type_shorter [OF c(1)] show ?thesis by linarith
qed

text \<open>The loop over the lines. Its result is the state when the closing brace is reached.\<close>

function parse_types :: "string \<Rightarrow> gstate \<Rightarrow> gstate res" where
  "parse_types p g =
     (if p \<noteq> [] \<and> hd p = CHR ''}'' then Inr g
      else let p1 = dropWhile (\<lambda>c. c = CHR '' '' \<or> c = LF) p in
        if p1 = [] then Inl (Exit 1)
        else if hd p1 \<noteq> CHR ''}'' then
          (case parseLine p1 g of
             Inl e \<Rightarrow> Inl e
           | Inr (p2, g1) \<Rightarrow> parse_types p2 g1)
        else Inr g)"
  by pat_completeness auto

termination
proof (relation "measure (\<lambda>(p, g). length p)")
  fix p :: string and g :: gstate and p1 q p2 g1
  assume "p1 = dropWhile (\<lambda>c. c = CHR '' '' \<or> c = LF) p" "parseLine p1 g = Inr q" "(p2, g1) = q"
  then have "length p2 < length p1" using parseLine_shorter by metis
  also have "length p1 \<le> length p"
    using \<open>p1 = dropWhile _ p\<close> by (simp add: length_dropWhile_le)
  finally show "((p2, g1), p, g) \<in> measure (\<lambda>(p, g). length p)" by simp
qed simp

declare parse_types.simps [simp del]

text \<open>\<open>file path\<close> is the text of a file, \<open>None\<close> if it cannot be opened.\<close>

definition parseMimeTypes :: "(string \<Rightarrow> string option) \<Rightarrow> gstate \<Rightarrow> gstate res" where
  "parseMimeTypes file g =
     bind_res (deref (getConfigFile g)) (\<lambda>configFile.
     bind_res (deref (strrchr configFile (CHR ''/''))) (\<lambda>p.
     case file (take (length configFile - length p) configFile @ ''/mime.types'') of
       None \<Rightarrow> Inl (Exit 1)
     | Some text \<Rightarrow>
         (case cut_char (CHR ''{'') (takeWhile (\<lambda>c. c \<noteq> NUL) text) of
            None \<Rightarrow> Inl (Exit 1)
          | Some (_, p) \<Rightarrow> parse_types p g)))"

section \<open>The format\<close>

text \<open>A line: a mime type and its extensions.\<close>

definition render_line :: "string \<times> string list \<Rightarrow> string" where
  "render_line l = (case l of (mt, exts) \<Rightarrow>
     mt @ [TAB] @ hd exts @ concat (map (\<lambda>e. '' '' @ e) (tl exts)) @ '';'' @ [LF])"

definition render_types :: "(string \<times> string list) list \<Rightarrow> string" where
  "render_types ls = ''types {'' @ [LF] @ concat (map render_line ls) @ ''}'' @ [LF]"

definition entries :: "string \<times> string list \<Rightarrow> mime_type list" where
  "entries l = (case l of (mt, exts) \<Rightarrow> map (\<lambda>e. \<lparr>mt_mimeType = mt, mt_extension = e\<rparr>) exts)"

definition plain_word :: "string \<Rightarrow> bool" where
  "plain_word w =
     (w \<noteq> [] \<and> list_all (\<lambda>c. c \<notin> {CHR '' '', TAB, LF, CHR '';'', CHR ''{'', CHR ''}'', NUL}) w)"

definition plain_line :: "string \<times> string list \<Rightarrow> bool" where
  "plain_line l = (case l of (mt, exts) \<Rightarrow> plain_word mt \<and> exts \<noteq> [] \<and> list_all plain_word exts)"

lemma split_blank_word:
  "CHR '' '' \<notin> set w \<Longrightarrow> split_blank (w @ concat (map (\<lambda>e. '' '' @ e) es)) =
     (if es = [] then [w] else w # split_blank (tl (concat (map (\<lambda>e. '' '' @ e) es))))"
  by (induction w) (auto simp: neq_Nil_conv)

lemma split_blank_words:
  "CHR '' '' \<notin> set w \<Longrightarrow> list_all (\<lambda>e. CHR '' '' \<notin> set e) es \<Longrightarrow>
   split_blank (w @ concat (map (\<lambda>e. '' '' @ e) es)) = w # es"
proof (induction es arbitrary: w)
  case Nil
  then show ?case using split_blank_word [of w "[]"] by simp
next
  case (Cons e es)
  then have "split_blank (e @ concat (map (\<lambda>e. '' '' @ e) es)) = e # es" by simp
  with split_blank_word [OF Cons.prems(1), of "e # es"] show ?case by simp
qed

lemma save_all:
  "g_mimeTypes (fold (\<lambda>e. saveMimeType e mt) es g) = g_mimeTypes g @ entries (mt, es) \<and>
   fold (\<lambda>e. saveMimeType e mt) es g = g\<lparr>g_mimeTypes := g_mimeTypes g @ entries (mt, es)\<rparr>"
  by (induction es arbitrary: g) (simp_all add: saveMimeType_def setMimeTypeList_def entries_def)

lemma plain_wordD:
  "plain_word w \<Longrightarrow> w \<noteq> [] \<and> CHR '' '' \<notin> set w \<and> TAB \<notin> set w \<and> LF \<notin> set w \<and>
     CHR '';'' \<notin> set w \<and> CHR ''{'' \<notin> set w \<and> CHR ''}'' \<notin> set w \<and> NUL \<notin> set w"
  by (auto simp: plain_word_def list_all_iff)

lemma parseLine_core:
  assumes mt: "TAB \<notin> set mt" and ne: "exts \<noteq> []" and plain: "list_all plain_word exts"
  shows "parseLine (mt @ [TAB] @ (hd exts @ concat (map (\<lambda>e. '' '' @ e) (tl exts))) @ '';'' @ rest) g =
     Inr (rest, g\<lparr>g_mimeTypes := g_mimeTypes g @ entries (mt, exts)\<rparr>)"
proof -
  from ne obtain e es where ex: "exts = e # es" by (cases exts) auto
  let ?b = "concat (map (\<lambda>e. '' '' @ e) es)"
  have ew: "plain_word e" "list_all plain_word es" using plain by (simp_all add: ex)
  note pe = plain_wordD [OF ew(1)]
  have pes: "list_all (\<lambda>e. CHR '' '' \<notin> set e) es" "CHR '';'' \<notin> set ?b"
    using ew(2) by (induction es) (auto dest: plain_wordD)
  have shape: "mt @ [TAB] @ (hd exts @ concat (map (\<lambda>e. '' '' @ e) (tl exts))) @ '';'' @ rest =
      mt @ TAB # ((e @ ?b) @ CHR '';'' # rest)"
    by (simp add: ex)
  from pe obtain c cs where e: "e = c # cs" by (cases e) auto
  with pe have "c \<noteq> CHR '' ''" "c \<noteq> TAB" by auto
  then have dw: "dropWhile (\<lambda>c. c = CHR '' '' \<or> c = TAB) ((e @ ?b) @ CHR '';'' # rest) =
      (e @ ?b) @ CHR '';'' # rest" by (simp add: e)
  have semi: "cut_char (CHR '';'') ((e @ ?b) @ CHR '';'' # rest) = Some (e @ ?b, rest)"
    using pe pes(2) by (intro cut_char_append) simp
  have tab: "cut_type (mt @ TAB # ((e @ ?b) @ CHR '';'' # rest)) =
      Some (mt, (e @ ?b) @ CHR '';'' # rest)"
    using cut_char_append [OF mt] by (simp add: cut_type_def)
  have sp: "split_blank (e @ ?b) = exts" using split_blank_words pe pes(1) ex by simp
  show ?thesis
    unfolding shape parseLine_def tab option.case prod.case Let_def dw semi sp
    using save_all [of mt exts g] by (simp add: e)
qed

lemma parseLine_render:
  assumes "TAB \<notin> set mt" and "exts \<noteq> []" and "list_all plain_word exts"
  shows "parseLine (render_line (mt, exts) @ rest) g =
     Inr (LF # rest, g\<lparr>g_mimeTypes := g_mimeTypes g @ entries (mt, exts)\<rparr>)"
  using parseLine_core [OF assms, of "LF # rest" g] by (simp add: render_line_def)

lemma parse_types_blank: "parse_types (LF # p) g = (if p = [] then Inl (Exit 1) else parse_types p g)"
  by (subst (1 2) parse_types.simps) (cases p; simp)

lemma parse_types_line:
  assumes "c \<noteq> CHR '' ''" "c \<noteq> LF" "c \<noteq> CHR ''}''" "parseLine (c # p) g = Inr (LF # q, g1)" "q \<noteq> []"
  shows "parse_types (c # p) g = parse_types q g1"
  using assms by (subst parse_types.simps) (simp add: parse_types_blank)

lemma parse_types_render:
  "list_all plain_line ls \<Longrightarrow>
   parse_types (concat (map render_line ls) @ ''}'' @ rest) g =
     Inr (g\<lparr>g_mimeTypes := g_mimeTypes g @ concat (map entries ls)\<rparr>)"
proof (induction ls arbitrary: g)
  case Nil
  then show ?case by (simp add: parse_types.simps)
next
  case (Cons l ls)
  obtain mt exts where l: "l = (mt, exts)" by (cases l)
  with Cons.prems have pl: "plain_line (mt, exts)" and pm: "plain_word mt"
    by (simp_all add: plain_line_def)
  from plain_wordD [OF pm] obtain c cs where mt: "mt = c # cs" "c \<noteq> CHR '' ''" "c \<noteq> LF" "c \<noteq> CHR ''}''"
    by (cases mt) auto
  let ?rest = "concat (map render_line ls) @ ''}'' @ rest"
  obtain t where r: "render_line (mt, exts) @ ?rest = c # t"
    by (simp add: render_line_def mt(1))
  have "parse_types (c # t) g =
      parse_types ?rest (g\<lparr>g_mimeTypes := g_mimeTypes g @ entries (mt, exts)\<rparr>)"
    by (rule parse_types_line [OF mt(2-4)], unfold r [symmetric], rule parseLine_render)
      (use pl plain_wordD [OF pm] in \<open>simp_all add: plain_line_def\<close>)
  with Cons show ?case by (simp add: l flip: r)
qed

text \<open>What a file in this format declares for an extension: the type of its first line.\<close>

definition declared_type :: "(string \<times> string list) list \<Rightarrow> string \<Rightarrow> string option" where
  "declared_type ls e = map_option fst (find (\<lambda>l. e \<in> set (snd l)) ls)"

lemma find_mime_append:
  "find_mime e (ms @ ns) = (case find_mime e ms of Some t \<Rightarrow> Some t | None \<Rightarrow> find_mime e ns)"
  by (induction ms) auto

lemma find_mime_entries: "find_mime e (entries (mt, es)) = (if e \<in> set es then Some mt else None)"
  by (induction es) (auto simp: entries_def)

lemma find_mime_declared: "find_mime e (concat (map entries ls)) = declared_type ls e"
proof (induction ls)
  case Nil
  then show ?case by (simp add: declared_type_def)
next
  case (Cons l ls)
  then show ?case by (cases l) (simp add: find_mime_append find_mime_entries declared_type_def)
qed

lemma render_types_no_NUL: "list_all plain_line ls \<Longrightarrow> NUL \<notin> set (render_types ls)"
proof -
  assume "list_all plain_line ls"
  then have "NUL \<notin> set (concat (map render_line ls))"
  proof (induction ls)
    case (Cons l ls)
    obtain mt e es where l: "l = (mt, e # es)" and p: "plain_word mt" "plain_word e" "list_all plain_word es"
      using Cons.prems by (cases l; cases "snd l") (auto simp: plain_line_def)
    have "NUL \<notin> set (concat (map (\<lambda>e. '' '' @ e) es))"
      using p(3) by (induction es) (auto dest: plain_wordD)
    with Cons p(1,2) show ?case by (auto simp: l render_line_def dest: plain_wordD)
  qed simp
  then show ?thesis by (simp add: render_types_def)
qed

lemma takeWhile_no: "c \<notin> set s \<Longrightarrow> takeWhile (\<lambda>x. x \<noteq> c) s = s"
  by (induction s) auto

lemma parseMimeTypes_eq:
  assumes "getConfigFile g = Some (dir @ CHR ''/'' # base)" and "CHR ''/'' \<notin> set base"
    and "file (dir @ ''/mime.types'') = Some (''types {'' @ body)" and "NUL \<notin> set body"
  shows "parseMimeTypes file g = parse_types body g"
proof -
  have "cut_char (CHR ''{'') (''types {'' @ body) = Some (''types '', body)" by simp
  moreover have "takeWhile (\<lambda>c. c \<noteq> NUL) body = body"
    using assms(4) by (rule takeWhile_no)
  ultimately show ?thesis
    using assms(1-3) by (simp add: parseMimeTypes_def deref_def res_simps del: takeWhile_eq_all_conv)
qed

lemma mime_run:
  assumes "getConfigFile g = Some (dir @ CHR ''/'' # base)" and "CHR ''/'' \<notin> set base"
    and "file (dir @ ''/mime.types'') = Some (render_types ls)" and "list_all plain_line ls"
  shows "parseMimeTypes file g = Inr (g\<lparr>g_mimeTypes := g_mimeTypes g @ concat (map entries ls)\<rparr>)"
proof -
  let ?b = "concat (map render_line ls) @ ''}'' @ [LF]"
  have r: "render_types ls = ''types {'' @ LF # ?b" by (simp add: render_types_def)
  then have "NUL \<notin> set (LF # ?b)" using render_types_no_NUL [OF assms(4)] by simp
  then have "parseMimeTypes file g = parse_types (LF # ?b) g"
    using assms r by (intro parseMimeTypes_eq) simp_all
  also have "\<dots> = parse_types ?b g" by (simp add: parse_types_blank)
  finally show ?thesis using parse_types_render [OF assms(4), of "[LF]" g] by simp
qed

text \<open>C25: A file in the documented format with a tab after each mime type is read completely:
  the list gains one entry per extension, in the order of the file, and looking up an extension
  (the loop of \<^verbatim>\<open>getMimeType\<close>) then gives the type of the first line that declares it.\<close>

theorem mime_types_roundtrip:
  assumes "getConfigFile g = Some (dir @ CHR ''/'' # base)" and "CHR ''/'' \<notin> set base"
    and "file (dir @ ''/mime.types'') = Some (render_types ls)" and "list_all plain_line ls"
    and "getMimeTypeList g = []"
  shows "\<exists>g'. parseMimeTypes file g = Inr g' \<and> getMimeTypeList g' = concat (map entries ls) \<and>
           (\<forall>e. find_mime e (getMimeTypeList g') = declared_type ls e)"
proof -
  have "parseMimeTypes file g = Inr (g\<lparr>g_mimeTypes := g_mimeTypes g @ concat (map entries ls)\<rparr>)"
    by (rule mime_run [OF assms(1,2) _ assms(4)]) (rule assms(3))
  with assms(5) show ?thesis by (simp add: find_mime_declared)
qed

definition ex_mime :: "string \<Rightarrow> string option" where
  "ex_mime f = (if f = ''/etc/mime.types''
     then Some (render_types [(''text/html'', [''html'', ''htm'']), (''text/css'', [''css''])]) else None)"

lemma mime_types_roundtrip_witness:
  "\<exists>g'. parseMimeTypes ex_mime (initial_state\<lparr>g_configFile := Some ''/etc/ogws.conf''\<rparr>) = Inr g' \<and>
     find_mime ''htm'' (getMimeTypeList g') = Some ''text/html''"
proof -
  let ?ls = "[(''text/html'', [''html'', ''htm'']), (''text/css'', [''css''])]"
  let ?g = "initial_state\<lparr>g_configFile := Some ''/etc/ogws.conf''\<rparr>"
  have l: "list_all plain_line ?ls" and d: "declared_type ?ls ''htm'' = Some ''text/html''"
    by code_simp+
  have c: "getConfigFile ?g = Some (''/etc'' @ CHR ''/'' # ''ogws.conf'')"
    and s: "CHR ''/'' \<notin> set ''ogws.conf''"
    and f: "ex_mime (''/etc'' @ ''/mime.types'') = Some (render_types ?ls)"
    and e: "getMimeTypeList ?g = []"
    by (simp_all add: ex_mime_def initial_state_def)
  from mime_types_roundtrip [of ?g "''/etc''" "''ogws.conf''" ex_mime ?ls, OF c s f l e] d
  show ?thesis by metis
qed

text \<open>The blank that the documented format allows between the mime type and the extension is
  only honoured after the last tab of the file: a line whose type is followed by a blank is taken,
  with everything up to the tab of the next line, for the type of that next line, and its own
  extension is lost.\<close>

lemma mime_blank_joins_lines:
  assumes "plain_word mt1" and "plain_word e1" and "plain_word mt2" and "plain_word e2"
  shows "parseLine (mt1 @ '' '' @ e1 @ '';'' @ [LF] @ mt2 @ [TAB] @ e2 @ '';'' @ rest) g =
     Inr (rest, g\<lparr>g_mimeTypes := g_mimeTypes g @
       [\<lparr>mt_mimeType = mt1 @ '' '' @ e1 @ '';'' @ [LF] @ mt2, mt_extension = e2\<rparr>]\<rparr>)"
proof -
  let ?mt = "mt1 @ '' '' @ e1 @ '';'' @ [LF] @ mt2"
  have "TAB \<notin> set ?mt" using assms by (auto dest!: plain_wordD)
  then show ?thesis
    using parseLine_core [of ?mt "[e2]" rest g] assms(4) by (simp add: entries_def)
qed

lemma mime_blank_joins_lines_example:
  "parseLine (''text/css'' @ '' '' @ ''css'' @ '';'' @ [LF] @ ''text/xml'' @ [TAB] @ ''xml'' @ '';'' @ '''')
     initial_state =
   Inr ('''', initial_state\<lparr>g_mimeTypes := g_mimeTypes initial_state @
     [\<lparr>mt_mimeType = ''text/css'' @ '' '' @ ''css'' @ '';'' @ [LF] @ ''text/xml'', mt_extension = ''xml''\<rparr>]\<rparr>)"
  by (rule mime_blank_joins_lines; code_simp)

end
