(* ===== verification/OG_Include.thy ===== *)
theory OG_Include
  imports OG_State
begin

text \<open>
  \<^verbatim>\<open>expandIncludeFiles.c\<close>: the configuration file with its \<open>include\<close> directives
  replaced by the files they name, recursively. The file system is a parameter. The recursion of
  the code need not end, so the model takes the depth of nested calls as fuel, and the theory says
  for which files some fuel is enough.
\<close>

section \<open>Lines\<close>

text \<open>What \<open>getline\<close> returns, call by call: the pieces up to and with each line feed.\<close>

fun lines_of :: "string \<Rightarrow> string list" where
  "lines_of [] = []"
| "lines_of (c # cs) =
     (if c = LF then [LF] # lines_of cs
      else case lines_of cs of [] \<Rightarrow> [[c]] | l # ls \<Rightarrow> (c # l) # ls)"

lemma concat_lines_of: "concat (lines_of t) = t"
proof (induction t)
  case (Cons c cs)
  then show ?case by (cases "lines_of cs") auto
qed simp

text \<open>A complete line, and a text made of complete lines.\<close>

definition whole_line :: "string \<Rightarrow> bool" where
  "whole_line l = (\<exists>b. l = b @ [LF] \<and> LF \<notin> set b)"

lemma lines_of_whole: "whole_line l \<Longrightarrow> lines_of (l @ t) = l # lines_of t"
proof -
  assume "whole_line l"
  then obtain b where b: "l = b @ [LF]" "LF \<notin> set b" by (auto simp: whole_line_def)
  from b(2) have "lines_of (b @ LF # t) = (b @ [LF]) # lines_of t"
    by (induction b) auto
  with b(1) show ?thesis by simp
qed

lemma lines_of_concat: "list_all whole_line ls \<Longrightarrow> lines_of (concat ls) = ls"
  by (induction ls) (auto simp: lines_of_whole)

section \<open>The expansion\<close>

definition blank :: "char \<Rightarrow> bool" where
  "blank c = (c = CHR '' '' \<or> c = TAB)"

text \<open>
  The line as a C string: \<open>None\<close> if it is no \<open>include\<close> directive, \<open>Some None\<close> if it
  is one without a semicolon, else the file it names. The keyword is only compared as a prefix.
\<close>

definition include_of :: "string \<Rightarrow> string option option" where
  "include_of line =
     (let p = dropWhile blank line in
      if strncmp0 7 p ''include'' then
        Some (map_option fst (cut_char (CHR '';'') (dropWhile blank (drop 7 p))))
      else None)"

definition include_path :: "string option \<Rightarrow> string \<Rightarrow> string res" where
  "include_path dir file =
     (if file \<noteq> [] \<and> hd file = CHR ''/'' then Inr file
      else bind_res (deref dir) (\<lambda>d. Inr (d @ file)))"

text \<open>One line, with the recursive call as an argument; \<open>None\<close> if that call does not return.\<close>

definition expand_line ::
  "(string \<Rightarrow> string res option) \<Rightarrow> (string \<Rightarrow> string option) \<Rightarrow> string option \<Rightarrow> string \<Rightarrow> string res option"
  where
  "expand_line rec fopen dir raw =
     (let line = takeWhile (\<lambda>c. c \<noteq> NUL) raw in
      case include_of line of
        None \<Rightarrow> Some (Inr line)
      | Some None \<Rightarrow> Some (Inr [])
      | Some (Some file) \<Rightarrow>
          (case include_path dir file of
             Inl e \<Rightarrow> Some (Inl e)
           | Inr path \<Rightarrow> (case fopen path of None \<Rightarrow> Some (Inr []) | Some t \<Rightarrow> rec t)))"

fun expand_lines ::
  "(string \<Rightarrow> string res option) \<Rightarrow> (string \<Rightarrow> string option) \<Rightarrow> string option \<Rightarrow> string list \<Rightarrow> string res option"
  where
  "expand_lines rec fopen dir [] = Some (Inr [])"
| "expand_lines rec fopen dir (l # ls) =
     (case expand_line rec fopen dir l of
        None \<Rightarrow> None
      | Some (Inl e) \<Rightarrow> Some (Inl e)
      | Some (Inr out) \<Rightarrow>
          map_option (map_sum id ((@) out)) (expand_lines rec fopen dir ls))"

text \<open>\<open>expandFile n\<close> is the call with at most \<open>n\<close> nested calls left.\<close>

fun expandFile ::
  "nat \<Rightarrow> (string \<Rightarrow> string option) \<Rightarrow> string option \<Rightarrow> string \<Rightarrow> string res option" where
  "expandFile 0 fopen dir t = None"
| "expandFile (Suc n) fopen dir t =
     expand_lines (\<lambda>u. expandFile n fopen dir u) fopen dir (lines_of t)"

text \<open>\<open>tmp\<close> tells whether the temporary file can be created. The result is the text of the
  temporary file, which the parser then reads.\<close>

definition expandIncludeFiles ::
  "nat \<Rightarrow> (string \<Rightarrow> string option) \<Rightarrow> bool \<Rightarrow> gstate \<Rightarrow> string res option" where
  "expandIncludeFiles n fopen tmp g =
     (if \<not> tmp then Some (Inl (Exit 1))
      else (case getConfigFile g of
          None \<Rightarrow> Some (Inl NullDeref)
        | Some file \<Rightarrow>
            (case fopen file of
               None \<Rightarrow> Some (Inl (Exit 1))
             | Some t \<Rightarrow> expandFile n fopen (getConfigDir g) t)))"

section \<open>When the expansion ends\<close>

text \<open>The text \<open>u\<close> is included by a line of the text \<open>t\<close>.\<close>

definition included_by :: "(string \<Rightarrow> string option) \<Rightarrow> string \<Rightarrow> string \<Rightarrow> string \<Rightarrow> bool" where
  "included_by fopen d u t =
     (\<exists>l \<in> set (lines_of t). \<exists>file path.
        include_of (takeWhile (\<lambda>c. c \<noteq> NUL) l) = Some (Some file) \<and>
        include_path (Some d) file = Inr path \<and> fopen path = Some u)"

text \<open>\<open>finishes r\<close>: the call returned a text.\<close>

definition finishes :: "string res option \<Rightarrow> bool" where
  "finishes r = (\<exists>out. r = Some (Inr out))"

definition file_path :: "string \<Rightarrow> string \<Rightarrow> string" where
  "file_path d file = (if file \<noteq> [] \<and> hd file = CHR ''/'' then file else d @ file)"

lemma include_path_Some [simp]: "include_path (Some d) file = Inr (file_path d file)"
  by (simp add: include_path_def file_path_def)

lemma expand_line_finishes:
  "finishes (expand_line rec fopen (Some d) l) \<longleftrightarrow>
     (\<forall>file path u. include_of (takeWhile (\<lambda>c. c \<noteq> NUL) l) = Some (Some file) \<longrightarrow>
        include_path (Some d) file = Inr path \<longrightarrow> fopen path = Some u \<longrightarrow> finishes (rec u))"
  by (auto simp: expand_line_def finishes_def Let_def split: option.split)

lemma expand_lines_finishes:
  "finishes (expand_lines rec fopen dir ls) \<longleftrightarrow> (\<forall>l \<in> set ls. finishes (expand_line rec fopen dir l))"
proof (induction ls)
  case (Cons l ls)
  have "finishes (map_option (map_sum id ((@) out)) r) = finishes r" for out :: string and r
    by (cases r; cases "the r") (auto simp: finishes_def)
  with Cons show ?case
    by (cases "expand_line rec fopen dir l"; cases "the (expand_line rec fopen dir l)")
      (auto simp: finishes_def)
qed (simp add: finishes_def)

lemma expandFile_finishes:
  "finishes (expandFile (Suc n) fopen (Some d) t) \<longleftrightarrow>
     (\<forall>u. included_by fopen d u t \<longrightarrow> finishes (expandFile n fopen (Some d) u))"
  by (auto simp: expand_lines_finishes expand_line_finishes included_by_def)

lemma expandFile_more_finishes:
  "finishes (expandFile n fopen (Some d) t) \<Longrightarrow> finishes (expandFile (Suc n) fopen (Some d) t)"
proof (induction n arbitrary: t)
  case 0
  then show ?case by (simp add: finishes_def)
next
  case (Suc n)
  then show ?case using expandFile_finishes by blast
qed

text \<open>With more fuel a call that returns gives the same result.\<close>

lemma expand_lines_mono:
  assumes "expand_lines rec fopen dir ls = Some r"
    and "\<And>u r. rec u = Some r \<Longrightarrow> rec' u = Some r"
  shows "expand_lines rec' fopen dir ls = Some r"
  using assms(1)
proof (induction ls arbitrary: r)
  case (Cons l ls)
  have line: "expand_line rec fopen dir l = Some q \<Longrightarrow> expand_line rec' fopen dir l = Some q" for q
    by (auto simp: expand_line_def Let_def split: option.splits sum.splits intro: assms(2))
  from Cons show ?case
    by (auto split: option.splits sum.splits dest!: line)
qed simp

lemma expandFile_mono: "expandFile n fopen dir t = Some r \<Longrightarrow> expandFile (Suc n) fopen dir t = Some r"
proof (induction n arbitrary: t r)
  case (Suc n)
  then show ?case
    using expand_lines_mono [of "expandFile n fopen dir" fopen dir "lines_of t" r "expandFile (Suc n) fopen dir"]
    by simp
qed simp

lemma expandFile_mono_le: "n \<le> m \<Longrightarrow> expandFile n fopen dir t = Some r \<Longrightarrow> expandFile m fopen dir t = Some r"
  by (induction m rule: dec_induct) (blast intro: expandFile_mono)+

lemma finishes_mono:
  "finishes (expandFile n fopen (Some d) t) \<Longrightarrow> n \<le> m \<Longrightarrow> finishes (expandFile m fopen (Some d) t)"
  by (auto simp: finishes_def dest: expandFile_mono_le)

lemma finite_included: "finite {u. included_by fopen d u t}"
proof -
  have "{u. included_by fopen d u t} \<subseteq>
      (\<lambda>l. the (fopen (projr (include_path (Some d) (the (the (include_of (takeWhile (\<lambda>c. c \<noteq> NUL) l))))))))
        ` set (lines_of t)"
    by (force simp: included_by_def image_iff)
  then show ?thesis by (rule finite_subset) simp
qed

lemma finishes_if_acc:
  "Wellfounded.accp (included_by fopen d) t \<Longrightarrow> \<exists>n. finishes (expandFile n fopen (Some d) t)"
proof (induction rule: accp.induct)
  case (accI t)
  then obtain f where f: "\<And>u. included_by fopen d u t \<Longrightarrow> finishes (expandFile (f u) fopen (Some d) u)"
    by metis
  let ?m = "Max (insert 0 (f ` {u. included_by fopen d u t}))"
  have "included_by fopen d u t \<Longrightarrow> f u \<le> ?m" for u
    using finite_included [of fopen d t] by (intro Max_ge) auto
  with f have "included_by fopen d u t \<Longrightarrow> finishes (expandFile ?m fopen (Some d) u)" for u
    by (blast intro: finishes_mono)
  then have "finishes (expandFile (Suc ?m) fopen (Some d) t)" by (simp only: expandFile_finishes) blast
  then show ?case by blast
qed

lemma acc_if_finishes:
  "finishes (expandFile n fopen (Some d) t) \<Longrightarrow> Wellfounded.accp (included_by fopen d) t"
proof (induction n arbitrary: t)
  case (Suc n)
  then show ?case by (auto simp only: expandFile_finishes intro: accp.intros)
qed (simp add: finishes_def)

text \<open>C35: The expansion of a configuration ends exactly when no chain of \<open>include\<close> directives
  from it goes on forever: a text from which every chain of included texts is finite is expanded with
  some depth of nested calls, and every larger depth gives the same text; a file that includes itself,
  directly or through others, is expanded without end.\<close>

theorem include_terminates:
  "(\<exists>n out. expandFile n fopen (Some d) t = Some (Inr out) \<and>
      (\<forall>m \<ge> n. expandFile m fopen (Some d) t = Some (Inr out)))
   \<longleftrightarrow> Wellfounded.accp (included_by fopen d) t"
proof
  assume "\<exists>n out. expandFile n fopen (Some d) t = Some (Inr out) \<and>
      (\<forall>m \<ge> n. expandFile m fopen (Some d) t = Some (Inr out))"
  then have "\<exists>n. finishes (expandFile n fopen (Some d) t)" by (auto simp: finishes_def)
  then show "Wellfounded.accp (included_by fopen d) t" by (blast intro: acc_if_finishes)
next
  assume "Wellfounded.accp (included_by fopen d) t"
  then obtain n out where "expandFile n fopen (Some d) t = Some (Inr out)"
    using finishes_if_acc by (fastforce simp: finishes_def)
  then show "\<exists>n out. expandFile n fopen (Some d) t = Some (Inr out) \<and>
      (\<forall>m \<ge> n. expandFile m fopen (Some d) t = Some (Inr out))"
    by (blast intro: expandFile_mono_le)
qed

section \<open>What the expansion contains\<close>

text \<open>A line that the expansion copies.\<close>

definition copied :: "string \<Rightarrow> bool" where
  "copied l = (whole_line l \<and> NUL \<notin> set l \<and> include_of l = None)"

text \<open>A file that ends with a line feed and contains no NUL.\<close>

definition plain_file :: "string \<Rightarrow> bool" where
  "plain_file t = (NUL \<notin> set t \<and> list_all whole_line (lines_of t))"

lemma takeWhile_all: "x \<notin> set l \<Longrightarrow> takeWhile (\<lambda>c. c \<noteq> x) l = l"
  by (induction l) auto

lemma plain_file_lines: "plain_file t \<Longrightarrow> l \<in> set (lines_of t) \<Longrightarrow> whole_line l \<and> NUL \<notin> set l"
proof -
  assume p: "plain_file t" and l: "l \<in> set (lines_of t)"
  have "set l \<subseteq> set (concat (lines_of t))" using l by auto
  then have "set l \<subseteq> set t" by (simp only: concat_lines_of)
  with p l show ?thesis by (auto simp: plain_file_def list_all_iff)
qed

lemma map_sum_Inr: "map_sum f h z = Inr y \<longleftrightarrow> (\<exists>x. z = Inr x \<and> y = h x)"
  by (cases z) auto

lemma expand_lines_copied:
  assumes "\<And>l. l \<in> set ls \<Longrightarrow> whole_line l \<and> NUL \<notin> set l"
    and "\<And>path u r. fopen path = Some u \<Longrightarrow> rec u = Some (Inr r) \<Longrightarrow> \<exists>cs. r = concat cs \<and> list_all copied cs"
    and "expand_lines rec fopen dir ls = Some (Inr out)"
  shows "\<exists>cs. out = concat cs \<and> list_all copied cs"
  using assms(1,3)
proof (induction ls arbitrary: out)
  case Nil
  then show ?case by (intro exI [of _ "[]"]) simp
next
  case (Cons l ls)
  from Cons.prems(2) obtain a b where ab: "expand_line rec fopen dir l = Some (Inr a)"
    "expand_lines rec fopen dir ls = Some (Inr b)" "out = a @ b"
    by (auto simp: map_sum_Inr split: option.splits sum.splits)
  from Cons.IH [OF _ ab(2)] Cons.prems(1) obtain bs where b: "b = concat bs" "list_all copied bs" by auto
  have l: "whole_line l" "NUL \<notin> set l" using Cons.prems(1) by auto
  have "\<exists>as. a = concat as \<and> list_all copied as"
  proof (cases "include_of l")
    case None
    with ab(1) l have "a = l" by (simp add: expand_line_def takeWhile_all)
    with l None show ?thesis by (intro exI [of _ "[l]"]) (simp add: copied_def)
  next
    case (Some f)
    show ?thesis
    proof (cases "a = []")
      case True
      then show ?thesis by (intro exI [of _ "[]"]) simp
    next
      case False
      with Some ab(1) l obtain path u where "fopen path = Some u" "rec u = Some (Inr a)"
        by (auto simp: expand_line_def takeWhile_all split: option.splits sum.splits)
      then show ?thesis by (rule assms(2))
    qed
  qed
  then obtain as where "a = concat as" "list_all copied as" by blast
  with ab(3) b show ?case by (intro exI [of _ "as @ bs"]) simp
qed

lemma expandFile_copied:
  assumes "\<And>path u. fopen path = Some u \<Longrightarrow> plain_file u"
  shows "plain_file t \<Longrightarrow> expandFile n fopen dir t = Some (Inr out) \<Longrightarrow>
    \<exists>cs. out = concat cs \<and> list_all copied cs"
proof (induction n arbitrary: t out)
  case (Suc n)
  from Suc.prems(2) have "expand_lines (\<lambda>u. expandFile n fopen dir u) fopen dir (lines_of t) = Some (Inr out)"
    by simp
  from expand_lines_copied [OF plain_file_lines [OF Suc.prems(1)] _ this] Suc.IH assms
  show ?case by blast
qed simp

lemma expand_copied_lines:
  "list_all copied cs \<Longrightarrow> expand_lines rec fopen dir cs = Some (Inr (concat cs))"
  by (induction cs) (auto simp: expand_line_def copied_def takeWhile_all)

lemma copied_whole: "list_all copied cs \<Longrightarrow> list_all whole_line cs"
  by (auto simp: list_all_iff copied_def)

text \<open>C36: The expanded configuration has no \<open>include\<close> directive left, and expanding it again, in
  any directory and with any files, copies it unchanged with no nested call, when every file ends with
  a line feed and has no NUL byte.\<close>

theorem include_expansion_fixpoint:
  assumes "\<And>path u. fopen path = Some u \<Longrightarrow> plain_file u" and "plain_file t"
    and "expandFile n fopen dir t = Some (Inr out)"
  shows "list_all (\<lambda>l. include_of l = None) (lines_of out) \<and>
    expandFile 1 fopen' dir' out = Some (Inr out)"
proof -
  obtain cs where cs: "out = concat cs" "list_all copied cs"
    using expandFile_copied [of fopen t n dir out] assms by blast
  then have lines: "lines_of out = cs" using lines_of_concat copied_whole by blast
  then show ?thesis using cs expand_copied_lines [OF cs(2)]
    by (simp add: list_all_iff copied_def)
qed

section \<open>A concrete configuration\<close>

definition ex_files :: "string \<Rightarrow> string option" where
  "ex_files p =
     (if p = ''/etc/ogws/site.conf'' then Some (''server {}'' @ [LF])
      else if p = ''/etc/ogws/loop.conf'' then Some (''include loop.conf;'' @ [LF])
      else None)"

definition ex_text :: string where
  "ex_text = ''http {'' @ [LF] @ ''  include site.conf;'' @ [LF] @ ''}'' @ [LF]"

lemma ex_expansion:
  "expandFile 2 ex_files (Some ''/etc/ogws/'') ex_text =
     Some (Inr (''http {'' @ [LF] @ ''server {}'' @ [LF] @ ''}'' @ [LF]))"
  by code_simp

lemma include_terminates_witness:
  "Wellfounded.accp (included_by ex_files ''/etc/ogws/'') ex_text"
  using ex_expansion expandFile_mono_le [OF _ ex_expansion]
  by (intro include_terminates [THEN iffD1]) blast

lemma include_expansion_fixpoint_witness:
  "expandFile 1 ex_files None (''http {'' @ [LF] @ ''server {}'' @ [LF] @ ''}'' @ [LF]) =
     Some (Inr (''http {'' @ [LF] @ ''server {}'' @ [LF] @ ''}'' @ [LF]))"
proof -
  have lf: "whole_line (b @ [LF])" if "LF \<notin> set b" for b using that by (auto simp: whole_line_def)
  have "plain_file u" if "ex_files p = Some u" for p u
    using that lf [of "''server {}''"] lf [of "''include loop.conf;''"]
    by (auto simp: ex_files_def plain_file_def split: if_splits)
  moreover have "plain_file ex_text"
    using lf [of "''http {''"] lf [of "''  include site.conf;''"] lf [of "''}''"]
    by (simp add: ex_text_def plain_file_def)
  ultimately show ?thesis using include_expansion_fixpoint [OF _ _ ex_expansion] by blast
qed

text \<open>A file that includes itself.\<close>

lemma self_include_endless: "expandFile n ex_files (Some ''/etc/ogws/'') (''include loop.conf;'' @ [LF]) = None"
proof (induction n)
  case (Suc n)
  have "lines_of (''include loop.conf;'' @ [LF]) = [''include loop.conf;'' @ [LF]]" by code_simp
  moreover have "include_of (takeWhile (\<lambda>c. c \<noteq> NUL) (''include loop.conf;'' @ [LF])) = Some (Some ''loop.conf'')"
    by code_simp
  ultimately show ?case
    using Suc by (simp add: expand_line_def ex_files_def file_path_def Let_def del: append.simps)
qed simp

end
