(* ===== verification/OG_Socket.thy ===== *)
theory OG_Socket
  imports OG_Request
begin

text \<open>
  The two transfer loops of \<^verbatim>\<open>socket.c\<close> at the width of their C variables, on a script of
  what the successive calls of \<open>recv\<close> and \<open>send\<close> return. The handlers use them as a
  single step (the action \<open>Send\<close> and the bytes given to \<open>processInput\<close>); this theory says
  when that is what happens, and what an error or an interruption does instead.
\<close>

unbundle bit_operations_syntax

section \<open>Receiving\<close>

text \<open>One call of \<open>recv\<close>: bytes (none when the peer has closed), or -1 with \<open>errno\<close>.\<close>

datatype recv_event = Received string | Would_block | Interrupted | Recv_error

text \<open>
  The loop with its variables: the write position relative to the buffer, the size passed on, and the
  sum of the results. The result is the actions, the value returned and the buffer; \<open>None\<close> when the
  script is used up, as the code still waits.
\<close>

fun recv_loop ::
  "int \<Rightarrow> nat \<Rightarrow> int \<Rightarrow> int \<Rightarrow> int \<Rightarrow> recv_event list \<Rightarrow> (action list \<times> (int \<times> char list) res) option"
  where
  "recv_loop fd n p nbytes received [] = None"
| "recv_loop fd n p nbytes received (Received d # es) =
     Some ([], if d \<noteq> [] \<and> p < 0 then Inl OutOfBounds
               else Inr (received + int (length d), d @ replicate (n - length d) NUL))"
| "recv_loop fd n p nbytes received (Would_block # es) = Some ([], Inr (0, replicate n NUL))"
| "recv_loop fd n p nbytes received (Recv_error # es) =
     Some ([Shutdown fd, Close fd], Inr (0, replicate n NUL))"
| "recv_loop fd n p nbytes received (Interrupted # es) =
     recv_loop fd n (p + (-1)) (nbytes - (-1)) (received + (-1)) es"

definition recvData :: "int \<Rightarrow> nat \<Rightarrow> recv_event list \<Rightarrow> (action list \<times> (int \<times> char list) res) option" where
  "recvData fd n es = recv_loop fd n 0 (int n) 0 es"

lemma recv_loop_interrupted:
  "recv_loop fd n p nb r (replicate k Interrupted @ es) =
     recv_loop fd n (p - int k) (nb + int k) (r - int k) es"
proof (induction k arbitrary: p nb r)
  case (Suc k)
  show ?case by (simp add: Suc.IH) (simp add: algebra_simps)
qed simp

section \<open>Sending\<close>

datatype send_event = Sent nat | Send_error

text \<open>
  \<open>Looping\<close> is the state in which the script is used up and the loop still runs;
  \<open>Overread\<close> a \<open>send\<close> of bytes before the buffer.
\<close>

datatype send_outcome = Looping "64 word" "32 word" | Returned int | Overread

definition nsent_of :: "send_event \<Rightarrow> 64 word" where
  "nsent_of e = (case e of Sent k \<Rightarrow> word_of_nat k | Send_error \<Rightarrow> -1)"

text \<open>
  \<open>nsent\<close> is a \<open>size_t\<close>, so the -1 of a failed \<open>send\<close> is the largest one: it is not
  greater than \<open>nleft\<close> as an \<open>int\<close>, it is positive, and the loop goes back by one byte.
\<close>

fun send_loop ::
  "string \<Rightarrow> 64 word \<Rightarrow> 32 word \<Rightarrow> 64 word \<Rightarrow> send_event list \<Rightarrow> string list \<times> send_outcome" where
  "send_loop buf off nleft nsent [] =
     ([], if 0 < sint nleft then Looping off nleft else Returned (sint (ucast nsent :: 32 word)))"
| "send_loop buf off nleft nsent (e # es) =
     (if \<not> 0 < sint nleft then ([], Returned (sint (ucast nsent :: 32 word)))
      else let ns = nsent_of e in
        if sint nleft < sint (ucast ns :: 32 word) then ([], Returned (-1))
        else (case e of
            Send_error \<Rightarrow> send_loop buf (off + ns) (nleft - ucast ns) ns es
          | Sent k \<Rightarrow>
              if k = 0 then send_loop buf off nleft ns es
              else if sint off < 0 then ([], Overread)
              else let (cs, r) = send_loop buf (off + ns) (nleft - ucast ns) ns es
                   in (take k (drop (unat off) buf) # cs, r)))"

text \<open>
  With TLS the whole is one call of \<open>SSL_write_ex\<close>, the parameter \<open>write\<close>: how many bytes it
  wrote, \<open>None\<close> on failure. \<open>junk\<close> is the initial value of the local variable \<open>nsent\<close>.
\<close>

definition sendData ::
  "(string \<Rightarrow> nat option) option \<Rightarrow> 64 word \<Rightarrow> string \<Rightarrow> send_event list \<Rightarrow> string list \<times> send_outcome" where
  "sendData ssl junk buf es =
     (case ssl of
        Some write \<Rightarrow>
          (case write buf of
             None \<Rightarrow> ([], Returned (sint (ucast junk :: 32 word)))
           | Some k \<Rightarrow> ([take k buf], Returned (sint (word_of_nat k :: 32 word))))
      | None \<Rightarrow> send_loop buf 0 (word_of_nat (length buf)) junk es)"

section \<open>What is received\<close>

text \<open>C37: One \<open>recv\<close> that is not interrupted fills the zeroed buffer from its start, which is the
  buffer that \<open>processInput\<close> parses, and its length is returned. After an interruption the same bytes
  are written in front of the buffer, and a closed connection gives a negative count; an error closes
  the descriptor and is reported as an empty request.\<close>

theorem recvData_outcomes:
  assumes "length d \<le> BUFF_SIZE" "d \<noteq> []"
  shows "recvData fd BUFF_SIZE (Received d # es) = Some ([], Inr (int (length d), input_buffer d)) \<and>
    recvData fd BUFF_SIZE (replicate (Suc k) Interrupted @ Received d # es) = Some ([], Inl OutOfBounds) \<and>
    recvData fd BUFF_SIZE (replicate k Interrupted @ Received [] # es) =
      Some ([], Inr (- int k, input_buffer [])) \<and>
    recvData fd BUFF_SIZE (replicate k Interrupted @ Recv_error # es) =
      Some ([Shutdown fd, Close fd], Inr (0, input_buffer []))"
  using assms
  by (simp add: recvData_def recv_loop_interrupted input_buffer_def del: replicate_Suc)

lemma recvData_outcomes_witness:
  "recvData 5 BUFF_SIZE (Received ''GET'' # []) = Some ([], Inr (int (length ''GET''), input_buffer ''GET'')) \<and>
    recvData 5 BUFF_SIZE (replicate (Suc 0) Interrupted @ Received ''GET'' # []) = Some ([], Inl OutOfBounds) \<and>
    recvData 5 BUFF_SIZE (replicate 0 Interrupted @ Received [] # []) =
      Some ([], Inr (- int 0, input_buffer [])) \<and>
    recvData 5 BUFF_SIZE (replicate 0 Interrupted @ Recv_error # []) =
      Some ([Shutdown 5, Close 5], Inr (0, input_buffer []))"
  by (rule recvData_outcomes) (simp_all add: BUFF_SIZE_def)

section \<open>Facts on the C variables\<close>

lemma sint_nat32: "x < 2 ^ 31 \<Longrightarrow> sint (word_of_nat x :: 32 word) = int x"
  by (simp add: signed_of_nat signed_take_bit_int_eq_self)

lemma sint_nat64: "x < 2 ^ 63 \<Longrightarrow> sint (word_of_nat x :: 64 word) = int x"
  by (simp add: signed_of_nat signed_take_bit_int_eq_self)

lemma ucast_nat: "(ucast (word_of_nat x :: 64 word) :: 32 word) = word_of_nat x"
  by (rule bit_word_eqI) (simp add: bit_simps)

lemma ucast_minus1: "(ucast (-1 :: 64 word) :: 32 word) = -1"
  by (rule bit_word_eqI) (simp add: bit_simps)

lemma nsent_cast: "sint (ucast (nsent_of Send_error) :: 32 word) = -1"
  "k < 2 ^ 31 \<Longrightarrow> sint (ucast (nsent_of (Sent k)) :: 32 word) = int k"
  by (simp_all add: nsent_of_def ucast_minus1 ucast_nat sint_nat32)

lemma unat_nat64: "x < 2 ^ 64 \<Longrightarrow> unat (word_of_nat x :: 64 word) = x"
  by (simp add: unsigned_of_nat take_bit_nat_eq_self)

text \<open>One successful \<open>send\<close> of \<open>k\<close> bytes at offset \<open>a\<close>.\<close>

lemma send_loop_Sent:
  assumes "a + m = n" "n < 2 ^ 31" "0 < k" "k \<le> m"
  shows "send_loop buf (word_of_nat a) (word_of_nat m) ns (Sent k # es) =
     (let (cs, r) = send_loop buf (word_of_nat (a + k)) (word_of_nat (m - k)) (word_of_nat k) es
      in (take k (drop a buf) # cs, r))"
proof -
  have s: "sint (word_of_nat m :: 32 word) = int m" "sint (word_of_nat k :: 32 word) = int k"
    "sint (word_of_nat a :: 64 word) = int a" "unat (word_of_nat a :: 64 word) = a"
    using assms by (simp_all add: sint_nat32 sint_nat64 unat_nat64)
  have ns: "nsent_of (Sent k) = word_of_nat k" by (simp add: nsent_of_def)
  have pos: "(\<not> 0 < sint (word_of_nat m :: 32 word)) = False"
    "(sint (word_of_nat m :: 32 word) < sint (word_of_nat k :: 32 word)) = False"
    "(k = 0) = False" "(sint (word_of_nat a :: 64 word) < 0) = False"
    using assms by (simp_all add: s)
  have moved: "(word_of_nat a :: 64 word) + word_of_nat k = word_of_nat (a + k)"
    "(word_of_nat m :: 32 word) - word_of_nat k = word_of_nat (m - k)"
    using assms(4) by simp_all
  show ?thesis
    by (simp only: send_loop.simps(2) ns ucast_nat pos if_False Let_def moved s(4) send_event.case)
qed

text \<open>A failed \<open>send\<close> moves the loop back by one byte.\<close>

lemma send_loop_error:
  assumes "0 < m" "m < 2 ^ 31"
  shows "send_loop buf off (word_of_nat m) ns (Send_error # es) =
     send_loop buf (off - 1) (word_of_nat (m + 1)) (-1) es"
proof -
  have "sint (word_of_nat m :: 32 word) = int m" using assms by (simp add: sint_nat32)
  then show ?thesis
    using assms by (simp add: nsent_of_def ucast_minus1 Let_def add.commute)
qed

lemma send_loop_done: "send_loop buf off 0 ns es = ([], Returned (sint (ucast ns :: 32 word)))"
  by (cases es) simp_all

declare send_loop.simps [simp del]

lemma send_loop_last:
  assumes "a + m = length buf" "length buf < 2 ^ 31" "0 < m"
  shows "send_loop buf (word_of_nat a) (word_of_nat m) ns [Sent m] = ([drop a buf], Returned (int m))"
proof -
  have "sint (ucast (word_of_nat m :: 64 word) :: 32 word) = int m"
    unfolding ucast_nat using assms by (intro sint_nat32) simp
  with send_loop_Sent [of a m "length buf" m buf ns "[]"] assms show ?thesis
    by (simp add: send_loop_done)
qed

lemma send_loop_chunks:
  assumes "a + sum_list ks = length buf" "length buf < 2 ^ 31" "list_all ((<) 0) ks" "ks \<noteq> []"
  shows "\<exists>cs. send_loop buf (word_of_nat a) (word_of_nat (sum_list ks)) ns (map Sent ks @ es) =
      (cs, Returned (int (last ks))) \<and> concat cs = drop a buf"
  using assms
proof (induction ks arbitrary: a ns)
  case (Cons k ks)
  have k: "0 < k" "k \<le> sum_list (k # ks)" using Cons.prems by auto
  note step = send_loop_Sent [of a "sum_list (k # ks)" "length buf" k buf ns "map Sent ks @ es", OF Cons.prems(1,2) k]
  show ?case
  proof (cases "ks = []")
    case True
    have "sint (ucast (word_of_nat k :: 64 word) :: 32 word) = int k"
      using Cons.prems(1,2) True by (simp add: ucast_nat sint_nat32)
    then show ?thesis using step True Cons.prems(1) by (simp add: send_loop_done)
  next
    case False
    from Cons.IH [of "a + k" "word_of_nat k"] Cons.prems False obtain cs where
      "send_loop buf (word_of_nat (a + k)) (word_of_nat (sum_list ks)) (word_of_nat k) (map Sent ks @ es) =
        (cs, Returned (int (last ks))) \<and> concat cs = drop (a + k) buf" by auto
    moreover have "take k (drop a buf) @ drop (a + k) buf = drop a buf"
      by (metis append_take_drop_id drop_drop add.commute)
    ultimately show ?thesis using step False by simp
  qed
qed simp

text \<open>C34: On a connection without errors, \<open>sendData\<close> delivers exactly the bytes it is given, in
  order, whatever the sizes of the pieces the kernel takes; it returns the size of the last piece and
  not the total.\<close>

theorem sendData_delivers:
  assumes "buf \<noteq> []" "length buf < 2 ^ 31" "list_all ((<) 0) ks" "sum_list ks = length buf"
  shows "\<exists>cs. sendData None junk buf (map Sent ks @ es) = (cs, Returned (int (last ks))) \<and>
    concat cs = buf"
proof -
  have "ks \<noteq> []" using assms(1,4) by auto
  from send_loop_chunks [of 0 ks buf junk es] assms this show ?thesis by (simp add: sendData_def)
qed

lemma sendData_delivers_witness:
  "\<exists>cs. sendData None 0 ''hello'' (map Sent [2, 3] @ []) = (cs, Returned (int (last [2, 3]))) \<and>
    concat cs = ''hello''"
  by (rule sendData_delivers) simp_all

text \<open>An error of \<open>send\<close>, an interruption or a full socket buffer included, corrupts the
  stream: after \<open>m\<close> bytes it makes the loop send byte \<open>m\<close> a second time, and before the first byte
  it makes the next \<open>send\<close> read in front of the buffer.\<close>

lemma sendData_error_corrupts:
  assumes "length buf < 2 ^ 31 - 1" "0 < m" "m < length buf" "0 < k" "k \<le> length buf"
  shows "sendData None junk buf [Sent m, Send_error, Sent (length buf - m + 1)] =
      ([take m buf, drop (m - 1) buf], Returned (int (length buf - m + 1))) \<and>
    sendData None junk buf (Send_error # Sent k # es) = ([], Overread)"
proof
  let ?n = "length buf"
  have n: "0 < ?n" "?n < 2 ^ 31" "?n + 1 < 2 ^ 31" using assms by auto
  have first: "send_loop buf (word_of_nat 0) (word_of_nat ?n) junk (Sent m # es) =
      (let (cs, r) = send_loop buf (word_of_nat (0 + m)) (word_of_nat (?n - m)) (word_of_nat m) es
       in (take m (drop 0 buf) # cs, r))" for es
    by (rule send_loop_Sent [OF _ n(2)]) (use assms in simp_all)
  have err: "send_loop buf (word_of_nat m) (word_of_nat (?n - m)) ns (Send_error # es) =
      send_loop buf (word_of_nat (m - 1)) (word_of_nat (?n - m + 1)) (-1) es" for ns es
    using send_loop_error [of "?n - m" buf "word_of_nat m"] assms(1-3) by (simp add: of_nat_diff)
  have last: "send_loop buf (word_of_nat (m - 1)) (word_of_nat (?n - m + 1)) ns [Sent (?n - m + 1)] =
      ([drop (m - 1) buf], Returned (int (?n - m + 1)))" for ns
    by (rule send_loop_last) (use assms(1-3) in simp_all)
  have "send_loop buf (word_of_nat 0) (word_of_nat ?n) junk [Sent m, Send_error, Sent (?n - m + 1)] =
      ([take m buf, drop (m - 1) buf], Returned (int (?n - m + 1)))"
    by (simp only: first add_0 err last Let_def prod.case drop_0)
  then show "sendData None junk buf [Sent m, Send_error, Sent (?n - m + 1)] =
      ([take m buf, drop (m - 1) buf], Returned (int (?n - m + 1)))"
    by (simp add: sendData_def)
  have "sint (word_of_nat (?n + 1) :: 32 word) = int (?n + 1)" using n(3) by (rule sint_nat32)
  moreover have "sint (word_of_nat k :: 32 word) = int k" using assms n(2) by (intro sint_nat32) simp
  ultimately have "send_loop buf (-1) (word_of_nat (?n + 1)) (-1) (Sent k # es) = ([], Overread)"
    using assms(4,5) by (simp add: send_loop.simps nsent_of_def ucast_nat Let_def del: of_nat_add)
  with send_loop_error [of ?n buf 0 junk "Sent k # es"] n
  show "sendData None junk buf (Send_error # Sent k # es) = ([], Overread)"
    by (simp add: sendData_def)
qed

lemma sendData_error_corrupts_example:
  "sendData None 0 ''hello'' [Sent 2, Send_error, Sent (length ''hello'' - 2 + 1)] =
      ([take 2 ''hello'', drop (2 - 1) ''hello''], Returned (int (length ''hello'' - 2 + 1))) \<and>
    sendData None 0 ''hello'' (Send_error # Sent 5 # []) = ([], Overread)"
  by (rule sendData_error_corrupts) simp_all

lemma send_loop_errors:
  "0 < m \<Longrightarrow> m + j \<le> 2 ^ 31 \<Longrightarrow>
   send_loop buf off (word_of_nat m) ns (replicate j Send_error) =
     ([], if m + j < 2 ^ 31 then Looping (off - word_of_nat j) (word_of_nat (m + j))
          else if j = 0 then Returned (sint (ucast ns :: 32 word)) else Returned (-1))"
proof (induction j arbitrary: m off ns)
  case 0
  have "sint (word_of_nat (2 ^ 31) :: 32 word) < 0" by simp
  with 0 show ?case by (cases "m = 2 ^ 31") (auto simp: send_loop.simps sint_nat32 simp del: of_nat_power)
next
  case (Suc j)
  then show ?case
    using send_loop_error [of m buf off ns "replicate j Send_error"] Suc.IH [of "m + 1" "off - 1" "-1"]
    by (simp add: ucast_minus1 algebra_simps)
qed

text \<open>On a connection that stays broken, \<open>sendData\<close> retries without end in sight: \<open>nleft\<close> grows by
  one with every failure, and the loop ends only when it overflows, after exactly \<open>2 ^ 31 - n\<close> failures.\<close>

lemma sendData_spins:
  assumes "buf \<noteq> []" "length buf + j \<le> 2 ^ 31" "0 < j"
  shows "sendData None junk buf (replicate j Send_error) =
    ([], if length buf + j < 2 ^ 31 then Looping (- word_of_nat j) (word_of_nat (length buf + j))
         else Returned (-1))"
  using send_loop_errors [of "length buf" j buf 0 junk] assms by (simp add: sendData_def)

lemma sendData_spins_example:
  "sendData None 0 ''hello'' (replicate (2 ^ 31 - 5) Send_error) =
    ([], if length ''hello'' + (2 ^ 31 - 5) < (2 :: nat) ^ 31
         then Looping (- word_of_nat (2 ^ 31 - 5)) (word_of_nat (length ''hello'' + (2 ^ 31 - 5)))
         else Returned (-1))"
  by (rule sendData_spins) simp_all

end
