(* ===== verification/OG_Frame.thy ===== *)
theory OG_Frame
  imports OG_DispatchProps OG_ConfigProps
begin

text \<open>
  What a request may change of the global state. A handler preserves a predicate when every run of it
  that completes from a state with the predicate ends in one. The predicate here fixes everything but
  the current server of the upstream groups and three scratch statics of the handlers, and keeps the
  groups inside the node store, so the configuration that \<open>parseConfig\<close> has checked stays checked
  for as long as requests are served.
\<close>

section \<open>Preserving a predicate\<close>

definition preserves :: "(gstate \<Rightarrow> bool) \<Rightarrow> 'a io \<Rightarrow> bool" where
  "preserves P m = (\<forall>g as x g'. P g \<longrightarrow> m g = (as, Inr (x, g')) \<longrightarrow> P g')"

named_theorems keep_intros \<open>handlers that preserve the predicate\<close>

lemma preservesD: "preserves P m \<Longrightarrow> P g \<Longrightarrow> m g = (as, Inr (x, g')) \<Longrightarrow> P g'"
  unfolding preserves_def by blast

lemma preserves_reads_only: "reads_only m \<Longrightarrow> preserves P m"
  by (auto simp: preserves_def dest: reads_onlyD)

lemma preserves_basic [keep_intros]:
  "preserves P (ret_io x)" "preserves P (stop_io e)" "preserves P (emit_io a)"
  "preserves P get_io" "preserves P (lift_res r)"
  by (rule preserves_reads_only, rule ro_basic)+

lemma preserves_mod: "(\<And>g. P g \<Longrightarrow> P (h g)) \<Longrightarrow> preserves P (mod_io h)"
  by (auto simp: preserves_def io_simps)

lemma preserves_bind [keep_intros]:
  assumes "preserves P m" "\<And>x. preserves P (f x)" shows "preserves P (bind_io m f)"
  unfolding preserves_def
proof (intro allI impI)
  fix g as y g2
  assume "P g" and "bind_io m f g = (as, Inr (y, g2))"
  then obtain bs x g1 cs where "m g = (bs, Inr (x, g1))" "f x g1 = (cs, Inr (y, g2))"
    by (elim bind_io_InrE)
  with assms \<open>P g\<close> show "P g2" by (metis preservesD)
qed

lemma preserves_if [keep_intros]: "preserves P m \<Longrightarrow> preserves P n \<Longrightarrow> preserves P (if b then m else n)"
  by simp

lemma preserves_option [keep_intros]:
  "preserves P m \<Longrightarrow> (\<And>x. preserves P (f x)) \<Longrightarrow> preserves P (case p of None \<Rightarrow> m | Some x \<Rightarrow> f x)"
  by (cases p) auto

lemma preserves_prod [keep_intros]: "(\<And>x y. preserves P (f x y)) \<Longrightarrow> preserves P (case p of (x, y) \<Rightarrow> f x y)"
  by (cases p) auto

lemma preserves_each [keep_intros]: "(\<And>x. preserves P (f x)) \<Longrightarrow> preserves P (each_io f xs)"
  by (induction xs) (auto intro: keep_intros)

section \<open>The view of a request\<close>

definition idle_group :: "upstreams \<Rightarrow> upstreams" where
  "idle_group u = u\<lparr>ug_current := []\<rparr>"

definition request_view :: "gstate \<Rightarrow> gstate" where
  "request_view g = g\<lparr>g_tryTarget := None, g_fcgiParams := [], g_fragments := [],
     g_upstreams := map idle_group (g_upstreams g)\<rparr>"

lemma request_view_scratch [simp]:
  "request_view (g\<lparr>g_tryTarget := t\<rparr>) = request_view g"
  "request_view (g\<lparr>g_fcgiParams := ps\<rparr>) = request_view g"
  "request_view (g\<lparr>g_fragments := fs\<rparr>) = request_view g"
  by (simp_all add: request_view_def)

lemma request_view_group:
  "u = g_upstreams g ! i \<Longrightarrow>
   request_view (g\<lparr>g_upstreams := (g_upstreams g)[i := u\<lparr>ug_current := c\<rparr>]\<rparr>) = request_view g"
proof -
  assume u: "u = g_upstreams g ! i"
  have "map idle_group ((g_upstreams g)[i := u\<lparr>ug_current := c\<rparr>]) = map idle_group (g_upstreams g)"
  proof (cases "i < length (g_upstreams g)")
    case True
    then show ?thesis
      by (intro nth_equalityI) (auto simp: u nth_list_update idle_group_def)
  qed (simp add: list_update_beyond)
  then show ?thesis by (simp add: request_view_def)
qed

lemma next_address_view: "next_address loc g = Inr (a, g') \<Longrightarrow> request_view g' = request_view g"
  by (auto simp: next_address_def res_simps Let_def request_view_group
      split: if_splits option.splits list.splits)

lemma next_address_form:
  "next_address loc g = Inr (a, g') \<Longrightarrow> g' = g \<or>
    (\<exists>i c. g_upstreams g' = (g_upstreams g)[i := (g_upstreams g ! i)\<lparr>ug_current := c\<rparr>] \<and>
       set c \<subseteq> set (ug_current (g_upstreams g ! i)) \<union> set (ug_servers (g_upstreams g ! i)))"
  by (auto simp: next_address_def res_simps Let_def split: if_splits option.splits list.splits)
    (drule spec, drule spec, drule mp, rule refl, auto)+

lemma next_address_groups:
  assumes run: "next_address loc g = Inr (a, g')" and ok: "list_all (group_ok n) (g_upstreams g)"
  shows "list_all (group_ok n) (g_upstreams g')"
proof (cases "g' = g")
  case False
  with next_address_form [OF run] obtain i c where
    g': "g_upstreams g' = (g_upstreams g)[i := (g_upstreams g ! i)\<lparr>ug_current := c\<rparr>]"
    and c: "set c \<subseteq> set (ug_current (g_upstreams g ! i)) \<union> set (ug_servers (g_upstreams g ! i))"
    by blast
  show ?thesis
    unfolding g' using ok
  proof (rule list_all_update)
    assume "i < length (g_upstreams g)"
    with ok have "group_ok n (g_upstreams g ! i)" by (simp add: list_all_length)
    with c show "group_ok n ((g_upstreams g ! i)\<lparr>ug_current := c\<rparr>)"
      by (auto simp: group_ok_def list_all_iff)
  qed
qed (simp add: ok)

definition request_inv :: "gstate \<Rightarrow> nat \<Rightarrow> gstate \<Rightarrow> bool" where
  "request_inv v n g = (request_view g = v \<and> list_all (group_ok n) (g_upstreams g))"

lemma request_inv_scratch [simp]:
  "request_inv v n (g\<lparr>g_tryTarget := t\<rparr>) = request_inv v n g"
  "request_inv v n (g\<lparr>g_fcgiParams := ps\<rparr>) = request_inv v n g"
  "request_inv v n (g\<lparr>g_fragments := fs\<rparr>) = request_inv v n g"
  by (simp_all add: request_inv_def)

section \<open>The handlers\<close>

abbreviation kept :: "gstate \<Rightarrow> nat \<Rightarrow> 'a io \<Rightarrow> bool" where
  "kept v n \<equiv> preserves (request_inv v n)"

lemma kept_responses [keep_intros]:
  "kept v k (sendErrorResponse os req code msg path)" "kept v k (serveFile os req)"
  "kept v k (accessLog os fd srv vb c p sz)" "kept v k (send_str req s)" "kept v k (send_buf req n s)"
  by (rule preserves_reads_only, rule ro_intros)+

lemma kept_listing [keep_intros]: "kept v k (showDirectoryListing os req)"
proof -
  have "kept v k (addFragment os d p f)" for d p f
    unfolding addFragment_def Let_def by (intro keep_intros preserves_mod) simp
  moreover have "kept v k (send_fragment req f)" for f
    unfolding send_fragment_def by (intro keep_intros)
  ultimately show ?thesis
    unfolding showDirectoryListing_def Let_def by (intro keep_intros preserves_mod) simp_all
qed

lemma kept_getUpstreamServer [keep_intros]: "kept v k (getUpstreamServer os req)"
  unfolding preserves_def
proof (intro allI impI)
  fix g as x g'
  assume inv: "request_inv v k g" and "getUpstreamServer os req g = (as, Inr (x, g'))"
  then obtain loc a where "next_address loc g = Inr (a, g')"
    by (auto simp: getUpstreamServer_def bind_io_def lift_res_def io_simps
        split: sum.splits prod.splits)
  with inv show "request_inv v k g'"
    by (simp add: request_inv_def next_address_view next_address_groups)
qed

lemma kept_relay [keep_intros]: "kept v k (relay req b c m rs)"
  by (induction rs arbitrary: b c m) (auto intro!: keep_intros)

lemma kept_forward [keep_intros]: "kept v k (forward os req)"
  unfolding forward_def getClient_def send_up_def Let_def by (intro keep_intros)

lemma kept_proxies [keep_intros]: "kept v k (handleProxyPass os req)" "kept v k (handleFastCGIPass os req)"
  unfolding handleProxyPass_def handleFastCGIPass_def initParameters_def
  by (intro keep_intros preserves_mod; simp)+

lemma kept_handleGetVerb [keep_intros]: "kept v k (handleGetVerb os req)"
  unfolding handleGetVerb_def Let_def by (intro keep_intros)

lemma kept_handleTryFiles [keep_intros]: "kept v k (handleTryFiles os req)"
proof -
  have "kept v k (serveDefaultFile os r)" for r
    unfolding serveDefaultFile_def Let_def by (intro keep_intros)
  then show ?thesis
    unfolding handleTryFiles_def Let_def by (intro keep_intros preserves_mod) simp_all
qed

lemma kept_processInput: "kept v k (processInput os req received)"
proof -
  have "kept v k (dispatch os r pr)" for r pr
    unfolding dispatch_def Let_def case_prod_beta by (intro keep_intros)
  then show ?thesis
    unfolding processInput_def Let_def by (intro keep_intros)
qed


section \<open>The checked configuration\<close>

lemma request_view_fields:
  assumes "request_view g' = request_view g"
  shows "g_servers g' = g_servers g" "g_nodes g' = g_nodes g" "g_clients g' = g_clients g"
    "g_accessLog g' = g_accessLog g" "g_errorLog g' = g_errorLog g"
    "g_defaultServer g' = g_defaultServer g" "g_mimeTypes g' = g_mimeTypes g"
    "length (g_upstreams g') = length (g_upstreams g)"
  using arg_cong [OF assms, of g_servers] arg_cong [OF assms, of g_nodes]
    arg_cong [OF assms, of g_clients] arg_cong [OF assms, of g_accessLog]
    arg_cong [OF assms, of g_errorLog] arg_cong [OF assms, of g_defaultServer]
    arg_cong [OF assms, of g_mimeTypes] arg_cong [OF assms, of "\<lambda>g. length (g_upstreams g)"]
  by (simp_all add: request_view_def)

lemma server_ok_view:
  assumes "request_view g' = request_view g" shows "server_ok g' s = server_ok g s"
  by (simp add: server_ok_def request_view_fields [OF assms])

lemma config_ready_view:
  assumes "config_ready env g" "request_view g' = request_view g"
    and "list_all (group_ok (length (g_nodes g))) (g_upstreams g')"
  shows "config_ready env g'"
  using assms
  by (simp add: config_ready_def request_view_fields [OF assms(2)] server_ok_view [OF assms(2)] list_all_iff)

lemma request_frame_run:
  assumes "config_ready env g" "processInput os req received g = (as, Inr ((), g'))"
  shows "request_view g' = request_view g \<and> config_ready env g'"
proof -
  have "request_inv (request_view g) (length (g_nodes g)) g"
    using assms(1) by (simp add: request_inv_def config_ready_def)
  from preservesD [OF kept_processInput this assms(2)] show ?thesis
    using config_ready_view [OF assms(1)] by (simp add: request_inv_def)
qed


lemma ex_ready: "config_ready ex_env ex_state"
  by code_simp


end
