(* ===== verification/OG_EventLoop.thy ===== *)
theory OG_EventLoop
  imports OG_Frame
begin

text \<open>
  The plain server of \<^verbatim>\<open>server.c\<close> with the connection functions of \<^verbatim>\<open>socket.c\<close>: setting
  up the listening socket, one event, one list of events, the loop. What the kernel answers to the
  calls made for an event comes with the event. A step relation on the global state and the set of
  open connections carries the invariant of the loop.
\<close>

section \<open>Connections\<close>

text \<open>\<open>ip\<close> is the result of \<open>inet_ntop\<close>.\<close>

definition queueClientConnection :: "int \<Rightarrow> server \<Rightarrow> string option \<Rightarrow> nat option \<Rightarrow> client io" where
  "queueClientConnection fd srv ip ctx =
     (case ip of
        None \<Rightarrow> stop_io (Exit 1)
      | Some a \<Rightarrow>
          let c = \<lparr>cl_fd = fd, cl_server = srv, cl_ip = a, cl_ctx = ctx\<rparr>
          in bind_io (mod_io (setClientConnection c)) (\<lambda>_. ret_io c))"

definition cleanup :: "int \<Rightarrow> unit io" where
  "cleanup fd =
     bind_io get_io (\<lambda>g.
     let (c, g') = removeClientConnection fd g in
     bind_io (mod_io (\<lambda>_. g')) (\<lambda>_.
     bind_io
       (case c of
          None \<Rightarrow> ret_io ()
        | Some cl \<Rightarrow> (case cl_ctx cl of None \<Rightarrow> ret_io () | Some x \<Rightarrow> emit_io (FreeCtx x)))
       (\<lambda>_.
     bind_io (emit_io (Shutdown fd)) (\<lambda>_.
     emit_io (Close fd)))))"

text \<open>What the kernel answers while the listening socket is set up: the descriptor of \<open>socket\<close>, and
  whether the other calls succeed.\<close>

record listen_env =
  le_socket :: int
  le_nonblock :: bool
  le_reuse :: bool
  le_bind :: bool
  le_listen :: bool

text \<open>A failed \<open>listen\<close> closes the socket, and its descriptor is returned all the same.\<close>

definition createBindAndListen :: "listen_env \<Rightarrow> bool \<Rightarrow> int \<Rightarrow> int io" where
  "createBindAndListen le isTLS portNum =
     (let fd = le_socket le; fail = bind_io (emit_io (Close fd)) (\<lambda>_. stop_io (Exit 1)) in
      if fd < 0 then stop_io (Exit 1)
      else if \<not> isTLS \<and> \<not> le_nonblock le then fail
      else if \<not> le_reuse le then fail
      else if \<not> le_bind le then fail
      else bind_io (if \<not> le_listen le then cleanup fd else ret_io ()) (\<lambda>_. ret_io fd))"

section \<open>Events\<close>

datatype accept_result = Accepted int "string option" | Accept_interrupted | Accept_failed

text \<open>The loop around \<open>accept\<close> on its successive results: \<open>None\<close> while it still waits.\<close>

fun accept_loop :: "accept_result list \<Rightarrow> (int \<times> string option) option option" where
  "accept_loop [] = None"
| "accept_loop (Accept_interrupted # rs) = accept_loop rs"
| "accept_loop (Accept_failed # rs) = Some None"
| "accept_loop (Accepted fd ip # rs) = Some (Some (fd, ip))"

text \<open>
  An event: whether one of the error flags or \<open>EPOLLIN\<close> is set, its descriptor, and what the calls
  made for it return: the results of \<open>accept\<close>, the success of \<open>epoll_ctl\<close>, the bytes received.
\<close>

record event =
  ev_error :: bool
  ev_in :: bool
  ev_fd :: int
  ev_accept :: "accept_result list"
  ev_added :: bool
  ev_received :: string

datatype flow = Go_on | Leave | Waiting

definition accept_client :: "int \<Rightarrow> server \<Rightarrow> event \<Rightarrow> flow io" where
  "accept_client sockFd srv ev =
     (case accept_loop (ev_accept ev) of
        None \<Rightarrow> ret_io Waiting
      | Some None \<Rightarrow> bind_io (cleanup sockFd) (\<lambda>_. ret_io Leave)
      | Some (Some (clientFd, ip)) \<Rightarrow>
          bind_io (queueClientConnection clientFd srv ip None) (\<lambda>_.
          if ev_added ev then bind_io (emit_io (EpollAdd clientFd)) (\<lambda>_. ret_io Go_on)
          else bind_io (cleanup sockFd) (\<lambda>_. stop_io (Exit 1))))"

definition serve_client :: "os \<Rightarrow> server \<Rightarrow> int \<Rightarrow> string \<Rightarrow> flow io" where
  "serve_client os srv fd received =
     bind_io (processInput os (new_request srv fd False) received) (\<lambda>_.
     bind_io (cleanup fd) (\<lambda>_. ret_io Go_on))"

definition handle_event :: "os \<Rightarrow> int \<Rightarrow> server \<Rightarrow> event \<Rightarrow> flow io" where
  "handle_event os sockFd srv ev =
     (if ev_error ev then
        (if ev_fd ev = sockFd then bind_io (cleanup sockFd) (\<lambda>_. stop_io (Exit 1))
         else bind_io (cleanup (ev_fd ev)) (\<lambda>_. ret_io Go_on))
      else if ev_in ev then
        (if ev_fd ev = sockFd then accept_client sockFd srv ev
         else serve_client os srv (ev_fd ev) (ev_received ev))
      else ret_io Go_on)"

text \<open>The events of one \<open>epoll_wait\<close>, then the rounds of the main loop.\<close>

fun handle_events :: "os \<Rightarrow> int \<Rightarrow> server \<Rightarrow> event list \<Rightarrow> flow io" where
  "handle_events os sockFd srv [] = ret_io Go_on"
| "handle_events os sockFd srv (ev # evs) =
     bind_io (handle_event os sockFd srv ev) (\<lambda>f.
       if f = Go_on then handle_events os sockFd srv evs else ret_io f)"

datatype wait_result = Events "event list" | Wait_interrupted | Wait_failed

fun server_loop :: "os \<Rightarrow> int \<Rightarrow> server \<Rightarrow> wait_result list \<Rightarrow> flow io" where
  "server_loop os sockFd srv [] = ret_io Waiting"
| "server_loop os sockFd srv (Wait_interrupted # ws) = server_loop os sockFd srv ws"
| "server_loop os sockFd srv (Wait_failed # ws) = bind_io (cleanup sockFd) (\<lambda>_. ret_io Leave)"
| "server_loop os sockFd srv (Events evs # ws) =
     bind_io (handle_events os sockFd srv evs) (\<lambda>f.
       if f = Go_on then server_loop os sockFd srv ws else ret_io f)"

text \<open>\<open>epoll\<close> is the descriptor of the epoll set, \<open>add\<close> whether the listening socket could be added.\<close>

definition epollCreate :: "int \<Rightarrow> int io" where
  "epollCreate epoll = (if epoll < 0 then stop_io (Exit 1) else ret_io epoll)"

definition server_main ::
  "os \<Rightarrow> int \<Rightarrow> listen_env \<Rightarrow> bool \<Rightarrow> wait_result list \<Rightarrow> int \<Rightarrow> server \<Rightarrow> flow io" where
  "server_main os epoll le add ws portNum srv =
     bind_io (epollCreate epoll) (\<lambda>_.
     bind_io (createBindAndListen le False portNum) (\<lambda>sockFd.
     if \<not> add then bind_io (cleanup sockFd) (\<lambda>_. stop_io (Exit 1))
     else bind_io (emit_io (EpollAdd sockFd)) (\<lambda>_. server_loop os sockFd srv ws)))"

section \<open>Runs of the parts\<close>

definition cleanup_actions :: "int \<Rightarrow> gstate \<Rightarrow> action list" where
  "cleanup_actions fd g =
     (case getClientConnection fd g of
        None \<Rightarrow> []
      | Some c \<Rightarrow> (case cl_ctx c of None \<Rightarrow> [] | Some x \<Rightarrow> [FreeCtx x])) @ [Shutdown fd, Close fd]"

lemma cleanup_run [io_simps]:
  "cleanup fd g = (cleanup_actions fd g, Inr ((), snd (removeClientConnection fd g)))"
  using clients.fst_del [of fd g]
  by (auto simp: cleanup_def io_simps Let_def case_prod_beta cleanup_actions_def split: option.split)

lemma bind_cleanup [io_simps]:
  "bind_io (cleanup fd) f g =
     (cleanup_actions fd g @ fst (f () (snd (removeClientConnection fd g))),
      snd (f () (snd (removeClientConnection fd g))))"
  by (rule bind_io_ok [OF cleanup_run])

lemma queue_run:
  "queueClientConnection fd srv ip ctx g = (as, Inr (c, g')) \<Longrightarrow>
   as = [] \<and> cl_fd c = fd \<and> cl_server c = srv \<and> ip = Some (cl_ip c) \<and> cl_ctx c = ctx \<and>
   g' = setClientConnection c g"
  by (auto simp: queueClientConnection_def io_simps Let_def split: option.splits)

section \<open>The loop as a step relation\<close>

text \<open>
  The open client connections after an event, and what the kernel guarantees about an event: its
  descriptor is the listening socket or an open connection, and \<open>accept\<close> returns a new descriptor.
\<close>

definition open_after :: "int \<Rightarrow> event \<Rightarrow> int set \<Rightarrow> int set" where
  "open_after sockFd ev conns =
     (if ev_error ev then conns - {ev_fd ev}
      else if ev_in ev then
        (if ev_fd ev = sockFd then
           (case accept_loop (ev_accept ev) of Some (Some (c, ip)) \<Rightarrow> insert c conns | _ \<Rightarrow> conns)
         else conns - {ev_fd ev})
      else conns)"

definition delivered :: "int \<Rightarrow> int set \<Rightarrow> event \<Rightarrow> bool" where
  "delivered sockFd conns ev =
     (ev_fd ev \<in> insert sockFd conns \<and>
      (case accept_loop (ev_accept ev) of
         Some (Some (c, ip)) \<Rightarrow> c \<notin> insert sockFd conns | _ \<Rightarrow> True))"

inductive loop_step :: "os \<Rightarrow> int \<Rightarrow> server \<Rightarrow> gstate \<times> int set \<Rightarrow> gstate \<times> int set \<Rightarrow> bool"
  for os sockFd srv where
  handled: "delivered sockFd conns ev \<Longrightarrow>
    handle_event os sockFd srv ev g = (as, Inr (Go_on, g')) \<Longrightarrow>
    loop_step os sockFd srv (g, conns) (g', open_after sockFd ev conns)"

inductive_cases loop_stepE: "loop_step os sockFd srv (g, conns) s'"

text \<open>The invariant: the registry has exactly one entry for every open connection, and the
  configuration is the checked one.\<close>

definition loop_inv :: "config_env \<Rightarrow> int \<Rightarrow> gstate \<times> int set \<Rightarrow> bool" where
  "loop_inv env sockFd s = (case s of (g, conns) \<Rightarrow>
     distinct (client_fds g) \<and> set (client_fds g) = conns \<and> sockFd \<notin> conns \<and> config_ready env g)"

lemma client_frame [simp]:
  "config_ready env (setClientConnection c g) = config_ready env g"
  "config_ready env (snd (removeClientConnection fd g)) = config_ready env g"
proof -
  have "config_ready env (g\<lparr>g_clients := cs\<rparr>) = config_ready env g" for cs
    by (simp add: config_ready_def server_ok_def [abs_def])
  then show "config_ready env (setClientConnection c g) = config_ready env g"
    "config_ready env (snd (removeClientConnection fd g)) = config_ready env g"
    by (simp_all add: setClientConnection_def removeClientConnection_def case_prod_beta)
qed

lemma client_fds_view: "request_view g' = request_view g \<Longrightarrow> client_fds g' = client_fds g"
  unfolding client_fds_def by (drule request_view_fields(3)) (rule arg_cong)

lemma cleanup_inv:
  "loop_inv env sockFd (g, conns) \<Longrightarrow> loop_inv env sockFd (snd (removeClientConnection fd g), conns - {fd})"
  by (auto simp: loop_inv_def clients.distinct_del clients.keys_set_del)

lemma accept_inv:
  assumes "loop_inv env sockFd (g, conns)" "fd \<notin> insert sockFd conns" "cl_fd c = fd"
  shows "loop_inv env sockFd (setClientConnection c g, insert fd conns)"
  using assms clients.keys_put [of c g] by (auto simp: loop_inv_def)

lemma serve_client_run:
  assumes "serve_client os srv fd received g = (as, Inr (f, g'))"
  obtains as1 g1 where "processInput os (new_request srv fd False) received g = (as1, Inr ((), g1))"
    "as = as1 @ cleanup_actions fd g1" "g' = snd (removeClientConnection fd g1)" "f = Go_on"
  using assms unfolding serve_client_def
  by (elim bind_io_InrE) (auto simp: io_simps)

lemma accept_client_run:
  assumes "accept_client sockFd srv ev g = (as, Inr (Go_on, g'))"
  obtains fd ip c where "accept_loop (ev_accept ev) = Some (Some (fd, ip))" "ev_added ev"
    "cl_fd c = fd" "cl_server c = srv" "ip = Some (cl_ip c)" "cl_ctx c = None"
    "g' = setClientConnection c g" "as = [EpollAdd fd]"
  using assms unfolding accept_client_def
  by (auto simp: io_simps split: option.splits prod.splits if_splits elim!: bind_io_InrE
      dest!: queue_run)

lemma handle_event_inv:
  assumes inv: "loop_inv env sockFd (g, conns)" and del: "delivered sockFd conns ev"
    and run: "handle_event os sockFd srv ev g = (as, Inr (Go_on, g'))"
  shows "loop_inv env sockFd (g', open_after sockFd ev conns)"
proof (cases "ev_error ev")
  case True
  with run show ?thesis
    using cleanup_inv [OF inv] by (auto simp: handle_event_def io_simps open_after_def split: if_splits)
next
  case ok: False
  consider (idle) "\<not> ev_in ev" | (accept) "ev_in ev" "ev_fd ev = sockFd" | (serve) "ev_in ev" "ev_fd ev \<noteq> sockFd"
    by blast
  then show ?thesis
  proof cases
    case idle
    with ok run inv show ?thesis by (auto simp: handle_event_def io_simps open_after_def)
  next
    case accept
    with ok run have "accept_client sockFd srv ev g = (as, Inr (Go_on, g'))" by (simp add: handle_event_def)
    then obtain fd ip c where "accept_loop (ev_accept ev) = Some (Some (fd, ip))" "cl_fd c = fd"
      "g' = setClientConnection c g" by (rule accept_client_run)
    with accept_inv [OF inv] ok accept del show ?thesis by (simp add: open_after_def delivered_def)
  next
    case serve
    with ok run have "serve_client os srv (ev_fd ev) (ev_received ev) g = (as, Inr (Go_on, g'))"
      by (simp add: handle_event_def)
    then obtain as1 g1 where p: "processInput os (new_request srv (ev_fd ev) False) (ev_received ev) g = (as1, Inr ((), g1))"
      and g': "g' = snd (removeClientConnection (ev_fd ev) g1)" by (rule serve_client_run)
    from inv have "config_ready env g" by (simp add: loop_inv_def)
    from request_frame_run [OF this p] have v: "config_ready env g1" "client_fds g1 = client_fds g"
      using client_fds_view by blast+
    with inv have "loop_inv env sockFd (g1, conns)" by (simp add: loop_inv_def)
    with cleanup_inv ok serve g' show ?thesis by (simp add: open_after_def)
  qed
qed

text \<open>The invariant holds in every reachable state of the loop.\<close>

lemma loop_reach_inv:
  assumes "(loop_step os sockFd srv)\<^sup>*\<^sup>* s s'" "loop_inv env sockFd s"
  shows "loop_inv env sockFd s'"
  using assms
proof (induction rule: rtranclp_induct)
  case (step s1 s2)
  then show ?case by (cases s1) (auto elim!: loop_stepE intro: handle_event_inv)
qed simp

text \<open>The functions of the loop take such steps.\<close>

fun events_delivered :: "int \<Rightarrow> int set \<Rightarrow> event list \<Rightarrow> bool" where
  "events_delivered sockFd conns [] = True"
| "events_delivered sockFd conns (ev # evs) =
     (delivered sockFd conns ev \<and> events_delivered sockFd (open_after sockFd ev conns) evs)"

fun rounds_delivered :: "int \<Rightarrow> int set \<Rightarrow> wait_result list \<Rightarrow> bool" where
  "rounds_delivered sockFd conns [] = True"
| "rounds_delivered sockFd conns (Events evs # ws) =
     (events_delivered sockFd conns evs \<and>
      rounds_delivered sockFd (fold (open_after sockFd) evs conns) ws)"
| "rounds_delivered sockFd conns (_ # ws) = rounds_delivered sockFd conns ws"

lemma handle_events_steps:
  assumes "handle_events os sockFd srv evs g = (as, Inr (Go_on, g'))" "events_delivered sockFd conns evs"
  shows "(loop_step os sockFd srv)\<^sup>*\<^sup>* (g, conns) (g', fold (open_after sockFd) evs conns)"
  using assms
proof (induction evs arbitrary: g as conns)
  case Nil
  then show ?case by (simp add: io_simps)
next
  case (Cons ev evs)
  from Cons.prems(1) obtain as1 f g1 as2 where ev: "handle_event os sockFd srv ev g = (as1, Inr (f, g1))"
    and rest: "(if f = Go_on then handle_events os sockFd srv evs else ret_io f) g1 = (as2, Inr (Go_on, g'))"
    by (auto elim: bind_io_InrE)
  then have f: "f = Go_on" by (auto simp: io_simps split: if_splits)
  from Cons.prems(2) ev f have "loop_step os sockFd srv (g, conns) (g1, open_after sockFd ev conns)"
    by (auto intro: loop_step.intros)
  moreover from Cons.IH [of g1 as2 "open_after sockFd ev conns"] rest f Cons.prems(2)
  have "(loop_step os sockFd srv)\<^sup>*\<^sup>* (g1, open_after sockFd ev conns)
      (g', fold (open_after sockFd) evs (open_after sockFd ev conns))" by simp
  ultimately show ?case by (simp add: converse_rtranclp_into_rtranclp)
qed

lemma handle_event_waiting:
  "handle_event os sockFd srv ev g = (as, Inr (Waiting, g')) \<Longrightarrow> g' = g"
  by (auto simp: handle_event_def accept_client_def io_simps split: if_splits option.splits prod.splits
      elim!: bind_io_InrE serve_client_run)

lemma handle_events_reach:
  assumes "handle_events os sockFd srv evs g = (as, Inr (f, g'))" "events_delivered sockFd conns evs"
    "f \<noteq> Leave"
  shows "\<exists>conns'. (loop_step os sockFd srv)\<^sup>*\<^sup>* (g, conns) (g', conns')"
  using assms
proof (induction evs arbitrary: g as conns)
  case Nil
  then show ?case by (auto simp: io_simps)
next
  case (Cons ev evs)
  from Cons.prems(1) obtain as1 f1 g1 as2 where ev: "handle_event os sockFd srv ev g = (as1, Inr (f1, g1))"
    and rest: "(if f1 = Go_on then handle_events os sockFd srv evs else ret_io f1) g1 = (as2, Inr (f, g'))"
    by (auto elim: bind_io_InrE)
  show ?case
  proof (cases "f1 = Go_on")
    case True
    with Cons.prems(2) ev have "loop_step os sockFd srv (g, conns) (g1, open_after sockFd ev conns)"
      by (auto intro: loop_step.intros)
    moreover from Cons.IH [of g1 as2 "open_after sockFd ev conns"] rest True Cons.prems(2,3)
    obtain conns' where "(loop_step os sockFd srv)\<^sup>*\<^sup>* (g1, open_after sockFd ev conns) (g', conns')"
      by auto
    ultimately show ?thesis by (blast intro: converse_rtranclp_into_rtranclp)
  next
    case False
    with rest Cons.prems(3) have "f1 = Waiting" "g' = g1" by (cases f1; simp add: io_simps)+
    with ev handle_event_waiting show ?thesis by blast
  qed
qed

lemma server_loop_reach:
  assumes "server_loop os sockFd srv ws g = (as, Inr (Waiting, g'))" "rounds_delivered sockFd conns ws"
  shows "\<exists>conns'. (loop_step os sockFd srv)\<^sup>*\<^sup>* (g, conns) (g', conns')"
  using assms
proof (induction os sockFd srv ws arbitrary: g as conns rule: server_loop.induct)
  case (4 os sockFd srv evs ws)
  from "4.prems"(1) obtain as1 f g1 as2 where evs: "handle_events os sockFd srv evs g = (as1, Inr (f, g1))"
    and rest: "(if f = Go_on then server_loop os sockFd srv ws else ret_io f) g1 = (as2, Inr (Waiting, g'))"
    by (auto elim: bind_io_InrE)
  show ?case
  proof (cases "f = Go_on")
    case True
    from handle_events_steps [OF evs [unfolded True], of conns] "4.prems"(2)
    have "(loop_step os sockFd srv)\<^sup>*\<^sup>* (g, conns) (g1, fold (open_after sockFd) evs conns)" by simp
    moreover from "4.IH" [of f g1 as2 "fold (open_after sockFd) evs conns"] True rest "4.prems"(2)
    obtain conns' where "(loop_step os sockFd srv)\<^sup>*\<^sup>* (g1, fold (open_after sockFd) evs conns) (g', conns')"
      by auto
    ultimately show ?thesis by (blast intro: rtranclp_trans)
  next
    case False
    with rest have "f = Waiting" "g' = g1" by (simp_all add: io_simps)
    with handle_events_reach [OF evs, of conns] "4.prems"(2) show ?thesis by simp
  qed
qed (auto simp: io_simps)

section \<open>What the loop guarantees\<close>

text \<open>C18: However long the plain server runs and whatever events it gets, the configuration stays the
  checked one and the connection registry is exact: one entry for every open connection and none for a
  closed one. So no request for an open connection ends the worker with a missing client.\<close>

theorem server_loop_invariant:
  assumes "config_ready env g" "g_clients g = []" "rounds_delivered sockFd {} ws"
    and "server_loop os sockFd srv ws g = (as, Inr (Waiting, g'))"
  shows "config_ready env g' \<and>
    (\<exists>conns. (loop_step os sockFd srv)\<^sup>*\<^sup>* (g, {}) (g', conns) \<and>
       distinct (client_fds g') \<and> set (client_fds g') = conns \<and> sockFd \<notin> conns \<and>
       (\<forall>fd \<in> conns. \<exists>c. getClient fd g' = ([], Inr (c, g'))))"
proof -
  from server_loop_reach [OF assms(4,3)] obtain conns
    where r: "(loop_step os sockFd srv)\<^sup>*\<^sup>* (g, {}) (g', conns)" by blast
  have "loop_inv env sockFd (g, {})" using assms(1,2) by (simp add: loop_inv_def client_fds_def)
  from loop_reach_inv [OF r this] have inv: "loop_inv env sockFd (g', conns)" .
  moreover have "\<exists>c. getClient fd g' = ([], Inr (c, g'))" if "fd \<in> conns" for fd
  proof -
    from inv that have "getClientConnection fd g' \<noteq> None"
      by (simp add: loop_inv_def clients.get_None)
    then show ?thesis by (auto simp: getClient_def io_simps)
  qed
  ultimately show ?thesis using r unfolding loop_inv_def by blast
qed


section \<open>A concrete run\<close>

definition ex_listen :: listen_env where
  "ex_listen = \<lparr>le_socket = 3, le_nonblock = True, le_reuse = True, le_bind = True, le_listen = True\<rparr>"

text \<open>A connection is accepted on descriptor 7 and sends an empty request.\<close>

definition ex_accept :: event where
  "ex_accept = \<lparr>ev_error = False, ev_in = True, ev_fd = 3, ev_accept = [Accepted 7 (Some ''10.0.0.1'')],
     ev_added = True, ev_received = []\<rparr>"

definition ex_input :: event where
  "ex_input = \<lparr>ev_error = False, ev_in = True, ev_fd = 7, ev_accept = [], ev_added = True, ev_received = []\<rparr>"

lemma ex_accept_run:
  "server_loop ex_os 3 ex_srv [Events [ex_accept]] ex_state =
     ([EpollAdd 7], Inr (Waiting, setClientConnection
        \<lparr>cl_fd = 7, cl_server = ex_srv, cl_ip = ''10.0.0.1'', cl_ctx = None\<rparr> ex_state))"
  by (simp add: io_simps handle_event_def ex_accept_def accept_client_def queueClientConnection_def Let_def bind_io_assoc)

lemma server_loop_invariant_witness:
  "\<exists>g'. snd (server_loop ex_os 3 ex_srv [Events [ex_accept]] ex_state) = Inr (Waiting, g') \<and>
     config_ready ex_env g' \<and> client_fds g' = [7]"
proof -
  have "rounds_delivered 3 {} [Events [ex_accept]]" "g_clients ex_state = []"
    by (simp_all add: delivered_def ex_accept_def ex_state_def initial_state_def)
  note inv = server_loop_invariant [OF ex_ready this(2,1) ex_accept_run]
  have "client_fds (setClientConnection
      \<lparr>cl_fd = 7, cl_server = ex_srv, cl_ip = ''10.0.0.1'', cl_ctx = None\<rparr> ex_state) = [7]"
    by (simp add: client_fds_def setClientConnection_def ex_state_def initial_state_def)
  with inv show ?thesis by (simp only: ex_accept_run snd_conv) blast
qed


text \<open>The server from its start on.\<close>

lemma server_main_reach:
  assumes "server_main os ep le add ws portNum srv g = (as, Inr (Waiting, g'))" "g_clients g = []"
    and "rounds_delivered (le_socket le) {} ws"
  shows "\<exists>conns. (loop_step os (le_socket le) srv)\<^sup>*\<^sup>* (g, {}) (g', conns)"
proof -
  have same: "snd (removeClientConnection fd g) = g" for fd
    using assms(2) by (simp add: removeClientConnection_def)
  from assms(1) have "snd (server_loop os (le_socket le) srv ws g) = Inr (Waiting, g')"
    by (auto simp: server_main_def epollCreate_def createBindAndListen_def io_simps Let_def same
        split: if_splits elim!: bind_io_InrE)
  then obtain bs where "server_loop os (le_socket le) srv ws g = (bs, Inr (Waiting, g'))"
    by (metis prod.collapse)
  from server_loop_reach [OF this assms(3)] show ?thesis .
qed

end
