(* ===== verification/OG_Process.thy ===== *)
theory OG_Process
  imports OG_Include OG_Mime OG_ConfigProps
begin

text \<open>
  The life of the processes: the command line (\<^verbatim>\<open>parseArgs.c\<close>), the daemon and its pid file
  (\<^verbatim>\<open>daemonize.c\<close>), the signals sent to it, the assignment of ports to processes and \<open>main\<close>
  (\<^verbatim>\<open>ogws.c\<close>). The system's answers (forks, files, access checks) are parameters.
\<close>

section \<open>The command line\<close>

text \<open>
  What successive calls of \<open>getopt\<close> return: an option character with \<open>optarg\<close>. The operands are
  what is left of the argument vector. \<open>readable\<close> is \<open>access(path, R_OK) == 0\<close>.
\<close>

definition parse_option :: "char \<times> string \<Rightarrow> gstate \<Rightarrow> gstate res" where
  "parse_option c g =
     (case c of (opt, arg) \<Rightarrow>
        if opt = CHR ''d'' then Inr (setDebug True g)
        else if opt = CHR ''t'' then Inr (setTestConfig True g)
        else if opt = CHR ''f'' then Inr (setForeground True g)
        else if opt = CHR ''v'' then Inr (setShowVersion True g)
        else if opt = CHR ''n'' then Inr (setDefaultServer False g)
        else if opt = CHR ''s'' then setSignalName arg g
        else if opt = CHR ''h'' then Inl (Exit 0)
        else Inr g)"

text \<open>\<open>*++q = '\0'\<close> behind the last slash: the directory with its slash.\<close>

definition config_dir :: "string \<Rightarrow> string res" where
  "config_dir p =
     bind_res (deref (strrchr p (CHR ''/''))) (\<lambda>q. Inr (take (length p - length q + 1) p))"

definition parseArgs :: "(string \<Rightarrow> bool) \<Rightarrow> (char \<times> string) list \<Rightarrow> string list \<Rightarrow> gstate \<Rightarrow> gstate res" where
  "parseArgs readable opts operands g =
     bind_res (run_res parse_option opts g) (\<lambda>g1.
     let configFile = (case operands of [] \<Rightarrow> ''/etc/ogws/ogws.conf'' | p # _ \<Rightarrow> p) in
     if \<not> readable configFile then Inl (Exit 1)
     else
       bind_res (setConfigFile configFile g1) (\<lambda>g2.
       bind_res (config_dir configFile) (\<lambda>d.
       bind_res (setConfigDir d g2) (\<lambda>g3.
       Inr (setGroup ''ogws'' (setUser ''ogws'' (setPidFile ''/etc/ogws/ogws.pid''
             (setVersion ''0.5.0'' g3))))))))"

section \<open>Processes\<close>

record proc =
  pr_server :: server
  pr_portNum :: int
  pr_tls :: bool

definition uniquePort :: "int \<Rightarrow> proc list \<Rightarrow> bool" where
  "uniquePort portNum procList = list_all (\<lambda>p. pr_portNum p \<noteq> portNum) procList"

text \<open>\<open>worker_processes\<close> elements in front of the list for a port that is not yet in it.\<close>

definition add_port :: "int \<Rightarrow> server \<Rightarrow> port \<Rightarrow> proc list \<Rightarrow> proc list" where
  "add_port workers srv port procList =
     (if uniquePort (port_num port) procList
      then replicate (nat workers)
             \<lparr>pr_server = srv, pr_portNum = port_num port, pr_tls = port_tls port\<rparr> @ procList
      else procList)"

definition plan :: "gstate \<Rightarrow> proc list" where
  "plan g =
     fold (\<lambda>srv. fold (add_port (getWorkerProcesses g) srv) (srv_ports srv)) (getServerList g) []"

text \<open>
  \<open>while (--pcount)\<close> with the results of \<open>fork\<close> (whether it succeeds): each round gives the head of
  the list to a child and moves the parent on; the parent keeps what is left. The result is the
  elements of the processes in the order of their start, the parent's last. With no element the first
  decrement gives -1, and both sides of the first fork follow the null pointer.
\<close>

fun fork_loop :: "proc list \<Rightarrow> bool list \<Rightarrow> proc list res" where
  "fork_loop [] forks = Inl NullDeref"
| "fork_loop [p] forks = Inr [p]"
| "fork_loop (p # q # ps) [] = Inl (Exit 1)"
| "fork_loop (p # q # ps) (ok # forks) =
     (if \<not> ok then Inl (Exit 1) else bind_res (fork_loop (q # ps) forks) (\<lambda>rs. Inr (p # rs)))"

definition startProcesses :: "bool list \<Rightarrow> gstate \<Rightarrow> proc list res" where
  "startProcesses forks g = fork_loop (plan g) forks"

lemma fork_loop_all: "fork_loop ps forks = Inr rs \<Longrightarrow> rs = ps \<and> ps \<noteq> []"
  by (induction ps forks arbitrary: rs rule: fork_loop.induct) (auto simp: res_simps split: if_splits)

lemma fork_loop_ok:
  "ps \<noteq> [] \<Longrightarrow> length ps \<le> Suc (length forks) \<Longrightarrow> list_all id forks \<Longrightarrow> fork_loop ps forks = Inr ps"
  by (induction ps forks rule: fork_loop.induct) auto

text \<open>The number of processes of a port, and what \<open>plan\<close> assigns to it.\<close>

definition procs_for :: "int \<Rightarrow> proc list \<Rightarrow> nat" where
  "procs_for n ps = length (filter (\<lambda>p. pr_portNum p = n) ps)"

definition listens :: "gstate \<Rightarrow> int \<Rightarrow> bool" where
  "listens g n = (\<exists>s \<in> set (g_servers g). \<exists>p \<in> set (srv_ports s). port_num p = n)"

lemma procs_for_simps [simp]:
  "procs_for n [] = 0" "procs_for n (ps @ qs) = procs_for n ps + procs_for n qs"
  "procs_for n (replicate k p) = (if pr_portNum p = n then k else 0)"
  by (simp_all add: procs_for_def)

lemma uniquePort_procs: "uniquePort n ps \<longleftrightarrow> procs_for n ps = 0"
  by (auto simp: uniquePort_def procs_for_def list_all_iff filter_empty_conv)

text \<open>The (server, port) pairs in the order of the two loops.\<close>

definition listen_pairs :: "server list \<Rightarrow> (server \<times> port) list" where
  "listen_pairs ss = concat (map (\<lambda>s. map (Pair s) (srv_ports s)) ss)"

lemma plan_pairs:
  "plan g = fold (\<lambda>(s, p). add_port (getWorkerProcesses g) s p) (listen_pairs (g_servers g)) []"
proof -
  have "fold (\<lambda>srv. fold (add_port w srv) (srv_ports srv)) ss acc =
      fold (\<lambda>(s, p). add_port w s p) (listen_pairs ss) acc" for w ss acc
    by (induction ss arbitrary: acc) (simp_all add: listen_pairs_def fold_map comp_def)
  then show ?thesis by (simp add: plan_def)
qed

lemma fold_add_port_count:
  assumes "0 < w" "\<forall>n. procs_for n acc \<in> {0, nat w}"
  shows "procs_for n (fold (\<lambda>(s, p). add_port w s p) sps acc) =
     (if procs_for n acc \<noteq> 0 \<or> (\<exists>(s, p) \<in> set sps. port_num p = n) then nat w else 0)"
  using assms(2)
proof (induction sps arbitrary: acc)
  case Nil
  then show ?case using assms(1) by (auto dest: spec [of _ n])
next
  case (Cons sp sps)
  obtain s p where sp: "sp = (s, p)" by (cases sp)
  have "procs_for m (add_port w s p acc) \<in> {0, nat w}" for m
    using Cons.prems by (auto simp: add_port_def uniquePort_procs)
  from Cons.IH [OF allI, OF this] show ?case
    using assms(1) Cons.prems by (auto simp: sp add_port_def uniquePort_procs)
qed

lemma add_port_mem:
  "r \<in> set (add_port w s p ps) \<Longrightarrow> r \<in> set ps \<or> (uniquePort (port_num p) ps \<and> 0 < w \<and>
     r = \<lparr>pr_server = s, pr_portNum = port_num p, pr_tls = port_tls p\<rparr>)"
  by (auto simp: add_port_def split: if_splits)

lemma fold_add_port_elem:
  assumes "r \<in> set (fold (\<lambda>(s, p). add_port w s p) sps [])"
  shows "find (\<lambda>(s, p). port_num p = pr_portNum r) sps =
     Some (pr_server r, \<lparr>port_num = pr_portNum r, port_tls = pr_tls r\<rparr>)"
  using assms
proof (induction sps rule: rev_induct)
  case (snoc sp sps)
  obtain s p where sp: "sp = (s, p)" by (cases sp)
  let ?old = "fold (\<lambda>(s, p). add_port w s p) sps []"
  consider "r \<in> set ?old" | "uniquePort (port_num p) ?old" "0 < w"
      "r = \<lparr>pr_server = s, pr_portNum = port_num p, pr_tls = port_tls p\<rparr>"
    using add_port_mem [of r w s p ?old] snoc.prems by (auto simp only: sp fold_append fold.simps comp_apply id_apply prod.case)
  then show ?case
  proof cases
    case 1
    with snoc.IH show ?thesis by (simp add: find_append)
  next
    case 2
    with fold_add_port_count [of w "[]" "port_num p" sps]
    have "\<not> (\<exists>(s', p') \<in> set sps. port_num p' = port_num p)"
      by (auto simp: uniquePort_procs split: if_splits)
    then have "find (\<lambda>(s', p'). port_num p' = port_num p) sps = None"
      by (auto simp: find_None_iff)
    with 2 show ?thesis by (simp add: find_append sp)
  qed
qed simp

lemma listen_pairs_ex: "(\<exists>(s, p) \<in> set (listen_pairs ss). port_num p = n) \<longleftrightarrow>
    (\<exists>s \<in> set ss. \<exists>p \<in> set (srv_ports s). port_num p = n)"
  by (auto simp: listen_pairs_def)

lemma startProcesses_run:
  assumes "0 < getWorkerProcesses g" "startProcesses forks g = Inr rs"
  shows "procs_for n rs = (if listens g n then nat (getWorkerProcesses g) else 0)"
    and "r \<in> set rs \<Longrightarrow> find (\<lambda>(s, p). port_num p = pr_portNum r) (listen_pairs (g_servers g)) =
      Some (pr_server r, \<lparr>port_num = pr_portNum r, port_tls = pr_tls r\<rparr>)"
proof -
  from assms(2) have rs: "rs = plan g" unfolding startProcesses_def by (auto dest: fork_loop_all)
  show "procs_for n rs = (if listens g n then nat (getWorkerProcesses g) else 0)"
    using fold_add_port_count [OF assms(1), of "[]"] 
    by (simp add: rs plan_pairs listens_def listen_pairs_ex)
  show "r \<in> set rs \<Longrightarrow> find (\<lambda>(s, p). port_num p = pr_portNum r) (listen_pairs (g_servers g)) =
      Some (pr_server r, \<lparr>port_num = pr_portNum r, port_tls = pr_tls r\<rparr>)"
    unfolding rs plan_pairs by (rule fold_add_port_elem)
qed

section \<open>The server of a port\<close>

text \<open>The search of \<open>configureContext\<close> (\<^verbatim>\<open>tlsServer.c\<close>) for the server whose certificate it
  loads.\<close>

definition port_server :: "int \<Rightarrow> gstate \<Rightarrow> server option" where
  "port_server portNum g =
     find (\<lambda>s. list_ex (\<lambda>p. port_num p = portNum) (srv_ports s)) (getServerList g)"

lemma find_listen_pairs:
  "find (\<lambda>(s, p). port_num p = n) (listen_pairs ss) = Some (s, p) \<Longrightarrow>
   find (\<lambda>s. list_ex (\<lambda>p. port_num p = n) (srv_ports s)) ss = Some s \<and> p \<in> set (srv_ports s)"
proof (induction ss)
  case (Cons t ts)
  have f: "find (\<lambda>(s, p). port_num p = n) (map (Pair t) ps) = map_option (Pair t) (find (\<lambda>p. port_num p = n) ps)" for ps
    by (induction ps) auto
  show ?case
  proof (cases "find (\<lambda>p. port_num p = n) (srv_ports t)")
    case None
    then have "\<not> list_ex (\<lambda>p. port_num p = n) (srv_ports t)"
      by (auto simp: find_None_iff list_ex_iff)
    with Cons None show ?thesis by (simp add: listen_pairs_def find_append f)
  next
    case (Some q)
    then have "q \<in> set (srv_ports t)" "port_num q = n" by (auto simp: find_Some_iff)
    with Cons.prems Some show ?thesis
      by (auto simp: listen_pairs_def find_append f list_ex_iff)
  qed
qed (simp add: listen_pairs_def)

text \<open>C33: Every port that some server listens on gets exactly \<open>worker_processes\<close> processes, and no other
  port gets any. Each process is given the first server of the list that listens on its port, which for
  a TLS port is the one whose certificate \<open>configureContext\<close> loads, and the TLS flag of that server's
  port; in a checked configuration that is the flag of the port for every server.\<close>

theorem startProcesses_covers:
  assumes "0 < getWorkerProcesses g" "startProcesses forks g = Inr rs"
  shows "(\<forall>n. procs_for n rs = (if listens g n then nat (getWorkerProcesses g) else 0)) \<and>
    (\<forall>r \<in> set rs. port_server (pr_portNum r) g = Some (pr_server r) \<and>
      \<lparr>port_num = pr_portNum r, port_tls = pr_tls r\<rparr> \<in> set (srv_ports (pr_server r)) \<and>
      (tls_consistent (g_servers g) \<longrightarrow>
        (\<forall>s \<in> set (g_servers g). \<forall>p \<in> set (srv_ports s). port_num p = pr_portNum r \<longrightarrow> port_tls p = pr_tls r)))"
proof (intro conjI allI ballI impI)
  fix r assume r: "r \<in> set rs"
  let ?p = "\<lparr>port_num = pr_portNum r, port_tls = pr_tls r\<rparr>"
  from find_listen_pairs [OF startProcesses_run(2) [OF assms r]]
  have ps: "find (\<lambda>s. list_ex (\<lambda>p. port_num p = pr_portNum r) (srv_ports s)) (g_servers g) = Some (pr_server r)"
    and p: "?p \<in> set (srv_ports (pr_server r))" by auto
  then show "port_server (pr_portNum r) g = Some (pr_server r)" by (simp add: port_server_def)
  show "?p \<in> set (srv_ports (pr_server r))" by (rule p)
  fix s q assume t: "tls_consistent (g_servers g)" "s \<in> set (g_servers g)" "q \<in> set (srv_ports s)"
    "port_num q = pr_portNum r"
  have "pr_server r \<in> set (g_servers g)" using ps by (auto simp: find_Some_iff)
  then have "port_num q = port_num ?p \<longrightarrow> port_tls q = port_tls ?p"
    using t(1) [unfolded tls_consistent_def] t(2,3) p by blast
  with t(4) show "port_tls q = pr_tls r" by simp
qed (rule startProcesses_run(1) [OF assms])

lemma startProcesses_covers_witness:
  "\<exists>rs. startProcesses [True] (setWorkerProcesses 2 ex_state) = Inr rs \<and> procs_for 80 rs = 2 \<and>
     (\<forall>r \<in> set rs. port_server (pr_portNum r) ex_state = Some (pr_server r))"
proof -
  let ?g = "setWorkerProcesses 2 ex_state"
  let ?p = "\<lparr>pr_server = ex_srv, pr_portNum = 80, pr_tls = False\<rparr>"
  have run: "startProcesses [True] ?g = Inr [?p, ?p]" and w: "0 < getWorkerProcesses ?g"
    and l: "listens ?g 80" and n: "getWorkerProcesses ?g = 2"
    by code_simp+
  have "port_server k ?g = port_server k ex_state" for k
    by (simp add: port_server_def setWorkerProcesses_def)
  with startProcesses_covers [OF w run] run l n show ?thesis by simp
qed

section \<open>The daemon and its pid file\<close>

text \<open>What a run does to other processes and to files.\<close>

datatype proc_action =
    Write_file string string
  | Unlink string
  | Kill int int
  | Redirect string

text \<open>
  The results of the calls of \<open>daemonize\<close>: the two forks, \<open>setsid\<close>, \<open>chdir\<close>, the opening of the
  debug file and of the pid file, and \<open>getpid\<close>. The run followed is the one of the process that these
  results describe.
\<close>

record daemon_env =
  de_fork1 :: int
  de_setsid :: bool
  de_fork2 :: int
  de_chdir :: bool
  de_debug :: bool
  de_pidFile :: bool
  de_pid :: int

definition detach :: "daemon_env \<Rightarrow> gstate \<Rightarrow> proc_action list res" where
  "detach de g =
     (if de_fork1 de = -1 then Inl (Exit 1)
      else if de_fork1 de \<noteq> 0 then Inl (Exit 0)
      else if \<not> de_setsid de then Inl (Exit 1)
      else if de_fork2 de = -1 then Inl (Exit 1)
      else if de_fork2 de \<noteq> 0 then Inl (Exit 0)
      else if \<not> de_chdir de then Inl (Exit 1)
      else
        bind_res (deref (getConfigDir g)) (\<lambda>d.
        let p = d @ ''debug.out'' in
        if length p \<ge> 256 then Inl OutOfBounds
        else if \<not> de_debug de then Inl (Exit 1)
        else Inr [Redirect p]))"

definition daemonize :: "daemon_env \<Rightarrow> gstate \<Rightarrow> proc_action list \<times> unit res" where
  "daemonize de g =
     (case (if \<not> isForeground g then detach de g else Inr []) of
        Inl e \<Rightarrow> ([], Inl e)
      | Inr as \<Rightarrow>
          (case getPidFile g of
             None \<Rightarrow> (as, Inl NullDeref)
           | Some f \<Rightarrow>
               if \<not> de_pidFile de then (as, Inl (Exit 1))
               else (as @ [Write_file f (fmt_d (de_pid de) @ [LF])], Inr ())))"

section \<open>Signals\<close>

text \<open>\<open>fgets\<close> into a buffer of \<open>n\<close> bytes: up to and with the first line feed.\<close>

fun upto_LF :: "string \<Rightarrow> string" where
  "upto_LF [] = []"
| "upto_LF (c # cs) = (if c = LF then [LF] else c # upto_LF cs)"

definition fgets :: "nat \<Rightarrow> string \<Rightarrow> string option" where
  "fgets n s = (if s = [] then None else Some (upto_LF (take (n - 1) s)))"

definition sendSignal :: "(string \<Rightarrow> string option) \<Rightarrow> string \<Rightarrow> gstate \<Rightarrow> proc_action list \<times> unit res" where
  "sendSignal files sn g =
     (case getPidFile g of
        None \<Rightarrow> ([], Inl NullDeref)
      | Some pidFile \<Rightarrow>
          (case files pidFile of
             None \<Rightarrow> ([], Inl (Exit 1))
           | Some t \<Rightarrow>
               (case fgets 10 t of
                  None \<Rightarrow> ([Unlink pidFile], Inl (Exit 1))
                | Some buff \<Rightarrow>
                    let pid = atoi buff in
                    if sn = ''stop'' then ([Kill pid 9, Unlink pidFile], Inr ())
                    else if sn = ''quit'' then ([Kill pid 2, Unlink pidFile], Inr ())
                    else ([], Inr ()))))"

text \<open>The file system after a run: the last text written to each file.\<close>

fun written :: "proc_action list \<Rightarrow> string \<Rightarrow> string option" where
  "written [] f = None"
| "written (Write_file p t # as) f = (case written as f of None \<Rightarrow> if p = f then Some t else None | r \<Rightarrow> r)"
| "written (_ # as) f = written as f"

lemma upto_LF_append: "LF \<notin> set a \<Longrightarrow> upto_LF (a @ b) = a @ upto_LF b"
  by (induction a) auto

lemma fgets_number:
  assumes "0 \<le> i" "i < 10 ^ 9"
  shows "\<exists>rest. fgets 10 (fmt_d i @ [LF]) = Some (fmt_d i @ rest) \<and> (rest = [] \<or> rest = [LF])"
proof -
  have len: "length (fmt_d i) \<le> 9"
    using assms length_show_nat_le [of "nat i" 9] by (simp add: fmt_d_def nat_less_iff)
  have no: "LF \<notin> set (fmt_d i)"
    using assms(1) show_nat_digits [of "nat i"] is_digit_not_special by (auto simp: fmt_d_def)
  have "take 9 (fmt_d i @ [LF]) = fmt_d i @ take (9 - length (fmt_d i)) [LF]" using len by simp
  then have "fgets 10 (fmt_d i @ [LF]) = Some (fmt_d i @ upto_LF (take (9 - length (fmt_d i)) [LF]))"
    using no by (simp add: fgets_def upto_LF_append)
  then show ?thesis by (cases "9 - length (fmt_d i)") auto
qed

lemma daemonize_written:
  "daemonize de g = (as, Inr ()) \<Longrightarrow> getPidFile g = Some f \<Longrightarrow>
   written as f = Some (fmt_d (de_pid de) @ [LF])"
  by (auto simp: daemonize_def detach_def res_simps Let_def split: sum.splits if_splits)

text \<open>C38: A signal reaches the daemon: \<open>stop\<close> and \<open>quit\<close> kill exactly the process whose pid
  \<open>daemonize\<close> has written to the pid file, for every pid the buffer of ten bytes can hold, and remove
  the file. A pid file that begins with anything else than a number makes them kill process 0, which is
  every process of the caller's own group.\<close>

theorem signal_reaches_daemon:
  assumes "daemonize de g = (as, Inr ())" "getPidFile g = Some f" "0 < de_pid de" "de_pid de < 10 ^ 9"
    and "files f = written as f" "t \<noteq> []" "\<not> is_digit (hd t)" "\<not> is_space (hd t)"
    and "hd t \<noteq> CHR ''-''" "hd t \<noteq> CHR ''+''" "hd t \<noteq> LF"
  shows "sendSignal files ''stop'' g = ([Kill (de_pid de) 9, Unlink f], Inr ()) \<and>
    sendSignal files ''quit'' g = ([Kill (de_pid de) 2, Unlink f], Inr ()) \<and>
    sendSignal (files(f := Some t)) ''stop'' g = ([Kill 0 9, Unlink f], Inr ())"
proof -
  have content: "files f = Some (fmt_d (de_pid de) @ [LF])"
    using daemonize_written [OF assms(1,2)] assms(5) by simp
  obtain rest where r: "fgets 10 (fmt_d (de_pid de) @ [LF]) = Some (fmt_d (de_pid de) @ rest)"
    "rest = [] \<or> rest = [LF]" using fgets_number [of "de_pid de"] assms(3,4) by auto
  have "\<not> is_digit LF" by (simp add: is_digit_def)
  with r(2) have "rest = [] \<or> \<not> is_digit (hd rest)" by auto
  then have pid: "atoi (fmt_d (de_pid de) @ rest) = de_pid de"
    using assms(3,4) by (intro atoi_fmt_d) simp_all
  obtain c cs where t: "t = c # cs" using assms(6) by (cases t) auto
  then have "fgets 10 t = Some (c # upto_LF (take 8 cs))" using assms(11) by (simp add: fgets_def)
  moreover have "atoi (c # u) = 0" for u
    using assms(7-10) t by (simp add: atoi_def strtol_def digits_val_def to_int32_id)
  ultimately show ?thesis
    using assms(2) content r(1) pid by (simp add: sendSignal_def Let_def)
qed


definition ex_daemon :: daemon_env where
  "ex_daemon = \<lparr>de_fork1 = 0, de_setsid = True, de_fork2 = 0, de_chdir = True, de_debug = True,
     de_pidFile = True, de_pid = 4711\<rparr>"

lemma signal_reaches_daemon_witness:
  "let g = setPidFile ''/run/ogws.pid'' (setForeground True ex_state);
       files = (\<lambda>f. if f = ''/run/ogws.pid'' then Some (fmt_d 4711 @ [LF]) else None)
   in sendSignal files ''stop'' g = ([Kill 4711 9, Unlink ''/run/ogws.pid''], Inr ()) \<and>
      sendSignal (files(''/run/ogws.pid'' := Some ''x'')) ''stop'' g = ([Kill 0 9, Unlink ''/run/ogws.pid''], Inr ())"
proof -
  let ?g = "setPidFile ''/run/ogws.pid'' (setForeground True ex_state)"
  let ?as = "[Write_file ''/run/ogws.pid'' (fmt_d 4711 @ [LF])]"
  have d: "daemonize ex_daemon ?g = (?as, Inr ())" and f: "getPidFile ?g = Some ''/run/ogws.pid''"
    by (simp_all add: daemonize_def ex_daemon_def setPidFile_def setForeground_def)
  have p: "de_pid ex_daemon = 4711" by (simp add: ex_daemon_def)
  show ?thesis
    using signal_reaches_daemon [OF d f, of "\<lambda>f. if f = ''/run/ogws.pid'' then Some (fmt_d 4711 @ [LF]) else None" "''x''"]
    by (simp add: p is_digit_def is_space_def Let_def)
qed

end
