(* ===== verification/OG_Trace.thy ===== *)
theory OG_Trace
  imports OG_Include "HOL-Library.Word"
begin

text \<open>
  \<open>doTrace\<close> of \<^verbatim>\<open>log.c\<close>: the hexadecimal dump of received and sent data on the standard error.
\<close>

section \<open>Formats\<close>

definition hex_char :: "nat \<Rightarrow> char" where
  "hex_char d = ''0123456789ABCDEF'' ! d"

fun hex_digits :: "nat \<Rightarrow> string" where
  "hex_digits n = (if n < 16 then [hex_char n] else hex_digits (n div 16) @ [hex_char (n mod 16)])"

declare hex_digits.simps [simp del]

text \<open>\<open>%n.nX\<close>\<close>

definition fmt_X :: "nat \<Rightarrow> 32 word \<Rightarrow> string" where
  "fmt_X k w = (let s = hex_digits (unat w) in replicate (k - length s) (CHR ''0'') @ s)"

text \<open>A \<open>char\<close> passed for \<open>%X\<close> is promoted to \<open>int\<close> with its sign.\<close>

definition char_arg :: "char \<Rightarrow> 32 word" where
  "char_arg c = scast (word_of_nat (of_char c) :: 8 word)"

definition isprint :: "char \<Rightarrow> bool" where
  "isprint c = (32 \<le> (of_char c :: nat) \<and> (of_char c :: nat) < 127)"

definition shown :: "char \<Rightarrow> char" where
  "shown c = (if isprint c then c else CHR ''.'')"

section \<open>The dump\<close>

definition line_head :: "char \<Rightarrow> 32 word \<Rightarrow> 32 word \<Rightarrow> string" where
  "line_head dir f l = fmt_X 4 f @ '' - '' @ fmt_X 4 l @ '' '' @ [dir] @ '' ''"

text \<open>A line of sixteen bytes, written with one format, and the shorter last line, written piece by
  piece.\<close>

definition full_line :: "char \<Rightarrow> 32 word \<Rightarrow> string \<Rightarrow> string" where
  "full_line dir f b =
     line_head dir f (f + 15) @ concat (map (\<lambda>c. fmt_X 2 (char_arg c)) (take 8 b)) @ '' - '' @
     concat (map (\<lambda>c. fmt_X 2 (char_arg c)) (drop 8 b)) @ ''  '' @ map shown b @ [LF]"

definition tail_line :: "char \<Rightarrow> 32 word \<Rightarrow> string \<Rightarrow> string" where
  "tail_line dir f b =
     line_head dir f (f + word_of_nat (length b) - 1) @
     concat (map (\<lambda>(i, c). fmt_X 2 (char_arg c) @ (if i = 7 then '' - '' else [])) (enumerate 0 b)) @
     replicate (32 - length b * 2) (CHR '' '') @
     (if length b < 8 then ''   '' else []) @ ''  '' @ map shown b @ [LF]"

function trace_lines :: "char \<Rightarrow> 32 word \<Rightarrow> string \<Rightarrow> int \<Rightarrow> string" where
  "trace_lines dir f p bytes =
     (if 16 \<le> bytes then full_line dir f (take 16 p) @ trace_lines dir (f + 16) (drop 16 p) (bytes - 16)
      else if 0 < bytes then tail_line dir f (take (nat bytes) p)
      else [])"
  by pat_completeness auto

termination by (relation "measure (\<lambda>(dir, f, p, bytes). nat bytes)") auto

declare trace_lines.simps [simp del]

definition doTrace :: "gstate \<Rightarrow> char \<Rightarrow> string \<Rightarrow> int \<Rightarrow> string" where
  "doTrace g dir p bytes = (if \<not> isTrace g then [] else trace_lines dir 0 p bytes)"

section \<open>Reading a dump\<close>

definition hex_val :: "char \<Rightarrow> nat option" where
  "hex_val c =
     (let n = of_char c in
      if 48 \<le> n \<and> n \<le> 57 then Some (n - 48) else if 65 \<le> n \<and> n \<le> 70 then Some (n - 55) else None)"

text \<open>The pairs of digits up to the first double blank; the separator after the eighth byte is skipped.\<close>

fun unhex :: "string \<Rightarrow> nat list" where
  "unhex (a # b # r) =
     (case (hex_val a, hex_val b) of
        (Some x, Some y) \<Rightarrow> (x * 16 + y) # unhex r
      | _ \<Rightarrow> if a = CHR '' '' \<and> b = CHR ''-'' then unhex (drop 1 r) else [])"
| "unhex _ = []"

definition dump_bytes :: "string \<Rightarrow> nat list" where
  "dump_bytes t = concat (map (\<lambda>l. unhex (drop 14 l)) (lines_of t))"

lemma hex_char_val: "d < 16 \<Longrightarrow> hex_val (hex_char d) = Some d"
proof -
  have "list_all (\<lambda>d. hex_val (hex_char d) = Some d) [0..<16]" by code_simp
  then show "d < 16 \<Longrightarrow> ?thesis" by (simp add: list_all_iff)
qed

lemma byte_format:
  assumes "(of_char c :: nat) < 128"
  shows "fmt_X 2 (char_arg c) = [hex_char (of_char c div 16), hex_char (of_char c mod 16)]"
proof -
  let ?n = "of_char c :: nat"
  have "sint (word_of_nat ?n :: 8 word) = int ?n"
    using assms by (simp add: sint_uint unsigned_of_nat take_bit_nat_eq_self signed_take_bit_int_eq_self)
  then have "char_arg c = word_of_nat ?n"
    unfolding char_arg_def by (metis of_int_of_nat_eq scast_eq)
  then have u: "unat (char_arg c) = ?n"
    using assms by (simp add: unsigned_of_nat take_bit_nat_eq_self)
  show ?thesis
  proof (cases "?n < 16")
    case True
    then show ?thesis by (simp add: fmt_X_def u hex_digits.simps [of ?n] hex_char_def numeral_2_eq_2)
  next
    case False
    with assms have "?n div 16 < 16" by simp
    with False show ?thesis
      by (simp add: fmt_X_def u hex_digits.simps [of ?n] hex_digits.simps [of "?n div 16"])
  qed
qed

definition low :: "char \<Rightarrow> bool" where
  "low c = ((of_char c :: nat) < 128)"

abbreviation hexes :: "string \<Rightarrow> string" where
  "hexes b \<equiv> concat (map (\<lambda>c. fmt_X 2 (char_arg c)) b)"

lemma unhex_hexes: "list_all low b \<Longrightarrow> unhex (hexes b @ s) = map of_char b @ unhex s"
proof (induction b)
  case (Cons c b)
  then have c: "(of_char c :: nat) < 128" by (simp add: low_def)
  then have "of_char c div 16 < (16 :: nat)" "of_char c mod 16 < (16 :: nat)" by simp_all
  note v = hex_char_val [OF this(1)] hex_char_val [OF this(2)]
  from Cons show ?case by (simp add: byte_format [OF c] v)
qed simp

lemma unhex_sep [simp]: "unhex (CHR '' '' # CHR ''-'' # CHR '' '' # s) = unhex s"
  by (simp add: hex_val_def)

lemma unhex_blanks [simp]: "unhex (replicate k (CHR '' '') @ CHR '' '' # CHR '' '' # s) = []"
proof -
  have blanks: "replicate k (CHR '' '') @ CHR '' '' # CHR '' '' # s =
      CHR '' '' # CHR '' '' # replicate k (CHR '' '') @ s" by (induction k) auto
  show ?thesis by (subst blanks) (simp add: hex_val_def)
qed

lemma unhex_end [simp]: "unhex (CHR '' '' # CHR '' '' # s) = []"
  by (simp add: hex_val_def)

declare unhex.simps(1) [simp del]

lemma tail_hexes:
  "concat (map (\<lambda>(i, c). fmt_X 2 (char_arg c) @ (if i = 7 then '' - '' else [])) (enumerate n b)) =
   (if n \<le> 7 \<and> 7 < n + length b then hexes (take (8 - n) b) @ '' - '' @ hexes (drop (8 - n) b) else hexes b)"
proof (induction b arbitrary: n)
  case (Cons c b)
  show ?case
  proof (cases "n \<le> 7")
    case True
    then have "8 - n = Suc (7 - n)" "8 - Suc n = 7 - n" by simp_all
    with True Cons [of "Suc n"] show ?thesis by auto
  next
    case False
    with Cons [of "Suc n"] show ?thesis by simp
  qed
qed simp

lemma length_hex_digits: "n < 16 ^ k \<Longrightarrow> 0 < k \<Longrightarrow> length (hex_digits n) \<le> k"
proof (induction n arbitrary: k rule: hex_digits.induct)
  case (1 n)
  show ?case
  proof (cases "n < 16")
    case True
    with 1 show ?thesis by (simp add: hex_digits.simps [of n])
  next
    case False
    with "1.prems" obtain j where k: "k = Suc j" "0 < j" by (cases k; cases "k - 1") auto
    with "1.prems"(1) have "n div 16 < 16 ^ j" by (simp add: less_mult_imp_div_less mult.commute)
    with "1.IH" [OF False, of j] k False show ?thesis by (simp add: hex_digits.simps [of n])
  qed
qed

lemma length_offset: "n < 65536 \<Longrightarrow> length (fmt_X 4 (word_of_nat n)) = 4"
  using length_hex_digits [of n 4] by (simp add: fmt_X_def Let_def unsigned_of_nat take_bit_nat_eq_self)

lemma hex_digits_plain: "LF \<notin> set (hex_digits n)"
proof (induction n rule: hex_digits.induct)
  case (1 n)
  have "list_all (\<lambda>d. hex_char d \<noteq> LF) [0..<16]" by code_simp
  then have "d < 16 \<Longrightarrow> hex_char d \<noteq> LF" for d by (simp add: list_all_iff)
  with 1 show ?case by (subst hex_digits.simps) (auto dest: sym)
qed

lemma fmt_X_plain [simp]: "LF \<notin> set (fmt_X k w)"
  using hex_digits_plain by (auto simp: fmt_X_def Let_def)

lemma hexes_plain [simp]: "LF \<notin> set (hexes b)"
  by (induction b) auto

lemma shown_plain [simp]: "shown c \<noteq> LF"
  by (auto simp: shown_def isprint_def)

section \<open>The dump can be read back\<close>

lemma length_line_head:
  "k < 65536 \<Longrightarrow> l < 65536 \<Longrightarrow> length (line_head dir (word_of_nat k) (word_of_nat l)) = 14"
  by (simp add: line_head_def length_offset)

lemma line_head_plain: "dir \<noteq> LF \<Longrightarrow> LF \<notin> set (line_head dir f l)"
  by (auto simp: line_head_def)

lemma full_line_read:
  assumes "k + 16 \<le> 65536" "length b = 16" "list_all low b" "dir \<noteq> LF"
  shows "whole_line (full_line dir (word_of_nat k) b)"
    "unhex (drop 14 (full_line dir (word_of_nat k) b)) = map of_char b"
proof -
  let ?h = "line_head dir (word_of_nat k) (word_of_nat k + 15)"
  let ?body = "?h @ hexes (take 8 b) @ '' - '' @ hexes (drop 8 b) @ ''  '' @ map shown b"
  have line: "full_line dir (word_of_nat k) b = ?body @ [LF]" by (simp add: full_line_def)
  have "word_of_nat k + 15 = (word_of_nat (k + 15) :: 32 word)" by simp
  then have h: "length ?h = 14" using length_line_head [of k "k + 15" dir] assms(1) by simp
  have "LF \<notin> set ?body" using line_head_plain [OF assms(4)] by (auto dest: sym)
  with line show "whole_line (full_line dir (word_of_nat k) b)" unfolding whole_line_def by blast
  have "list_all low (take 8 b)" "list_all low (drop 8 b)"
    using assms(3) by (auto simp: list_all_iff dest: in_set_takeD in_set_dropD)
  note u = unhex_hexes [OF this(1)] unhex_hexes [OF this(2)]
  from u show "unhex (drop 14 (full_line dir (word_of_nat k) b)) = map of_char b"
    by (simp add: line h map_append [symmetric])
qed

lemma tail_line_read:
  assumes "k + length b \<le> 65536" "b \<noteq> []" "length b < 16" "list_all low b" "dir \<noteq> LF"
  shows "whole_line (tail_line dir (word_of_nat k) b)"
    "unhex (drop 14 (tail_line dir (word_of_nat k) b)) = map of_char b"
proof -
  let ?h = "line_head dir (word_of_nat k) (word_of_nat k + word_of_nat (length b) - 1)"
  let ?m = "concat (map (\<lambda>(i, c). fmt_X 2 (char_arg c) @ (if i = 7 then '' - '' else [])) (enumerate 0 b))"
  let ?pad = "replicate (32 - length b * 2) (CHR '' '') @ (if length b < 8 then ''   '' else [])"
  let ?body = "?h @ ?m @ ?pad @ ''  '' @ map shown b"
  have line: "tail_line dir (word_of_nat k) b = ?body @ [LF]" by (simp add: tail_line_def)
  have "word_of_nat k + word_of_nat (length b) - 1 = (word_of_nat (k + length b - 1) :: 32 word)"
    using assms(2) by (cases b) (simp_all add: algebra_simps)
  then have h: "length ?h = 14"
    using length_line_head [of k "k + length b - 1" dir] assms(1,2) by (cases b) simp_all
  have "LF \<notin> set ?body"
    using line_head_plain [OF assms(5)] by (auto simp: tail_hexes dest: sym split: if_splits)
  with line show "whole_line (tail_line dir (word_of_nat k) b)" unfolding whole_line_def by blast
  have l: "list_all low (take 8 b)" "list_all low (drop 8 b)"
    using assms(4) by (auto simp: list_all_iff dest: in_set_takeD in_set_dropD)
  have pad: "?pad @ ''  '' @ s = replicate (32 - length b * 2 + (if length b < 8 then 3 else 0)) (CHR '' '') @ CHR '' '' # CHR '' '' # s" for s
    by (simp add: replicate_add numeral_3_eq_3)
  have blank: "unhex (?pad @ ''  '' @ s) = []" for s by (simp only: pad unhex_blanks)
  have "unhex (?m @ ?pad @ ''  '' @ s) = map of_char b" for s
  proof (cases "7 < length b")
    case True
    then have m: "?m = hexes (take 8 b) @ '' - '' @ hexes (drop 8 b)" by (simp add: tail_hexes)
    have "unhex (?m @ r) = map of_char b @ unhex r" for r
      by (simp add: m unhex_hexes l map_append [symmetric])
    then show ?thesis by (simp only: blank append_Nil2)
  next
    case False
    then have m: "?m = hexes b" by (simp add: tail_hexes)
    show ?thesis by (simp only: m unhex_hexes [OF assms(4)] blank append_Nil2)
  qed
  then show "unhex (drop 14 (tail_line dir (word_of_nat k) b)) = map of_char b"
    unfolding line by (simp add: h)
qed

lemma trace_lines_read:
  assumes "k + length p \<le> 65536" "list_all low p" "dir \<noteq> LF"
  shows "dump_bytes (trace_lines dir (word_of_nat k) p (int (length p))) = map of_char p"
  using assms(1,2)
proof (induction "length p" arbitrary: k p rule: less_induct)
  case less
  consider (full) "16 \<le> length p" | (tail) "p \<noteq> []" "length p < 16" | (none) "p = []" by fastforce
  then show ?case
  proof cases
    case full
    let ?b = "take 16 p" and ?r = "drop 16 p"
    have b: "length ?b = 16" "list_all low ?b" and r: "list_all low ?r" "k + 16 + length ?r \<le> 65536"
      using full less.prems by (auto simp: list_all_iff dest: in_set_takeD in_set_dropD)
    have k: "k + 16 \<le> 65536" using full less.prems(1) by simp
    note line = full_line_read [OF k b assms(3)]
    have "trace_lines dir (word_of_nat k) p (int (length p)) =
        full_line dir (word_of_nat k) ?b @ trace_lines dir (word_of_nat (k + 16)) ?r (int (length ?r))"
      using full by (subst trace_lines.simps) (simp add: of_nat_diff)
    then have "dump_bytes (trace_lines dir (word_of_nat k) p (int (length p))) =
        map of_char ?b @ dump_bytes (trace_lines dir (word_of_nat (k + 16)) ?r (int (length ?r)))"
      using line by (simp add: dump_bytes_def lines_of_whole)
    also have "\<dots> = map of_char ?b @ map of_char ?r"
      using less.hyps [of ?r "k + 16"] full r by simp
    finally show ?thesis by (simp add: map_append [symmetric])
  next
    case tail
    note line = tail_line_read [OF less.prems(1) tail less.prems(2) assms(3)]
    have "trace_lines dir (word_of_nat k) p (int (length p)) = tail_line dir (word_of_nat k) p"
      using tail by (subst trace_lines.simps) simp
    then show ?thesis
      using line lines_of_whole [OF line(1), of "[]"] by (simp add: dump_bytes_def)
  next
    case none
    then show ?thesis by (simp add: trace_lines.simps dump_bytes_def)
  qed
qed

lemma high_format:
  assumes "\<not> low c"
  shows "take 6 (fmt_X 2 (char_arg c)) = ''FFFFFF'' \<and> length (fmt_X 2 (char_arg c)) = 8"
proof -
  let ?n = "of_char c :: nat"
  have n: "128 \<le> ?n" "?n < 256" using assms by (simp_all add: low_def)
  have i: "- 128 \<le> int ?n - 256" "int ?n - 256 < 0" using n by linarith+
  have "- 128 \<le> x \<Longrightarrow> x < 0 \<Longrightarrow> signed_take_bit 7 x = x" for x :: int
    by (rule signed_take_bit_int_eq_self) simp_all
  from this [OF i] have "signed_take_bit 7 (int ?n - 256) = int ?n - 256" .
  moreover have "word_of_nat ?n = (word_of_int (int ?n - 256) :: 8 word)" by simp
  ultimately have "sint (word_of_nat ?n :: 8 word) = int ?n - 256" by (simp only: signed_of_int) simp
  then have a: "char_arg c = word_of_int (int ?n - 256)"
    unfolding char_arg_def by (metis scast_eq)
  have "uint (char_arg c) = (int ?n - 256) mod 2 ^ 32"
    unfolding a using uint_word_of_int [where 'a = 32, of "int ?n - 256"]
    by (simp only: len_num1 len_bit0 len_bit1) simp
  also have "\<dots> = (int ?n - 256 + 2 ^ 32) mod 2 ^ 32" by (rule mod_add_self2 [symmetric])
  also have "\<dots> = int ?n - 256 + 2 ^ 32"
  proof -
    have "- 128 \<le> x \<Longrightarrow> x < 0 \<Longrightarrow> (x + 2 ^ 32) mod 2 ^ 32 = x + 2 ^ 32" for x :: int
      by (rule mod_pos_pos_trivial) simp_all
    from this [OF i] show ?thesis .
  qed
  finally have "unat (char_arg c) = ?n + 4294967040" by (simp add: unat_eq_nat_uint)
  moreover have "m < 256 \<Longrightarrow> (m + 4294967040) div 256 = 16777215" for m :: nat by simp
  from this [OF n(2)] have "(?n + 4294967040) div 256 = 16777215" .
  ultimately have u: "unat (char_arg c) div 256 = 16777215" by (simp only:)
  have f: "hex_digits 16777215 = ''FFFFFF''" by (simp add: hex_digits.simps hex_char_def)
  let ?u = "unat (char_arg c)"
  have "\<not> ?u < 16" "\<not> ?u div 16 < 16" "?u div 16 div 16 = 16777215"
    using u by (simp_all add: div_mult2_eq [symmetric])
  then have "hex_digits ?u = ''FFFFFF'' @ [hex_char (?u div 16 mod 16), hex_char (?u mod 16)]"
    by (simp add: hex_digits.simps [of ?u] hex_digits.simps [of "?u div 16"] f)
  then show ?thesis by (simp add: fmt_X_def)
qed

text \<open>C40: A trace of seven-bit data can be read back: the hexadecimal column of its lines, full ones and
  the last one, gives exactly the bytes in their order. A byte of 128 or more is printed with eight
  digits, as it is passed with its sign, and shifts the columns of its line.\<close>

theorem trace_readable:
  assumes "isTrace g" "length p \<le> 65536" "list_all low p" "dir \<noteq> LF"
  shows "dump_bytes (doTrace g dir p (int (length p))) = map of_char p \<and>
    (\<forall>c. \<not> low c \<longrightarrow> take 6 (fmt_X 2 (char_arg c)) = ''FFFFFF'' \<and> length (fmt_X 2 (char_arg c)) = 8)"
  using trace_lines_read [of 0 p dir] high_format assms by (simp add: doTrace_def)

lemma trace_readable_witness:
  "dump_bytes (doTrace (setTrace True initial_state) (CHR ''R'') ''GET / HTTP/1.1'' (int (length ''GET / HTTP/1.1''))) =
     map of_char ''GET / HTTP/1.1''"
  using trace_readable [of "setTrace True initial_state" "''GET / HTTP/1.1''" "CHR ''R''"]
  by (simp add: setTrace_def low_def)

end
