(* ===== verification/OG_TLS.thy ===== *)
theory OG_TLS
  imports OG_EventLoop OG_Process "HOL-Library.Multiset"
begin

text \<open>
  The TLS server of \<^verbatim>\<open>tlsServer.c\<close>: its context, its accept loop, and the thread of each
  connection. OpenSSL is a parameter. Main thread and connection threads are programs of atomic steps
  (the registry and the counter are behind mutexes), and a step relation interleaves them.
\<close>

section \<open>The context\<close>

text \<open>
  What OpenSSL answers: the new context, whether it loads a certificate and a key file (the argument is
  the path, null if the server has none), and whether the two belong together.
\<close>

record tls_env =
  te_new :: "nat option"
  te_cert :: "string option \<Rightarrow> bool"
  te_key :: "string option \<Rightarrow> bool"
  te_match :: "string option \<Rightarrow> string option \<Rightarrow> bool"

definition createContext :: "tls_env \<Rightarrow> nat res" where
  "createContext te = (case te_new te of None \<Rightarrow> Inl (Exit 1) | Some x \<Rightarrow> Inr x)"

definition configureContext :: "tls_env \<Rightarrow> int \<Rightarrow> gstate \<Rightarrow> unit res" where
  "configureContext te portNum g =
     (case port_server portNum g of
        None \<Rightarrow> Inl (Exit 1)
      | Some srv \<Rightarrow>
          if \<not> te_cert te (srv_certFile srv) then Inl (Exit 1)
          else if \<not> te_key te (srv_keyFile srv) then Inl (Exit 1)
          else if \<not> te_match te (srv_certFile srv) (srv_keyFile srv) then Inl (Exit 1)
          else Inr ())"

text \<open>The error codes of \<open>SSL_get_error\<close>.\<close>

datatype ssl_error =
    SSL_ERROR_NONE | SSL_ERROR_SSL | SSL_ERROR_WANT_READ | SSL_ERROR_WANT_WRITE
  | SSL_ERROR_WANT_X509_LOOKUP | SSL_ERROR_SYSCALL | SSL_ERROR_ZERO_RETURN
  | SSL_ERROR_WANT_CONNECT | SSL_ERROR_WANT_ACCEPT | SSL_ERROR_WANT_ASYNC
  | SSL_ERROR_WANT_ASYNC_JOB | SSL_ERROR_WANT_CLIENT_HELLO_CB

definition isRetryable :: "ssl_error \<Rightarrow> bool" where
  "isRetryable err = (err \<noteq> SSL_ERROR_SSL \<and> err \<noteq> SSL_ERROR_SYSCALL \<and> err \<noteq> SSL_ERROR_ZERO_RETURN)"

section \<open>A connection thread\<close>

text \<open>
  What the threads of a process share: the global state, \<open>threadCount\<close>, the reference count of the
  one \<open>SSL_CTX\<close>, and the open descriptors. \<open>SSL_new\<close> takes a reference to the context and
  \<open>SSL_CTX_free\<close> gives one back.
\<close>

record tls_shared =
  ts_g :: gstate
  ts_count :: int
  ts_refs :: int
  ts_open :: "int set"

text \<open>
  Where a thread stands in \<open>processRequest\<close>. In \<open>Unlinked\<close> and \<open>Freed\<close> it is inside \<open>cleanup\<close>.
  \<open>Never_started\<close> is a connection for which \<open>pthread_create\<close> has failed: its result is not checked.
\<close>

datatype thread_pc =
    Started | Counted | Handshaking | Serving | Closing | Unlinked "client option" | Freed | Closed
  | Finished | Never_started

datatype handshake_result = Handshake_done | Handshake_error ssl_error

record thread_input =
  ti_handshake :: handshake_result
  ti_received :: string

definition thread_step ::
  "os \<Rightarrow> thread_input \<Rightarrow> client \<Rightarrow> thread_pc \<Rightarrow> tls_shared \<Rightarrow> action list \<times> (thread_pc \<times> tls_shared) res"
  where
  "thread_step os inp c pc sh =
     (case pc of
        Started \<Rightarrow> ([], Inr (Counted, sh\<lparr>ts_count := ts_count sh + 1\<rparr>))
      | Counted \<Rightarrow> ([], Inr (Handshaking, sh\<lparr>ts_refs := ts_refs sh + 1\<rparr>))
      | Handshaking \<Rightarrow>
          (case ti_handshake inp of
             Handshake_done \<Rightarrow> ([], Inr (Serving, sh))
           | Handshake_error e \<Rightarrow> ([], Inr (if isRetryable e then Handshaking else Closing, sh)))
      | Serving \<Rightarrow>
          (case processInput os (new_request (cl_server c) (cl_fd c) True) (ti_received inp) (ts_g sh) of
             (as, Inl e) \<Rightarrow> (as, Inl e)
           | (as, Inr (_, g')) \<Rightarrow> (as, Inr (Closing, sh\<lparr>ts_g := g'\<rparr>)))
      | Closing \<Rightarrow>
          (let (r, g') = removeClientConnection (cl_fd c) (ts_g sh)
           in ([], Inr (Unlinked r, sh\<lparr>ts_g := g'\<rparr>)))
      | Unlinked r \<Rightarrow>
          (case Option.bind r cl_ctx of
             None \<Rightarrow> ([], Inr (Freed, sh))
           | Some x \<Rightarrow> ([FreeCtx x], Inr (Freed, sh\<lparr>ts_refs := ts_refs sh - 1\<rparr>)))
      | Freed \<Rightarrow>
          ([Shutdown (cl_fd c), Close (cl_fd c)],
           Inr (Closed, sh\<lparr>ts_open := ts_open sh - {cl_fd c}\<rparr>))
      | Closed \<Rightarrow> ([], Inr (Finished, sh\<lparr>ts_count := ts_count sh - 1\<rparr>))
      | Finished \<Rightarrow> ([], Inr (Finished, sh))
      | Never_started \<Rightarrow> ([], Inr (Never_started, sh)))"

text \<open>The whole function, run by itself: \<open>None\<close> while the handshake is still retried.\<close>

fun ssl_handshake :: "handshake_result list \<Rightarrow> bool option" where
  "ssl_handshake [] = None"
| "ssl_handshake (Handshake_done # hs) = Some True"
| "ssl_handshake (Handshake_error e # hs) = (if isRetryable e then ssl_handshake hs else Some False)"

definition request_of :: "os \<Rightarrow> client \<Rightarrow> bool \<Rightarrow> string \<Rightarrow> unit io" where
  "request_of os c shaken received =
     (if shaken then processInput os (new_request (cl_server c) (cl_fd c) True) received else ret_io ())"

fun ctx_frees :: "action list \<Rightarrow> int" where
  "ctx_frees [] = 0"
| "ctx_frees (FreeCtx x # as) = 1 + ctx_frees as"
| "ctx_frees (a # as) = ctx_frees as"

definition processRequest ::
  "os \<Rightarrow> client \<Rightarrow> handshake_result list \<Rightarrow> string \<Rightarrow> tls_shared \<Rightarrow> (action list \<times> tls_shared res) option"
  where
  "processRequest os c hs received sh =
     (case ssl_handshake hs of
        None \<Rightarrow> None
      | Some shaken \<Rightarrow> Some
          (case request_of os c shaken received (ts_g sh) of
             (as, Inl e) \<Rightarrow> (as, Inl e)
           | (as, Inr (_, g1)) \<Rightarrow>
               (case cleanup (cl_fd c) g1 of
                  (bs, Inl e) \<Rightarrow> (as @ bs, Inl e)
                | (bs, Inr (_, g2)) \<Rightarrow>
                    (as @ bs, Inr (sh\<lparr>ts_g := g2, ts_refs := ts_refs sh + 1 - ctx_frees bs,
                       ts_open := ts_open sh - {cl_fd c}, ts_count := ts_count sh + 1 - 1\<rparr>)))))"

section \<open>The main thread\<close>

text \<open>The steps before the accept loop: the context, its certificate, the listening socket.\<close>

definition tls_start ::
  "tls_env \<Rightarrow> listen_env \<Rightarrow> int \<Rightarrow> (nat \<times> int) io" where
  "tls_start te le portNum =
     bind_io (lift_res (createContext te)) (\<lambda>ctx.
     bind_io get_io (\<lambda>g.
     bind_io (lift_res (configureContext te portNum g)) (\<lambda>_.
     bind_io (createBindAndListen le True portNum) (\<lambda>sockFd.
     ret_io (ctx, sockFd)))))"

datatype main_pc = Accepting | Queueing int "string option" | Spawning client | Left

text \<open>One step of the accept loop; \<open>spawned\<close> is the success of \<open>pthread_create\<close>. The second
  component is the new thread.\<close>

definition acceptor_step ::
  "int \<Rightarrow> server \<Rightarrow> nat \<Rightarrow> accept_result \<Rightarrow> bool \<Rightarrow> main_pc \<Rightarrow> tls_shared \<Rightarrow>
   (main_pc \<times> (client \<times> thread_pc) list \<times> tls_shared) res" where
  "acceptor_step sockFd srv ctx r spawned m sh =
     (case m of
        Accepting \<Rightarrow>
          (case r of
             Accepted fd ip \<Rightarrow> Inr (Queueing fd ip, [], sh\<lparr>ts_open := insert fd (ts_open sh)\<rparr>)
           | Accept_interrupted \<Rightarrow> Inr (Accepting, [], sh)
           | Accept_failed \<Rightarrow>
               Inr (Left, [], sh\<lparr>ts_g := snd (removeClientConnection sockFd (ts_g sh)),
                                ts_open := ts_open sh - {sockFd}\<rparr>))
      | Queueing fd ip \<Rightarrow>
          (case queueClientConnection fd srv ip (Some ctx) (ts_g sh) of
             (_, Inl e) \<Rightarrow> Inl e
           | (_, Inr (c, g')) \<Rightarrow> Inr (Spawning c, [], sh\<lparr>ts_g := g'\<rparr>))
      | Spawning c \<Rightarrow> Inr (Accepting, [(c, if spawned then Started else Never_started)], sh)
      | Left \<Rightarrow> Inr (Left, [], sh))"

section \<open>The interleaving\<close>

text \<open>
  Any of the threads takes the next step. The kernel gives out no descriptor that is open. \<open>scratch\<close>
  stands for the accesses of the handlers between the beginning and the end of a request: by
  the frame of a request they change only what \<open>request_view\<close> leaves out, and here they may do so at any
  time and in any way, since nothing locks it.
\<close>

type_synonym tls_system = "main_pc \<times> (client \<times> thread_pc) list \<times> tls_shared"

inductive tls_step :: "os \<Rightarrow> int \<Rightarrow> server \<Rightarrow> nat \<Rightarrow> tls_system \<Rightarrow> tls_system \<Rightarrow> bool"
  for os sockFd srv ctx where
  main: "(\<And>fd ip. m = Accepting \<Longrightarrow> r = Accepted fd ip \<Longrightarrow> fd \<notin> ts_open sh) \<Longrightarrow>
    acceptor_step sockFd srv ctx r spawned m sh = Inr (m', new, sh') \<Longrightarrow>
    tls_step os sockFd srv ctx (m, ths, sh) (m', ths @ new, sh')"
| thread: "thread_step os inp c pc sh = (as, Inr (pc', sh')) \<Longrightarrow>
    tls_step os sockFd srv ctx (m, xs @ (c, pc) # ys, sh) (m, xs @ (c, pc') # ys, sh')"
| scratch: "request_view g' = request_view (ts_g sh) \<Longrightarrow>
    list_all (group_ok (length (g_nodes (ts_g sh)))) (g_upstreams g') \<Longrightarrow>
    tls_step os sockFd srv ctx (m, ths, sh) (m, ths, sh\<lparr>ts_g := g'\<rparr>)"

inductive_cases tls_stepE: "tls_step os sockFd srv ctx (m, ths, sh) s'"

text \<open>The threads between the two updates of the counter, those that hold a reference to the context,
  those whose connection is in the registry, and those whose descriptor is open.\<close>

fun is_counted :: "thread_pc \<Rightarrow> bool" where
  "is_counted pc = (pc \<noteq> Started \<and> pc \<noteq> Finished \<and> pc \<noteq> Never_started)"

fun holds_ref :: "thread_pc \<Rightarrow> bool" where
  "holds_ref (Unlinked r) = True"
| "holds_ref pc = (pc = Handshaking \<or> pc = Serving \<or> pc = Closing)"

fun is_registered :: "thread_pc \<Rightarrow> bool" where
  "is_registered pc = (pc = Started \<or> pc = Counted \<or> pc = Handshaking \<or> pc = Serving \<or> pc = Closing \<or>
     pc = Never_started)"

fun is_open :: "thread_pc \<Rightarrow> bool" where
  "is_open pc = (pc \<noteq> Closed \<and> pc \<noteq> Finished)"

definition the_threads :: "(thread_pc \<Rightarrow> bool) \<Rightarrow> (client \<times> thread_pc) list \<Rightarrow> client multiset" where
  "the_threads P ths = image_mset fst (filter_mset (\<lambda>(c, pc). P pc) (mset ths))"

lemma the_threads_simps [simp]:
  "the_threads P [] = {#}"
  "the_threads P (t # ths) = (if P (snd t) then {#fst t#} else {#}) + the_threads P ths"
  "the_threads P (xs @ ys) = the_threads P xs + the_threads P ys"
  by (simp_all add: the_threads_def case_prod_beta)

fun main_clients :: "main_pc \<Rightarrow> client multiset" where
  "main_clients (Spawning c) = {#c#}"
| "main_clients _ = {#}"

fun main_fds :: "int \<Rightarrow> main_pc \<Rightarrow> int multiset" where
  "main_fds sockFd Left = {#}"
| "main_fds sockFd Accepting = {#sockFd#}"
| "main_fds sockFd (Queueing fd ip) = {#sockFd, fd#}"
| "main_fds sockFd (Spawning c) = {#sockFd, cl_fd c#}"

section \<open>The invariant\<close>

text \<open>
  The counter counts the threads at work, the context has one reference for each thread that uses it
  and one for the process, the registry holds the connections that are not cleaned up, and the open
  descriptors are those of the connections and of the main thread, all different.
\<close>

definition tls_inv :: "config_env \<Rightarrow> nat \<Rightarrow> int \<Rightarrow> tls_system \<Rightarrow> bool" where
  "tls_inv env ctx sockFd s = (case s of (m, ths, sh) \<Rightarrow>
     ts_count sh = int (size (the_threads is_counted ths)) \<and>
     ts_refs sh = 1 + int (size (the_threads holds_ref ths)) \<and>
     mset (g_clients (ts_g sh)) = the_threads is_registered ths + main_clients m \<and>
     finite (ts_open sh) \<and>
     image_mset cl_fd (the_threads is_open ths) + main_fds sockFd m = mset_set (ts_open sh) \<and>
     list_all (\<lambda>(c, pc). cl_ctx c = Some ctx \<and> (case pc of Unlinked r \<Rightarrow> r = Some c | _ \<Rightarrow> True)) ths \<and>
     (\<forall>c \<in># main_clients m. cl_ctx c = Some ctx) \<and>
     config_ready env (ts_g sh))"

lemma unlink_member:
  "distinct (map cl_fd cs) \<Longrightarrow> c \<in> set cs \<Longrightarrow>
   fst (unlink_client (cl_fd c) cs) = Some c \<and> mset (snd (unlink_client (cl_fd c) cs)) = mset cs - {#c#}"
proof (induction cs)
  case (Cons d cs)
  show ?case
  proof (cases "d = c")
    case False
    with Cons.prems have "c \<in> set cs" "cl_fd d \<noteq> cl_fd c" by auto
    with Cons False show ?thesis by (simp add: case_prod_beta)
  qed simp
qed simp

lemma unlink_absent: "fd \<notin> cl_fd ` set cs \<Longrightarrow> unlink_client fd cs = (None, cs)"
  by (induction cs) auto

lemma find_member:
  "distinct (map cl_fd cs) \<Longrightarrow> c \<in> set cs \<Longrightarrow> find_client (cl_fd c) cs = Some c"
  using unlink_member [of cs c] by (simp add: unlink_client_fst)

lemma registered_open: "the_threads is_registered ths \<subseteq># the_threads is_open ths"
proof -
  have "filter_mset (\<lambda>(c, pc). is_registered pc) (mset ths) \<subseteq># filter_mset (\<lambda>(c, pc). is_open pc) (mset ths)"
    by (induction ths) (auto simp: subset_mset.le_diff_conv2 intro: subset_mset.order_trans)
  then show ?thesis unfolding the_threads_def by (rule image_mset_subseteq_mono)
qed



lemma mset_set_count: "count (mset_set A) x \<le> 1"
  by (cases "finite A"; cases "x \<in> A") auto

lemma distinct_if_subset_mset_set: "mset xs \<subseteq># mset_set A \<Longrightarrow> distinct xs"
proof -
  assume "mset xs \<subseteq># mset_set A"
  then have "count (mset xs) x \<le> 1" for x
    using mset_set_count [of A x] by (auto dest!: mset_subset_eq_count [of _ _ x] intro: order_trans)
  then have "count (mset xs) x = (if x \<in> set xs then 1 else 0)" for x
    by (auto simp: not_in_iff dest!: count_mset_gt_0 simp: le_Suc_eq)
  then show ?thesis by (simp add: distinct_count_atmost_1)
qed

text \<open>No two connections of the registry have the same descriptor, and none has that of the
  listening socket.\<close>

lemma tls_inv_registry:
  assumes "tls_inv env ctx sockFd (m, ths, sh)"
  shows "mset (client_fds (ts_g sh)) + (if m = Left then {#} else {#sockFd#}) \<subseteq># mset_set (ts_open sh)"
proof -
  have r: "mset (client_fds (ts_g sh)) =
      image_mset cl_fd (the_threads is_registered ths) + image_mset cl_fd (main_clients m)"
    using assms by (simp add: tls_inv_def client_fds_def)
  have fds: "image_mset cl_fd (the_threads is_open ths) + main_fds sockFd m = mset_set (ts_open sh)"
    using assms by (simp add: tls_inv_def)
  have m: "image_mset cl_fd (main_clients m) + (if m = Left then {#} else {#sockFd#}) \<subseteq># main_fds sockFd m"
    by (cases m) auto
  have "image_mset cl_fd (the_threads is_registered ths) \<subseteq># image_mset cl_fd (the_threads is_open ths)"
    using registered_open by (rule image_mset_subseteq_mono)
  from subset_mset.add_mono [OF this m] show ?thesis
    unfolding r fds [symmetric] by (simp only: add.assoc)
qed

lemma tls_inv_distinct:
  assumes "tls_inv env ctx sockFd (m, ths, sh)"
  shows "distinct (client_fds (ts_g sh))" and "m \<noteq> Left \<Longrightarrow> sockFd \<notin> set (client_fds (ts_g sh))"
proof -
  from tls_inv_registry [OF assms]
  have "mset (client_fds (ts_g sh) @ (if m = Left then [] else [sockFd])) \<subseteq># mset_set (ts_open sh)"
    by (auto split: if_splits)
  from distinct_if_subset_mset_set [OF this]
  show "distinct (client_fds (ts_g sh))" and "m \<noteq> Left \<Longrightarrow> sockFd \<notin> set (client_fds (ts_g sh))"
    by auto
qed

lemma tls_inv_member:
  assumes "tls_inv env ctx sockFd (m, ths, sh)" "(c, pc) \<in> set ths" "is_registered pc"
  shows "c \<in> set (g_clients (ts_g sh))"
proof -
  have "c \<in># the_threads is_registered ths" using assms(2,3) by (force simp: the_threads_def)
  then have "c \<in># mset (g_clients (ts_g sh))" using assms(1) by (simp add: tls_inv_def)
  then show ?thesis by simp
qed

section \<open>Every step keeps the invariant\<close>

lemma remove_clients:
  "g_clients (snd (removeClientConnection fd g)) = snd (unlink_client fd (g_clients g))"
  by (simp add: removeClientConnection_def case_prod_beta)

lemma remove_run:
  assumes "distinct (client_fds g)" "c \<in> set (g_clients g)"
  obtains g' where "removeClientConnection (cl_fd c) g = (Some c, g')"
    "mset (g_clients g') = mset (g_clients g) - {#c#}" "\<And>env. config_ready env g' = config_ready env g"
proof -
  let ?r = "removeClientConnection (cl_fd c) g"
  have "fst ?r = Some c" "mset (g_clients (snd ?r)) = mset (g_clients g) - {#c#}"
    using unlink_member [of "g_clients g" c] assms
    by (simp_all add: remove_clients client_fds_def) (simp add: removeClientConnection_def case_prod_beta)
  then show ?thesis by (intro that [of "snd ?r"]) (simp_all add: prod_eq_iff)
qed

lemma thread_step_serve:
  assumes "thread_step os inp c Serving sh = (as, Inr (pc', sh'))"
  obtains g' where "processInput os (new_request (cl_server c) (cl_fd c) True) (ti_received inp) (ts_g sh) =
      (as, Inr ((), g'))" "pc' = Closing" "sh' = sh\<lparr>ts_g := g'\<rparr>"
proof -
  obtain bs r where p: "processInput os (new_request (cl_server c) (cl_fd c) True) (ti_received inp) (ts_g sh) = (bs, r)"
    by (rule prod.exhaust)
  show ?thesis
  proof (cases r)
    case (Inr ug)
    with p that assms show ?thesis by (cases ug) (simp add: thread_step_def)
  qed (use p assms in \<open>simp add: thread_step_def\<close>)
qed

lemma tls_inv_thread:
  assumes inv: "tls_inv env ctx sockFd (m, xs @ (c, pc) # ys, sh)"
    and run: "thread_step os inp c pc sh = (as, Inr (pc', sh'))"
  shows "tls_inv env ctx sockFd (m, xs @ (c, pc') # ys, sh')"
proof (cases pc)
  case Serving
  with run obtain g' where p: "processInput os (new_request (cl_server c) (cl_fd c) True) (ti_received inp) (ts_g sh) =
      (as, Inr ((), g'))" and s: "pc' = Closing" "sh' = sh\<lparr>ts_g := g'\<rparr>"
    by (auto elim!: thread_step_serve)
  have "config_ready env (ts_g sh)" using inv by (simp add: tls_inv_def)
  from request_frame_run [OF this p] have "g_clients g' = g_clients (ts_g sh)" "config_ready env g'"
    using request_view_fields(3) by blast+
  with inv show ?thesis by (simp add: tls_inv_def Serving s)
next
  case Closing
  have "c \<in> set (g_clients (ts_g sh))" by (rule tls_inv_member [OF inv, of c Closing]) (simp_all add: Closing)
  from remove_run [OF tls_inv_distinct(1) [OF inv] this] obtain g'
    where g': "removeClientConnection (cl_fd c) (ts_g sh) = (Some c, g')"
      "mset (g_clients g') = mset (g_clients (ts_g sh)) - {#c#}"
      "\<And>env. config_ready env g' = config_ready env (ts_g sh)" by blast
  with run have "pc' = Unlinked (Some c)" "sh' = sh\<lparr>ts_g := g'\<rparr>"
    by (auto simp: thread_step_def Closing)
  with inv g'(2,3) show ?thesis by (simp add: tls_inv_def Closing)
next
  case Freed
  with run have "pc' = Closed" "sh' = sh\<lparr>ts_open := ts_open sh - {cl_fd c}\<rparr>"
    by (auto simp: thread_step_def)
  moreover have fds: "image_mset cl_fd (the_threads is_open (xs @ (c, Freed) # ys)) + main_fds sockFd m =
      mset_set (ts_open sh)" and fin: "finite (ts_open sh)" using inv by (simp_all add: tls_inv_def Freed)
  have "cl_fd c \<in># image_mset cl_fd (the_threads is_open (xs @ (c, Freed) # ys)) + main_fds sockFd m"
    by simp
  then have "cl_fd c \<in> ts_open sh" unfolding fds using fin by simp
  then have "mset_set (ts_open sh - {cl_fd c}) = mset_set (ts_open sh) - {#cl_fd c#}"
    using fin by (simp add: mset_set_Diff)
  then have "mset_set (ts_open sh - {cl_fd c}) = image_mset cl_fd (the_threads is_open (xs @ ys)) + main_fds sockFd m"
    unfolding fds [symmetric] by simp
  ultimately show ?thesis using inv by (simp add: tls_inv_def Freed)
next
  case (Unlinked r)
  with inv run show ?thesis
    by (auto simp: tls_inv_def thread_step_def)
next
  case Handshaking
  with inv run show ?thesis
    by (auto simp: tls_inv_def thread_step_def split: handshake_result.splits if_splits)
qed (use inv run in \<open>auto simp: tls_inv_def thread_step_def\<close>)

lemma tls_inv_main:
  assumes inv: "tls_inv env ctx sockFd (m, ths, sh)"
    and fresh: "\<And>fd ip. m = Accepting \<Longrightarrow> r = Accepted fd ip \<Longrightarrow> fd \<notin> ts_open sh"
    and run: "acceptor_step sockFd srv ctx r spawned m sh = Inr (m', new, sh')"
  shows "tls_inv env ctx sockFd (m', ths @ new, sh')"
proof (cases m)
  case Accepting
  show ?thesis
  proof (cases r)
    case (Accepted fd ip)
    with Accepting run fresh inv show ?thesis
      by (auto simp: acceptor_step_def tls_inv_def add.assoc [symmetric])
  next
    case Accept_failed
    have "sockFd \<notin> set (client_fds (ts_g sh))" using tls_inv_distinct(2) [OF inv] Accepting by simp
    then have "removeClientConnection sockFd (ts_g sh) = (None, ts_g sh)"
      by (simp add: removeClientConnection_def client_fds_def unlink_absent)
    with Accepting Accept_failed run have s: "m' = Left" "new = []" "sh' = sh\<lparr>ts_open := ts_open sh - {sockFd}\<rparr>"
      by (simp_all add: acceptor_step_def)
    from inv Accepting have fds: "image_mset cl_fd (the_threads is_open ths) + {#sockFd#} = mset_set (ts_open sh)"
      and fin: "finite (ts_open sh)" by (simp_all add: tls_inv_def)
    have "sockFd \<in># image_mset cl_fd (the_threads is_open ths) + {#sockFd#}" by simp
    then have "sockFd \<in> ts_open sh" unfolding fds using fin by simp
    then have "mset_set (ts_open sh - {sockFd}) = mset_set (ts_open sh) - {#sockFd#}"
      using fin by (simp add: mset_set_Diff)
    then have "mset_set (ts_open sh - {sockFd}) = image_mset cl_fd (the_threads is_open ths)"
      unfolding fds [symmetric] by simp
    with inv Accepting show ?thesis by (simp add: tls_inv_def s)
  next
    case Accept_interrupted
    with Accepting run inv show ?thesis by (simp add: acceptor_step_def)
  qed
next
  case (Queueing fd ip)
  with run obtain c g' where q: "queueClientConnection fd srv ip (Some ctx) (ts_g sh) = ([], Inr (c, g'))"
    and s: "m' = Spawning c" "new = []" "sh' = sh\<lparr>ts_g := g'\<rparr>"
    by (auto simp: acceptor_step_def split: prod.splits sum.splits dest!: queue_run)
  from queue_run [OF q] have "cl_fd c = fd" "cl_ctx c = Some ctx" "g' = setClientConnection c (ts_g sh)"
    by simp_all
  moreover from this(3) have "g_clients g' = c # g_clients (ts_g sh)" by (simp add: setClientConnection_def)
  ultimately show ?thesis using inv by (simp add: tls_inv_def Queueing s)
next
  case (Spawning c)
  with run have "m' = Accepting" "sh' = sh" "new = [(c, if spawned then Started else Never_started)]"
    by (simp_all add: acceptor_step_def)
  with inv show ?thesis by (simp add: tls_inv_def Spawning)
next
  case Left
  with run inv show ?thesis by (simp add: acceptor_step_def)
qed

lemma tls_step_inv: "tls_step os sockFd srv ctx s s' \<Longrightarrow> tls_inv env ctx sockFd s \<Longrightarrow> tls_inv env ctx sockFd s'"
proof (induction rule: tls_step.induct)
  case (main m r sh spawned m' new sh' ths)
  from main.prems main.hyps show ?case by (blast intro: tls_inv_main)
next
  case (thread inp c pc sh as pc' sh' m xs ys)
  from thread.prems thread.hyps show ?case by (blast intro: tls_inv_thread)
next
  case (scratch g' sh m ths)
  from scratch.prems have "config_ready env (ts_g sh)" by (simp add: tls_inv_def)
  with scratch.hyps have "config_ready env g'" by (blast intro: config_ready_view)
  with scratch show ?case by (simp add: tls_inv_def request_view_fields(3) [OF scratch.hyps(1)])
qed

lemma tls_reach_inv:
  "(tls_step os sockFd srv ctx)\<^sup>*\<^sup>* s s' \<Longrightarrow> tls_inv env ctx sockFd s \<Longrightarrow> tls_inv env ctx sockFd s'"
  by (induction rule: rtranclp_induct) (auto intro: tls_step_inv)

section \<open>What the TLS server guarantees\<close>

definition tls_init :: "int \<Rightarrow> gstate \<Rightarrow> tls_system" where
  "tls_init sockFd g = (Accepting, [], \<lparr>ts_g = g, ts_count = 0, ts_refs = 1, ts_open = {sockFd}\<rparr>)"

lemma tls_init_inv: "config_ready env g \<Longrightarrow> g_clients g = [] \<Longrightarrow> tls_inv env ctx sockFd (tls_init sockFd g)"
  by (simp add: tls_inv_def tls_init_def)

lemma the_threads_none: "\<forall>(c, pc) \<in> set ths. \<not> P pc \<Longrightarrow> the_threads P ths = {#}"
  by (induction ths) auto

lemma tls_inv_own_entry:
  assumes "tls_inv env ctx sockFd (m, ths, sh)" "(c, pc) \<in> set ths" "is_registered pc"
  shows "getClientConnection (cl_fd c) (ts_g sh) = Some c"
  using tls_inv_member [OF assms] tls_inv_distinct(1) [OF assms(1)]
  by (simp add: getClientConnection_def client_fds_def find_member)

lemma tls_inv_idle:
  assumes inv: "tls_inv env ctx sockFd (Accepting, ths, sh)" and fin: "\<forall>(c, pc) \<in> set ths. pc = Finished"
  shows "ts_count sh = 0 \<and> ts_refs sh = 1 \<and> g_clients (ts_g sh) = [] \<and> ts_open sh = {sockFd}"
proof -
  have "\<not> P Finished \<Longrightarrow> the_threads P ths = {#}" for P
    using fin by (intro the_threads_none) auto
  with inv have "{#sockFd#} = mset_set (ts_open sh)" "finite (ts_open sh)"
    "ts_count sh = 0" "ts_refs sh = 1" "g_clients (ts_g sh) = []"
    by (simp_all add: tls_inv_def)
  moreover from this(1,2) have "ts_open sh = {sockFd}"
    by (metis finite_set_mset_mset_set set_mset_single)
  ultimately show ?thesis by simp
qed

text \<open>C16: Whatever the interleaving of the accept loop and the connection threads, and whatever they do
  to the unlocked statics of the handlers, the configuration stays the checked one, the counter is the
  number of threads at work, the context is never freed while the process runs, no two connections of
  the registry share a descriptor, and every thread that is not cleaning up finds its own entry under
  its descriptor. When all threads have finished, nothing is left of them.\<close>

theorem tls_interleavings_safe:
  assumes "config_ready env g" "g_clients g = []"
    and "(tls_step os sockFd srv ctx)\<^sup>*\<^sup>* (tls_init sockFd g) (m, ths, sh)"
  shows "config_ready env (ts_g sh) \<and>
    ts_count sh = int (size (the_threads is_counted ths)) \<and> 1 \<le> ts_refs sh \<and>
    distinct (client_fds (ts_g sh)) \<and>
    (\<forall>(c, pc) \<in> set ths. is_registered pc \<longrightarrow> getClientConnection (cl_fd c) (ts_g sh) = Some c) \<and>
    (m = Accepting \<and> (\<forall>(c, pc) \<in> set ths. pc = Finished) \<longrightarrow>
      ts_count sh = 0 \<and> ts_refs sh = 1 \<and> g_clients (ts_g sh) = [] \<and> ts_open sh = {sockFd})"
proof -
  from tls_reach_inv [OF assms(3) tls_init_inv [OF assms(1,2)]]
  have inv: "tls_inv env ctx sockFd (m, ths, sh)" .
  then have "config_ready env (ts_g sh)" "ts_count sh = int (size (the_threads is_counted ths))"
    "1 \<le> ts_refs sh" by (simp_all add: tls_inv_def)
  moreover have "m = Accepting \<and> (\<forall>(c, pc) \<in> set ths. pc = Finished) \<longrightarrow>
      ts_count sh = 0 \<and> ts_refs sh = 1 \<and> g_clients (ts_g sh) = [] \<and> ts_open sh = {sockFd}"
    using inv tls_inv_idle [of env ctx sockFd ths sh] by blast
  ultimately show ?thesis
    using tls_inv_distinct(1) [OF inv] tls_inv_own_entry [OF inv] by auto
qed

section \<open>One thread by itself\<close>

text \<open>The function \<open>processRequest\<close> is the schedule in which its thread is never interrupted.\<close>

lemma thread_alone:
  "thread_step os inp c pc sh = (as, Inr (pc', sh')) \<Longrightarrow>
   (tls_step os sockFd srv ctx)\<^sup>*\<^sup>* (m, xs @ (c, pc') # ys, sh') s \<Longrightarrow>
   (tls_step os sockFd srv ctx)\<^sup>*\<^sup>* (m, xs @ (c, pc) # ys, sh) s"
  by (rule converse_rtranclp_into_rtranclp, rule tls_step.thread)

lemma thread_one:
  "thread_step os inp c pc sh = (as, Inr (pc', sh')) \<Longrightarrow>
   (tls_step os sockFd srv ctx)\<^sup>*\<^sup>* (m, xs @ (c, pc) # ys, sh) (m, xs @ (c, pc') # ys, sh')"
  by (rule r_into_rtranclp, rule tls_step.thread)

lemma handshake_steps:
  "ssl_handshake hs = Some shaken \<Longrightarrow>
   (tls_step os sockFd srv ctx)\<^sup>*\<^sup>* (m, xs @ (c, Handshaking) # ys, sh)
     (m, xs @ (c, if shaken then Serving else Closing) # ys, sh)"
proof (induction hs rule: ssl_handshake.induct)
  case (2 hs)
  have "thread_step os \<lparr>ti_handshake = Handshake_done, ti_received = []\<rparr> c Handshaking sh = ([], Inr (Serving, sh))"
    by (simp add: thread_step_def)
  from thread_alone [OF this rtranclp.rtrancl_refl] 2 show ?case by simp
next
  case (3 e hs)
  have s: "thread_step os \<lparr>ti_handshake = Handshake_error e, ti_received = []\<rparr> c Handshaking sh =
      ([], Inr (if isRetryable e then Handshaking else Closing, sh))"
    by (simp add: thread_step_def)
  show ?case
  proof (cases "isRetryable e")
    case True
    with 3 thread_alone [OF s] show ?thesis by simp
  next
    case False
    with 3 thread_alone [OF s rtranclp.rtrancl_refl] show ?thesis by simp
  qed
qed simp

lemma processRequest_run:
  assumes "processRequest os c hs received sh = Some (as, Inr sh')"
  obtains shaken bs g1 where "ssl_handshake hs = Some shaken"
    "request_of os c shaken received (ts_g sh) = (bs, Inr ((), g1))"
    "as = bs @ cleanup_actions (cl_fd c) g1"
    "sh' = sh\<lparr>ts_g := snd (removeClientConnection (cl_fd c) g1),
      ts_refs := ts_refs sh + 1 - ctx_frees (cleanup_actions (cl_fd c) g1),
      ts_open := ts_open sh - {cl_fd c}\<rparr>"
proof -
  from assms obtain shaken where h: "ssl_handshake hs = Some shaken"
    by (auto simp: processRequest_def split: option.splits)
  obtain bs r where m: "request_of os c shaken received (ts_g sh) = (bs, r)" by (rule prod.exhaust)
  show ?thesis
  proof (cases r)
    case (Inr ug)
    then obtain g1 where "r = Inr ((), g1)" by (cases ug) simp
    with assms h m that [of shaken bs g1] show ?thesis by (simp add: processRequest_def io_simps)
  qed (use assms h m in \<open>simp add: processRequest_def\<close>)
qed

lemma serve_steps:
  assumes "request_of os c shaken received (ts_g sh) = (bs, Inr ((), g1))"
  shows "(tls_step os sockFd srv ctx)\<^sup>*\<^sup>* (m, xs @ (c, if shaken then Serving else Closing) # ys, sh)
    (m, xs @ (c, Closing) # ys, sh\<lparr>ts_g := g1\<rparr>)"
proof (cases shaken)
  case True
  with assms have "processInput os (new_request (cl_server c) (cl_fd c) True) received (ts_g sh) = (bs, Inr ((), g1))"
    by (simp add: request_of_def)
  then have "thread_step os \<lparr>ti_handshake = Handshake_done, ti_received = received\<rparr> c Serving sh =
      (bs, Inr (Closing, sh\<lparr>ts_g := g1\<rparr>))"
    by (simp add: thread_step_def)
  from thread_alone [OF this rtranclp.rtrancl_refl] True show ?thesis by simp
next
  case False
  with assms have g1: "g1 = ts_g sh" by (simp add: request_of_def io_simps)
  show ?thesis using False by (simp add: g1)
qed

lemma cleanup_steps:
  "(tls_step os sockFd srv ctx)\<^sup>*\<^sup>* (m, xs @ (c, Closing) # ys, sh)
     (m, xs @ (c, Finished) # ys,
      sh\<lparr>ts_g := snd (removeClientConnection (cl_fd c) (ts_g sh)),
        ts_refs := ts_refs sh - ctx_frees (cleanup_actions (cl_fd c) (ts_g sh)),
        ts_open := ts_open sh - {cl_fd c}, ts_count := ts_count sh - 1\<rparr>)"
    (is "?R\<^sup>*\<^sup>* (?st Closing sh) (?st Finished ?s')")
proof -
  fix inp
  let ?r = "getClientConnection (cl_fd c) (ts_g sh)"
  let ?s1 = "sh\<lparr>ts_g := snd (removeClientConnection (cl_fd c) (ts_g sh))\<rparr>"
  let ?s2 = "?s1\<lparr>ts_refs := ts_refs sh - ctx_frees (cleanup_actions (cl_fd c) (ts_g sh))\<rparr>"
  have "thread_step os inp c Closing sh = ([], Inr (Unlinked ?r, ?s1))"
    using clients.fst_del [of "cl_fd c" "ts_g sh"]
    by (simp add: thread_step_def case_prod_beta Let_def)
  note a = thread_one [OF this]
  have "thread_step os inp c (Unlinked ?r) ?s1 =
      (fst (thread_step os inp c (Unlinked ?r) ?s1), Inr (Freed, ?s2))"
    by (simp add: thread_step_def cleanup_actions_def split: option.splits)
  note b = thread_one [OF this]
  have "thread_step os inp c Freed ?s2 = ([Shutdown (cl_fd c), Close (cl_fd c)],
      Inr (Closed, ?s2\<lparr>ts_open := ts_open sh - {cl_fd c}\<rparr>))"
    by (simp add: thread_step_def)
  note d = thread_one [OF this]
  have "thread_step os inp c Closed (?s2\<lparr>ts_open := ts_open sh - {cl_fd c}\<rparr>) = ([], Inr (Finished, ?s'))"
    by (simp add: thread_step_def)
  note e = thread_one [OF this]
  show "?R\<^sup>*\<^sup>* (?st Closing sh) (?st Finished ?s')"
    by (rule rtranclp_trans [OF a rtranclp_trans [OF b rtranclp_trans [OF d e]]])
qed

lemma processRequest_steps:
  assumes "processRequest os c hs received sh = Some (as, Inr sh')"
  shows "(tls_step os sockFd srv ctx)\<^sup>*\<^sup>* (m, xs @ (c, Started) # ys, sh) (m, xs @ (c, Finished) # ys, sh')"
    (is "?R\<^sup>*\<^sup>* (?st Started sh) (?st Finished sh')")
proof -
  fix inp
  obtain shaken bs g1 where h: "ssl_handshake hs = Some shaken"
    and p: "request_of os c shaken received (ts_g sh) = (bs, Inr ((), g1))"
    and sh': "sh' = sh\<lparr>ts_g := snd (removeClientConnection (cl_fd c) g1),
      ts_refs := ts_refs sh + 1 - ctx_frees (cleanup_actions (cl_fd c) g1),
      ts_open := ts_open sh - {cl_fd c}\<rparr>" by (rule processRequest_run [OF assms])
  let ?s1 = "sh\<lparr>ts_count := ts_count sh + 1\<rparr>"
  let ?s2 = "?s1\<lparr>ts_refs := ts_refs sh + 1\<rparr>"
  have a: "thread_step os inp c Started sh = ([], Inr (Counted, ?s1))"
    and b: "thread_step os inp c Counted ?s1 = ([], Inr (Handshaking, ?s2))"
    by (simp_all add: thread_step_def)
  have "?R\<^sup>*\<^sup>* (?st Started sh) (?st Handshaking ?s2)"
    by (rule rtranclp_trans [OF thread_one [OF a] thread_one [OF b]])
  moreover have "?R\<^sup>*\<^sup>* (?st Handshaking ?s2) (?st (if shaken then Serving else Closing) ?s2)"
    by (rule handshake_steps [OF h])
  moreover have "?R\<^sup>*\<^sup>* (?st (if shaken then Serving else Closing) ?s2) (?st Closing (?s2\<lparr>ts_g := g1\<rparr>))"
    using p by (intro serve_steps) simp
  moreover have "?R\<^sup>*\<^sup>* (?st Closing (?s2\<lparr>ts_g := g1\<rparr>)) (?st Finished sh')"
    using cleanup_steps [of os sockFd srv ctx m xs c ys "?s2\<lparr>ts_g := g1\<rparr>"] by (simp add: sh')
  ultimately show ?thesis by (blast intro: rtranclp_trans)
qed


section \<open>Certificates\<close>

text \<open>The check of a server whose flag \<open>tls\<close> is not set does not look at its certificate.\<close>

lemma check_server_cert:
  assumes "\<not> srv_tls s"
  shows "check_server env g (s\<lparr>srv_certFile := cf, srv_keyFile := kf\<rparr>) =
    map_sum id (\<lambda>s'. s'\<lparr>srv_certFile := cf, srv_keyFile := kf\<rparr>) (check_server env g s)"
proof -
  let ?u = "\<lambda>s. s\<lparr>srv_certFile := cf, srv_keyFile := kf\<rparr>"
  have "portOk (?u s) g = portOk s g" by (simp add: portOk_def)
  moreover have "checkServerNames (?u s) = checkServerNames s" "checkIndexFiles (?u s) = checkIndexFiles s"
    by (simp_all add: checkServerNames_def checkIndexFiles_def)
  moreover have "checkAccessLog g (?u s) = map_sum id ?u (checkAccessLog g s)"
    by (auto simp: checkAccessLog_def split: option.split)
  moreover have "checkErrorLog g (?u t) = map_sum id ?u (checkErrorLog g t)" for t
    by (auto simp: checkErrorLog_def split: option.split)
  moreover have "checkAccessLog g s = Inr t \<Longrightarrow> \<not> srv_tls t" "checkErrorLog g t = Inr t' \<Longrightarrow> srv_tls t' = srv_tls t" for t t'
    using assms by (auto simp: checkAccessLog_def checkErrorLog_def split: option.splits if_splits)
  ultimately show ?thesis
    using assms by (auto simp: check_server_def bind_res_def split: sum.split)
qed

text \<open>The certificate and key of a TLS server are never checked when the configuration is: no server
  of an accepted configuration has the flag that the check tests, and the result of the check is the same
  with any other certificate and key file. It is the process for the port that finds out: when the
  certificate of the first server with its port, if any, does not load, the process exits before it
  listens.\<close>

lemma certificate_checked_late:
  assumes "fresh_gstate g" "g_defaultServer g" "parseConfig env cfg g = Inr g'"
    and "s \<in> set (g_servers g')" "port_server portNum g' = Some s"
    and "te_new te = Some x" "\<not> te_cert te (srv_certFile s)"
  shows "\<not> srv_tls s \<and>
    check_server env g' (s\<lparr>srv_certFile := cf, srv_keyFile := kf\<rparr>) =
      map_sum id (\<lambda>s'. s'\<lparr>srv_certFile := cf, srv_keyFile := kf\<rparr>) (check_server env g' s) \<and>
    tls_start te le portNum g' = ([], Inl (Exit 1))"
proof -
  have "config_ready env g'" by (rule parseConfig_ready_run [OF assms(1-3)])
  with assms(4) have no: "\<not> srv_tls s" by (auto simp: config_ready_def list_all_iff server_ok_def)
  moreover have "tls_start te le portNum g' = ([], Inl (Exit 1))"
    using assms(5-7) by (simp add: tls_start_def createContext_def configureContext_def io_simps)
  ultimately show ?thesis using check_server_cert by blast
qed

section \<open>Concrete runs\<close>

definition ex_tls_config :: config where
  "ex_tls_config = \<lparr>cfg_main = [M_pid ''/run/ogws.pid''], cfg_events = [], 
     cfg_http = [H_server [S_server_name [(''a.org'', 0)], S_listen [O_port 443, O_ssl], S_root ''/srv'']]\<rparr>"

definition ex_tls_env :: tls_env where
  "ex_tls_env = \<lparr>te_new = Some 0, te_cert = (\<lambda>p. p \<noteq> None), te_key = (\<lambda>p. p \<noteq> None),
     te_match = (\<lambda>c k. True)\<rparr>"

definition ex_client :: client where
  "ex_client = \<lparr>cl_fd = 7, cl_server = ex_srv, cl_ip = ''10.0.0.1'', cl_ctx = Some 0\<rparr>"

lemma certificate_checked_late_example:
  "\<exists>g s. parseConfig ex_env (Parsed ex_tls_config) initial_state = Inr g \<and>
     port_server 443 g = Some s \<and> list_ex port_tls (srv_ports s) \<and>
     tls_start ex_tls_env ex_listen 443 g = ([], Inl (Exit 1))"
proof -
  have "case parseConfig ex_env (Parsed ex_tls_config) initial_state of Inl e \<Rightarrow> False
    | Inr g \<Rightarrow> (case port_server 443 g of None \<Rightarrow> False
        | Some s \<Rightarrow> list_ex port_tls (srv_ports s) \<and> srv_certFile s = None)"
    by code_simp
  then obtain g s where run: "parseConfig ex_env (Parsed ex_tls_config) initial_state = Inr g"
    and s: "port_server 443 g = Some s" "list_ex port_tls (srv_ports s)" "srv_certFile s = None"
    by (auto split: sum.splits option.splits)
  from s(1) have "s \<in> set (g_servers g)" by (auto simp: port_server_def find_Some_iff)
  moreover have "te_new ex_tls_env = Some 0" "\<not> te_cert ex_tls_env (srv_certFile s)"
    by (simp_all add: ex_tls_env_def s(3))
  ultimately show ?thesis
    using certificate_checked_late [OF ex_fresh(1,2) run _ s(1)] run s(1,2) by blast
qed

text \<open>A connection on descriptor 7 that sends nothing after the handshake.\<close>

definition ex_shared :: tls_shared where
  "ex_shared = \<lparr>ts_g = setClientConnection ex_client ex_state, ts_count = 0, ts_refs = 1, ts_open = {3, 7}\<rparr>"

lemma ex_tls_request:
  "\<exists>as. processInput ex_os (new_request ex_srv 7 True) [] (ts_g ex_shared) = (as, Inr ((), ts_g ex_shared))"
proof -
  let ?g = "ts_g ex_shared" and ?r = "new_request ex_srv 7 True"
  have r: "req_clientFd ?r = 7" "req_server ?r = Some ex_srv" by (simp_all add: new_request_def)
  have live: "server_live ?g ex_srv" and v: "fmt_s (getVersion ?g) = ''0.1''"
    using ex_live ex_version
    by (simp_all add: ex_shared_def setClientConnection_def server_live_def getVersion_def
        ex_state_def initial_state_def)
  have l: "length (error_line ex_os ?r ex_srv 400 (Some ''No data'') ''Bad Request'') < BUFF_SIZE"
    by (simp add: ex_line_defs new_request_def fmt_s_def)
  have "snd (sendErrorResponse ex_os ?r 400 ''Bad Request'' (Some ''No data'') ?g) = Inr ((), ?g)"
    using error_response_run [OF ex_sane live r(2), of 400 "''Bad Request''" "Some ''No data''"] l
    by (simp add: v Let_def)
  then show ?thesis by (simp add: processInput_def BUFF_SIZE_def prod_eq_iff)
qed

lemma ex_shared_simps:
  "no_fragments (ts_g ex_shared)" "served_locally (ts_g ex_shared)" "config_ready ex_env (ts_g ex_shared)"
  "getClientConnection 7 (ts_g ex_shared) = Some ex_client"
  by code_simp+


text \<open>The accept loop takes a connection and starts its thread.\<close>

lemma ex_tls_steps:
  "(tls_step ex_os 3 ex_srv 0)\<^sup>*\<^sup>* (tls_init 3 ex_state) (Accepting, [(ex_client, Started)], ex_shared)"
proof -
  let ?R = "tls_step ex_os 3 ex_srv 0"
  let ?s1 = "\<lparr>ts_g = ex_state, ts_count = 0, ts_refs = 1, ts_open = {7, 3}\<rparr>"
  have "?R (tls_init 3 ex_state) (Queueing 7 (Some ''10.0.0.1''), [] @ [], ?s1)"
    unfolding tls_init_def
    by (rule tls_step.main [of _ "Accepted 7 (Some ''10.0.0.1'')"]) (simp_all add: acceptor_step_def)
  moreover have "?R (Queueing 7 (Some ''10.0.0.1''), [], ?s1) (Spawning ex_client, [] @ [], ex_shared)"
    by (rule tls_step.main)
      (simp_all add: acceptor_step_def queueClientConnection_def io_simps Let_def ex_client_def
        ex_shared_def insert_commute)
  moreover have "?R (Spawning ex_client, [], ex_shared) (Accepting, [] @ [(ex_client, Started)], ex_shared)"
    by (rule tls_step.main [where spawned = True]) (simp_all add: acceptor_step_def)
  ultimately show ?thesis by (simp add: converse_rtranclp_into_rtranclp r_into_rtranclp)
qed

lemma tls_interleavings_safe_witness:
  "(tls_step ex_os 3 ex_srv 0)\<^sup>*\<^sup>* (tls_init 3 ex_state) (Accepting, [(ex_client, Started)], ex_shared) \<and>
   config_ready ex_env (ts_g ex_shared) \<and> getClientConnection 7 (ts_g ex_shared) = Some ex_client"
proof -
  have "g_clients ex_state = []" by (simp add: ex_state_def initial_state_def)
  from tls_interleavings_safe [OF ex_ready this ex_tls_steps] ex_tls_steps show ?thesis
    by (simp add: ex_client_def)
qed

end
