(* ===== verification/OG_Regex.thy ===== *)
theory OG_Regex
  imports OG_Prelude
begin

text \<open>
  Regular expressions as the scanner generator reads them, and the longest prefix of a text that
  one of them matches, computed with derivatives.
\<close>

section \<open>Expressions and what they match\<close>

datatype rx = Zero | One | Cls "char \<Rightarrow> bool" | Alt rx rx | Seq rx rx | Star rx

inductive rx_match :: "rx \<Rightarrow> string \<Rightarrow> bool" where
  one: "rx_match One []"
| cls: "p c \<Longrightarrow> rx_match (Cls p) [c]"
| left: "rx_match r w \<Longrightarrow> rx_match (Alt r s) w"
| right: "rx_match s w \<Longrightarrow> rx_match (Alt r s) w"
| seq: "rx_match r u \<Longrightarrow> rx_match s v \<Longrightarrow> rx_match (Seq r s) (u @ v)"
| star0: "rx_match (Star r) []"
| star1: "rx_match r u \<Longrightarrow> rx_match (Star r) v \<Longrightarrow> rx_match (Star r) (u @ v)"

inductive_simps rx_match_simps [simp]:
  "rx_match Zero w" "rx_match One w" "rx_match (Cls p) w" "rx_match (Alt r s) w"

inductive_simps rx_match_Seq: "rx_match (Seq r s) w"

inductive_cases rx_match_StarE: "rx_match (Star r) w"

fun nullable :: "rx \<Rightarrow> bool" where
  "nullable Zero = False"
| "nullable One = True"
| "nullable (Cls p) = False"
| "nullable (Alt r s) = (nullable r \<or> nullable s)"
| "nullable (Seq r s) = (nullable r \<and> nullable s)"
| "nullable (Star r) = True"

text \<open>Constructors that drop the parts that match nothing.\<close>

fun alt :: "rx \<Rightarrow> rx \<Rightarrow> rx" where
  "alt Zero s = s"
| "alt r Zero = r"
| "alt r s = Alt r s"

fun seq :: "rx \<Rightarrow> rx \<Rightarrow> rx" where
  "seq Zero s = Zero"
| "seq One s = s"
| "seq r s = Seq r s"

fun deriv :: "char \<Rightarrow> rx \<Rightarrow> rx" where
  "deriv c Zero = Zero"
| "deriv c One = Zero"
| "deriv c (Cls p) = (if p c then One else Zero)"
| "deriv c (Alt r s) = alt (deriv c r) (deriv c s)"
| "deriv c (Seq r s) =
     (if nullable r then alt (seq (deriv c r) s) (deriv c s) else seq (deriv c r) s)"
| "deriv c (Star r) = seq (deriv c r) (Star r)"

lemma alt_match [simp]: "rx_match (alt r s) w = (rx_match r w \<or> rx_match s w)"
  by (induction r s rule: alt.induct) auto

lemma seq_match [simp]: "rx_match (seq r s) w = rx_match (Seq r s) w"
  by (induction r s rule: seq.induct) (auto simp: rx_match_Seq)

lemma nullable_match: "nullable r = rx_match r []"
  by (induction r) (auto simp: rx_match_Seq intro: star0)

lemma star_Cons:
  "rx_match (Star r) (c # w) \<longleftrightarrow> (\<exists>u v. w = u @ v \<and> rx_match r (c # u) \<and> rx_match (Star r) v)"
proof
  have "rx_match q x \<Longrightarrow> q = Star r \<Longrightarrow> x = c # w \<Longrightarrow>
      \<exists>u v. w = u @ v \<and> rx_match r (c # u) \<and> rx_match (Star r) v" for q x
  proof (induction arbitrary: w rule: rx_match.induct)
    case (star1 r' u v)
    then show ?case by (cases u) auto
  qed auto
  then show "rx_match (Star r) (c # w) \<Longrightarrow>
      \<exists>u v. w = u @ v \<and> rx_match r (c # u) \<and> rx_match (Star r) v" by blast
next
  assume "\<exists>u v. w = u @ v \<and> rx_match r (c # u) \<and> rx_match (Star r) v"
  then obtain u v where "w = u @ v" "rx_match r (c # u)" "rx_match (Star r) v" by blast
  with star1 [of r "c # u" v] show "rx_match (Star r) (c # w)" by simp
qed

lemma deriv_match: "rx_match (deriv c r) w = rx_match r (c # w)"
proof (induction r arbitrary: w)
  case (Seq r s)
  have "rx_match (Seq r s) (c # w) \<longleftrightarrow>
      (rx_match r [] \<and> rx_match s (c # w)) \<or> (\<exists>u v. w = u @ v \<and> rx_match r (c # u) \<and> rx_match s v)"
    by (auto simp: rx_match_Seq Cons_eq_append_conv)
  with Seq show ?case by (auto simp: rx_match_Seq nullable_match)
next
  case (Star r)
  then show ?case by (auto simp: rx_match_Seq star_Cons)
qed auto

section \<open>The longest match\<close>

fun longest :: "rx \<Rightarrow> string \<Rightarrow> nat option" where
  "longest r [] = (if nullable r then Some 0 else None)"
| "longest r (c # s) =
     (case r of
        Zero \<Rightarrow> None
      | _ \<Rightarrow> (case longest (deriv c r) s of
             Some n \<Rightarrow> Some (Suc n)
           | None \<Rightarrow> if nullable r then Some 0 else None))"

lemma longest_Cons:
  "longest r (c # s) = (case longest (deriv c r) s of
     Some n \<Rightarrow> Some (Suc n) | None \<Rightarrow> if nullable r then Some 0 else None)"
proof (cases "r = Zero")
  case True
  have "longest Zero s = None" by (cases s) auto
  with True show ?thesis by simp
next
  case False
  then show ?thesis by (cases r) auto
qed

declare longest.simps(2) [simp del]

lemma longest_None: "longest r s = None \<Longrightarrow> s = u @ v \<Longrightarrow> \<not> rx_match r u"
proof (induction s arbitrary: r u)
  case Nil
  then show ?case by (simp add: nullable_match split: if_splits)
next
  case (Cons c s)
  then show ?case
    by (cases u) (auto simp: longest_Cons deriv_match [symmetric] nullable_match split: option.splits if_splits)
qed

lemma longest_match: "longest r s = Some n \<Longrightarrow> n \<le> length s \<and> rx_match r (take n s)"
proof (induction s arbitrary: r n)
  case Nil
  then show ?case by (simp add: nullable_match split: if_splits)
next
  case (Cons c s)
  show ?case
  proof (cases "longest (deriv c r) s")
    case None
    with Cons.prems show ?thesis by (auto simp: longest_Cons nullable_match split: if_splits)
  next
    case (Some m)
    with Cons.IH [OF Some] Cons.prems show ?thesis by (auto simp: longest_Cons deriv_match)
  qed
qed

lemma longest_max: "longest r s = Some n \<Longrightarrow> s = u @ v \<Longrightarrow> rx_match r u \<Longrightarrow> length u \<le> n"
proof (induction s arbitrary: r n u)
  case Nil
  then show ?case by simp
next
  case (Cons c s)
  show ?case
  proof (cases u)
    case (Cons d u')
    with Cons.prems have u: "d = c" "s = u' @ v" "rx_match (deriv c r) u'" by (auto simp: deriv_match)
    with longest_None obtain m where m: "longest (deriv c r) s = Some m" by (cases "longest (deriv c r) s") blast+
    with Cons.prems(1) have "n = Suc m" by (simp add: longest_Cons)
    with Cons.IH [OF m u(2,3)] Cons show ?thesis by simp
  qed simp
qed

text \<open>The longest match, as a specification.\<close>

lemma longest_iff:
  "longest r s = Some n \<longleftrightarrow>
     n \<le> length s \<and> rx_match r (take n s) \<and> (\<forall>u v. s = u @ v \<longrightarrow> rx_match r u \<longrightarrow> length u \<le> n)"
proof
  show "longest r s = Some n \<Longrightarrow>
      n \<le> length s \<and> rx_match r (take n s) \<and> (\<forall>u v. s = u @ v \<longrightarrow> rx_match r u \<longrightarrow> length u \<le> n)"
    using longest_match longest_max by blast
next
  assume a: "n \<le> length s \<and> rx_match r (take n s) \<and> (\<forall>u v. s = u @ v \<longrightarrow> rx_match r u \<longrightarrow> length u \<le> n)"
  then obtain m where m: "longest r s = Some m"
    using longest_None [of r s "take n s" "drop n s"] by (cases "longest r s") auto
  from longest_match [OF m] a have "m \<le> n"
    by (metis append_take_drop_id length_take min.absorb2)
  moreover from longest_max [OF m, of "take n s" "drop n s"] a have "n \<le> m" by simp
  ultimately show "longest r s = Some n" using m by simp
qed

section \<open>Building expressions\<close>

definition lit :: "string \<Rightarrow> rx" where
  "lit w = foldr (\<lambda>c. Seq (Cls (\<lambda>d. d = c))) w One"

definition plus :: "rx \<Rightarrow> rx" where
  "plus r = Seq r (Star r)"

lemma lit_match [simp]: "rx_match (lit w) u \<longleftrightarrow> u = w"
  unfolding lit_def by (induction w arbitrary: u) (auto simp: rx_match_Seq)

text \<open>Expressions none of whose classes has a given character match no text with it.\<close>

fun avoids :: "char \<Rightarrow> rx \<Rightarrow> bool" where
  "avoids c (Cls p) = (\<not> p c)"
| "avoids c (Alt r s) = (avoids c r \<and> avoids c s)"
| "avoids c (Seq r s) = (avoids c r \<and> avoids c s)"
| "avoids c (Star r) = avoids c r"
| "avoids c _ = True"

lemma avoids_match: "rx_match r w \<Longrightarrow> avoids c r \<Longrightarrow> c \<notin> set w"
  by (induction rule: rx_match.induct) auto

text \<open>The characters a match can begin with.\<close>

fun first_chars :: "rx \<Rightarrow> char \<Rightarrow> bool" where
  "first_chars (Cls p) c = p c"
| "first_chars (Alt r s) c = (first_chars r c \<or> first_chars s c)"
| "first_chars (Seq r s) c = (first_chars r c \<or> (nullable r \<and> first_chars s c))"
| "first_chars (Star r) c = first_chars r c"
| "first_chars _ c = False"

lemma first_match: "rx_match r (c # w) \<Longrightarrow> first_chars r c"
proof (induction r "c # w" arbitrary: w rule: rx_match.induct)
  case (seq r u s v)
  then show ?case by (cases u) (auto simp: nullable_match)
next
  case (star1 r u v)
  then show ?case by (cases u) auto
qed auto

end
