(* ===== verification/OG_Lexer.thy ===== *)
theory OG_Lexer
  imports OG_Regex OG_CStrings "HOL-Library.Sublist"
begin

text \<open>
  The scanner \<^verbatim>\<open>og_ws.l\<close>: its rules in their order, and the scanner that flex makes of them,
  which takes the longest match at each position and the first rule among equals. A token is its
  kind and its text, from which the parser takes a number where the rule stores one.
\<close>

section \<open>Tokens\<close>

text \<open>
  The token types of \<^verbatim>\<open>og_ws.y\<close>. The rules for fixed words come first, and each has a
  type of its own: \<open>Kw w\<close> is the type that the rule for the word \<open>w\<close> returns. A single character
  that no rule takes is its own type.
\<close>

datatype kind =
    Kw string | BUILTIN | SHARED | IP | UNITS | PORT | NUMBER | DUBVAR | PREFIXNAME | SUFFIXNAME
  | VARIABLE | NAME | PATH | QUOTEDSTRING | DQUOTEDSTRING | REGEXP | EQUAL_OPERATOR | WILDCARD | CH char

type_synonym token = "kind \<times> string"

section \<open>Rules\<close>

definition fixed_words :: "string list" where
  "fixed_words = [
     ''server_names_hash_bucket_size'', ''fastcgi_split_path_info'',
     ''ssl_prefer_server_ciphers'', ''worker_rlimit_nofile'', ''ssl_certificate_key'',
     ''ssl_session_timeout'', ''ssl_session_tickets'', ''worker_connections'',
     ''keepalive_timeout'', ''ssl_session_cache'', ''worker_processes'', ''ssl_certificate'',
     ''default_server'', ''ssl_protocols'', ''fastcgi_index'', ''fastcgi_param'',
     ''log_not_found'', ''server_tokens'', ''fastcgi_pass'', ''default_type'', ''ssl_ciphers'',
     ''server_name'', ''ssl_dhparam'', ''tcp_nopush'', ''access_log'', ''log_format'',
     ''proxy_pass'', ''error_page'', ''try_files'', ''error_log'', ''autoindex'', ''reuseport'',
     ''sendfile'', ''location'', ''upstream'', ''include'', ''expires'', ''rewrite'', ''backup'',
     ''events'', ''server'', ''listen'', ''return'', ''weight'', ''trace'', ''index'',
     ''http2://'', ''http2'', ''https://'', ''http://'', ''http'', ''root'', ''main'', ''user'',
     ''pid'', ''ssl'', ''off'', ''on'', '';'']"

text \<open>Character classes.\<close>

definition chars :: "string \<Rightarrow> rx" where
  "chars cs = Cls (\<lambda>c. c \<in> set cs)"

definition between :: "char \<Rightarrow> char \<Rightarrow> char \<Rightarrow> bool" where
  "between a b c = ((of_char a :: nat) \<le> of_char c \<and> (of_char c :: nat) \<le> of_char b)"

definition is_num :: "char \<Rightarrow> bool" where
  "is_num c = between (CHR ''0'') (CHR ''9'') c"

definition is_alnum :: "char \<Rightarrow> bool" where
  "is_alnum c = (is_num c \<or> between (CHR ''A'') (CHR ''Z'') c \<or> between (CHR ''a'') (CHR ''z'') c)"

definition name_char :: "char \<Rightarrow> bool" where
  "name_char c = (is_alnum c \<or> c = CHR ''.'' \<or> c = CHR ''_'' \<or> c = CHR ''-'')"

text \<open>Any character but the line feed.\<close>

definition any_char :: rx where
  "any_char = Cls (\<lambda>c. c \<noteq> LF)"

text \<open>
  A rule: its pattern, whether an opening brace must follow (trailing context, which counts for the
  length of the match and is not part of the text), and the kind of token it returns, if any.
\<close>

datatype rule = Rule (rule_rx: rx) (rule_brace: bool) (rule_kind: "string \<Rightarrow> kind option")

definition token_rule :: "kind \<Rightarrow> rx \<Rightarrow> rule" where
  "token_rule k r = Rule r False (\<lambda>_. Some k)"

definition quoted :: "char \<Rightarrow> rx" where
  "quoted q = Seq (chars [q]) (Seq (Star (Cls (\<lambda>c. c \<noteq> q \<and> c \<noteq> CHR '';''))) (chars [q]))"

definition pattern_rules :: "rule list" where
  "pattern_rules =
    [token_rule BUILTIN (Seq (lit ''builtin:'') (Seq (plus (Cls is_num)) (Star (chars ''mk'')))),
     token_rule SHARED (Seq (lit ''shared:'')
       (Seq (plus (Cls (\<lambda>c. is_alnum c \<or> c = CHR ''_'' \<or> c = CHR ''-'')))
       (Seq (lit '':'') (Seq (plus (Cls is_num)) (Star (chars ''mk'')))))),
     token_rule IP (Seq (plus (Cls is_num)) (Seq (lit ''.'') (Seq (plus (Cls is_num)) (Seq (lit ''.'')
       (Seq (plus (Cls is_num)) (Seq (lit ''.'') (plus (Cls is_num)))))))),
     token_rule UNITS (Seq (plus (Cls is_num)) (chars ''kmgshd'')),
     token_rule PORT (Seq (lit '':'') (plus (Cls is_num))),
     token_rule NUMBER (plus (Cls is_num)),
     token_rule DUBVAR (Seq (lit ''$'') (Seq (plus (Cls name_char)) (Seq (lit ''$'') (plus (Cls name_char))))),
     token_rule PREFIXNAME (Seq (lit ''*.'') (plus (Cls name_char))),
     token_rule SUFFIXNAME (Seq (plus (Cls name_char)) (lit ''.*'')),
     token_rule VARIABLE (Seq (lit ''$'') (Seq (plus (Cls name_char)) (Star (chars ''/'')))),
     token_rule NAME (plus (Cls name_char)),
     token_rule PATH (plus (Cls (\<lambda>c. name_char c \<or> c = CHR ''/''))),
     token_rule QUOTEDSTRING (quoted (CHR 0x27)),
     token_rule DQUOTEDSTRING (quoted (CHR 0x22)),
     Rule (Seq (Alt (lit ''~'') (Alt (lit ''~*'') (lit ''^~''))) (Star any_char)) True (\<lambda>_. Some REGEXP),
     token_rule EQUAL_OPERATOR (lit ''=''),
     token_rule WILDCARD (lit ''*''),
     Rule (Seq (lit ''#'') (Seq (Star any_char) (lit [LF]))) False (\<lambda>_. None),
     Rule (chars [CHR '' '', TAB, LF]) False (\<lambda>_. None),
     Rule any_char False (\<lambda>t. Some (CH (hd t)))]"

definition rules :: "rule list" where
  "rules = map (\<lambda>w. token_rule (Kw w) (lit w)) fixed_words @ pattern_rules"

section \<open>Scanning a text\<close>

definition total_rx :: "rule \<Rightarrow> rx" where
  "total_rx q = (if rule_brace q then Seq (rule_rx q) (lit ''{'') else rule_rx q)"

fun best :: "rule list \<Rightarrow> string \<Rightarrow> (nat \<times> rule) option" where
  "best [] s = None"
| "best (q # qs) s =
     (case longest (total_rx q) s of
        None \<Rightarrow> best qs s
      | Some n \<Rightarrow>
          (case best qs s of
             None \<Rightarrow> Some (n, q)
           | Some (m, p) \<Rightarrow> if n < m then Some (m, p) else Some (n, q)))"

text \<open>
  The length of the text and the kind. The parser takes a token type that is not positive, which a
  character of 128 or more or a null byte gives, for the end of the input.
\<close>

definition scan :: "string \<Rightarrow> nat \<times> kind option" where
  "scan s = (case best rules s of
     None \<Rightarrow> (0, None)
   | Some (n, q) \<Rightarrow>
       let l = (if rule_brace q then n - 1 else n) in (l, rule_kind q (take l s)))"

definition ends_input :: "kind \<Rightarrow> bool" where
  "ends_input k = (case k of CH c \<Rightarrow> (of_char c :: nat) = 0 \<or> 128 \<le> (of_char c :: nat) | _ \<Rightarrow> False)"

function lex :: "string \<Rightarrow> token list" where
  "lex s =
     (let (n, k) = scan s in
      if s = [] \<or> n = 0 then []
      else case k of
          None \<Rightarrow> lex (drop n s)
        | Some k \<Rightarrow> if ends_input k then [] else (k, take n s) # lex (drop n s))"
  by pat_completeness auto

termination by (relation "measure length") auto

declare lex.simps [simp del]

section \<open>The rule that is chosen\<close>

lemma best_None: "best qs s = None \<longleftrightarrow> (\<forall>q \<in> set qs. longest (total_rx q) s = None)"
  by (induction qs) (auto split: option.splits)

lemma best_cong:
  "(\<And>q. q \<in> set qs \<Longrightarrow> longest (total_rx q) s = longest (total_rx q) t) \<Longrightarrow> best qs s = best qs t"
proof (induction qs)
  case (Cons a qs)
  then have "best qs s = best qs t" "longest (total_rx a) s = longest (total_rx a) t" by auto
  then show ?case by (simp only: best.simps)
qed simp

definition chosen :: "rule list \<Rightarrow> string \<Rightarrow> nat \<Rightarrow> rule \<Rightarrow> bool" where
  "chosen qs s n q = (\<exists>xs ys. qs = xs @ q # ys \<and> longest (total_rx q) s = Some n \<and>
     (\<forall>p \<in> set xs. \<forall>m. longest (total_rx p) s = Some m \<longrightarrow> m < n) \<and>
     (\<forall>p \<in> set ys. \<forall>m. longest (total_rx p) s = Some m \<longrightarrow> m \<le> n))"

lemma best_chosen: "best qs s = Some (n, q) \<Longrightarrow> chosen qs s n q"
proof (induction qs arbitrary: n q)
  case (Cons p qs)
  show ?case
  proof (cases "longest (total_rx p) s")
    case None
    with Cons obtain xs ys where "qs = xs @ q # ys" "longest (total_rx q) s = Some n"
      "\<forall>p \<in> set xs. \<forall>m. longest (total_rx p) s = Some m \<longrightarrow> m < n"
      "\<forall>p \<in> set ys. \<forall>m. longest (total_rx p) s = Some m \<longrightarrow> m \<le> n"
      unfolding chosen_def by auto
    with None show ?thesis unfolding chosen_def by (intro exI [of _ "p # xs"] exI [of _ ys]) simp
  next
    case (Some k)
    show ?thesis
    proof (cases "\<exists>m r. best qs s = Some (m, r) \<and> k < m")
      case True
      with Some Cons.prems have b: "best qs s = Some (n, q)" "k < n" by auto
      with Cons.IH obtain xs ys where "qs = xs @ q # ys" "longest (total_rx q) s = Some n"
        "\<forall>p \<in> set xs. \<forall>m. longest (total_rx p) s = Some m \<longrightarrow> m < n"
        "\<forall>p \<in> set ys. \<forall>m. longest (total_rx p) s = Some m \<longrightarrow> m \<le> n"
        unfolding chosen_def by blast
      with Some b(2) show ?thesis unfolding chosen_def by (intro exI [of _ "p # xs"] exI [of _ ys]) simp
    next
      case False
      with Some Cons.prems have nq: "n = k" "q = p" by (auto split: option.splits prod.splits if_splits)
      have "m \<le> k" if "r \<in> set qs" "longest (total_rx r) s = Some m" for r m
      proof (cases "best qs s")
        case None
        with that show ?thesis by (auto simp: best_None)
      next
        case (Some z)
        obtain j r' where z: "z = (j, r')" by (cases z)
        with Some False have "j \<le> k" by auto
        moreover from Cons.IH [of j r'] Some z obtain xs ys where "qs = xs @ r' # ys" "longest (total_rx r') s = Some j"
          "\<forall>p \<in> set xs. \<forall>m. longest (total_rx p) s = Some m \<longrightarrow> m < j"
          "\<forall>p \<in> set ys. \<forall>m. longest (total_rx p) s = Some m \<longrightarrow> m \<le> j"
          unfolding chosen_def by blast
        with that have "m \<le> j" by fastforce
        ultimately show ?thesis by simp
      qed
      with Some nq show ?thesis unfolding chosen_def by (intro exI [of _ "[]"] exI [of _ qs]) simp
    qed
  qed
qed simp

lemma best_eqI: "chosen qs s n q \<Longrightarrow> best qs s = Some (n, q)"
proof -
  assume "chosen qs s n q"
  then obtain xs ys where q: "qs = xs @ q # ys" and n: "longest (total_rx q) s = Some n"
    and a: "\<forall>p \<in> set xs. \<forall>m. longest (total_rx p) s = Some m \<longrightarrow> m < n"
    and b: "\<forall>p \<in> set ys. \<forall>m. longest (total_rx p) s = Some m \<longrightarrow> m \<le> n"
    unfolding chosen_def by blast
  have "\<not> n < m" if "best ys s = Some (m, p)" for m p
    using best_chosen [OF that] b unfolding chosen_def by fastforce
  then have "best (q # ys) s = Some (n, q)" using n by (auto split: option.splits)
  with a have "best (xs @ q # ys) s = Some (n, q)"
    by (induction xs) (auto split: option.splits)
  with q show ?thesis by simp
qed

lemma rules_proper: "q \<in> set rules \<Longrightarrow> \<not> nullable (total_rx q)"
proof -
  have "list_all (\<lambda>q. \<not> nullable (total_rx q)) rules" by code_simp
  then show "q \<in> set rules \<Longrightarrow> ?thesis" by (simp add: list_all_iff)
qed

lemma best_rules: "s \<noteq> [] \<Longrightarrow> \<exists>n q. best rules s = Some (n, q) \<and> 0 < n \<and> n \<le> length s \<and> q \<in> set rules"
proof -
  assume s: "s \<noteq> []"
  have "best rules s \<noteq> None"
  proof
    assume "best rules s = None"
    then have none: "q \<in> set rules \<Longrightarrow> longest (total_rx q) s = None" for q by (simp add: best_None)
    obtain c t where c: "s = [c] @ t" using s by (cases s) auto
    have "\<exists>q \<in> set rules. rx_match (total_rx q) [c]"
    proof (cases "c = LF")
      case True
      then show ?thesis
        by (intro bexI [of _ "Rule (chars [CHR '' '', TAB, LF]) False (\<lambda>_. None)"])
          (simp_all add: rules_def pattern_rules_def total_rx_def chars_def)
    next
      case False
      then show ?thesis
        by (intro bexI [of _ "Rule any_char False (\<lambda>t. Some (CH (hd t)))"])
          (simp_all add: rules_def pattern_rules_def total_rx_def any_char_def)
    qed
    with none longest_None [OF _ c] show False by blast
  qed
  then obtain n q where b: "best rules s = Some (n, q)" by auto
  then obtain xs ys where q: "rules = xs @ q # ys" "longest (total_rx q) s = Some n"
    using best_chosen unfolding chosen_def by blast
  from q(1) have m: "q \<in> set rules" by (metis in_set_conv_decomp)
  from longest_match [OF q(2)] rules_proper [OF m] have "n \<noteq> 0" "n \<le> length s"
    by (auto simp: nullable_match intro: ccontr)
  with b m show ?thesis by auto
qed

text \<open>The fixed words are compared as they stand, which is how a scan is evaluated.\<close>

lemma longest_lit: "longest (lit w) s = (if prefix w s then Some (length w) else None)"
proof (cases "longest (lit w) s")
  case None
  then show ?thesis using longest_None [OF None] by (auto simp: prefix_def)
next
  case (Some n)
  from longest_match [OF Some] have w: "w = take n s" "n \<le> length s" by simp_all
  then have "prefix w s" "length w = n" by (simp_all add: take_is_prefix)
  with Some show ?thesis by simp
qed

fun best_word :: "string list \<Rightarrow> string \<Rightarrow> (nat \<times> rule) option \<Rightarrow> (nat \<times> rule) option" where
  "best_word [] s b = b"
| "best_word (w # ws) s b =
     (if prefix w s
      then (case best_word ws s b of
          None \<Rightarrow> Some (length w, token_rule (Kw w) (lit w))
        | Some (m, p) \<Rightarrow> if length w < m then Some (m, p) else Some (length w, token_rule (Kw w) (lit w)))
      else best_word ws s b)"

lemma total_token: "total_rx (token_rule k r) = r"
  by (simp add: token_rule_def total_rx_def)

lemma best_word_rules: "best rules s = best_word fixed_words s (best pattern_rules s)"
proof -
  have "best (map (\<lambda>w. token_rule (Kw w) (lit w)) ws @ pattern_rules) s = best_word ws s (best pattern_rules s)" for ws
    by (induction ws) (simp_all add: total_token longest_lit)
  then show ?thesis by (simp add: rules_def)
qed

lemma scan_code [code]:
  "scan s = (case best_word fixed_words s (best pattern_rules s) of
     None \<Rightarrow> (0, None)
   | Some (n, q) \<Rightarrow>
       let l = (if rule_brace q then n - 1 else n) in (l, rule_kind q (take l s)))"
  by (simp add: scan_def best_word_rules)

section \<open>Where a token ends\<close>

lemma longest_before:
  assumes "avoids c r" "c \<notin> set w"
  shows "longest r (w @ c # t) = longest r w"
proof -
  have pre: "\<exists>v'. w = u @ v'" if "rx_match r u" "w @ c # t = u @ v" for u v
  proof -
    have "c \<notin> set u" by (rule avoids_match [OF that(1) assms(1)])
    with that(2) show ?thesis by (auto simp: append_eq_append_conv2 append_eq_Cons_conv Cons_eq_append_conv)
  qed
  show ?thesis
  proof (cases "longest r w")
    case None
    have "longest r (w @ c # t) = None"
    proof (rule ccontr)
      assume "longest r (w @ c # t) \<noteq> None"
      then obtain n where "longest r (w @ c # t) = Some n" by auto
      from longest_match [OF this] have m: "rx_match r (take n (w @ c # t))" by simp
      from pre [OF m append_take_drop_id [symmetric]] obtain v' where "w = take n (w @ c # t) @ v'" ..
      with longest_None [OF None] m show False by blast
    qed
    with None show ?thesis by simp
  next
    case (Some n)
    from longest_match [OF Some] have n: "n \<le> length w" "rx_match r (take n w)" by auto
    have "longest r (w @ c # t) = Some n"
      unfolding longest_iff
    proof (intro conjI allI impI)
      fix u v assume u: "w @ c # t = u @ v" "rx_match r u"
      from pre [OF u(2,1)] obtain v' where "w = u @ v'" by blast
      with longest_max [OF Some _ u(2)] show "length u \<le> n" by blast
    qed (use n in auto)
    with Some show ?thesis by simp
  qed
qed

lemma longest_first:
  assumes "\<not> nullable r" "\<not> first_chars r c"
  shows "longest r (c # t) = None"
proof (rule ccontr)
  assume "longest r (c # t) \<noteq> None"
  then obtain n where "longest r (c # t) = Some n" by auto
  from longest_match [OF this] have m: "rx_match r (take n (c # t))" by simp
  with assms(1) obtain k where "n = Suc k" by (cases n) (auto simp: nullable_match)
  with m first_match assms(2) show False by auto
qed

text \<open>The characters that begin a rule whose match may go over a line feed, or a comment.\<close>

definition ordinary :: "char \<Rightarrow> bool" where
  "ordinary c = (c \<notin> {CHR ''#'', CHR 0x27, CHR 0x22, CHR '' '', TAB, LF})"

lemma fixed_words_facts:
  "list_all (\<lambda>w. w \<noteq> [] \<and> list_all (\<lambda>c. c \<noteq> LF) w \<and> ordinary (hd w) \<and> \<not> is_num (hd w)) fixed_words"
  by code_simp

lemma avoids_lit: "avoids c (lit w) \<longleftrightarrow> c \<notin> set w"
  unfolding lit_def by (induction w) auto

lemma first_lit: "first_chars (lit (d # w)) c \<longleftrightarrow> d = c"
  by (auto simp: lit_def)

lemma nullable_lit [simp]: "nullable (lit w) \<longleftrightarrow> w = []"
  by (auto simp: nullable_match)

lemma class_LF [simp]: "\<not> is_num LF" "\<not> name_char LF" "\<not> is_alnum LF"
  by code_simp+

lemma rules_cases:
  assumes "q \<in> set rules"
  obtains w where "w \<in> set fixed_words" "q = token_rule (Kw w) (lit w)" | "q \<in> set pattern_rules"
  using assms by (auto simp: rules_def)

lemma rules_one_line:
  assumes "q \<in> set rules" "ordinary c"
  shows "avoids LF (total_rx q) \<or> \<not> first_chars (total_rx q) c"
  using assms(1)
proof (cases rule: rules_cases)
  case (1 w)
  with fixed_words_facts show ?thesis
    by (auto simp: token_rule_def total_rx_def avoids_lit list_all_iff)
next
  case 2
  have c: "c \<noteq> CHR ''#''" "c \<noteq> CHR 0x27" "c \<noteq> CHR 0x22" "c \<noteq> CHR '' ''" "c \<noteq> TAB" "c \<noteq> LF"
    using assms(2) by (simp_all add: ordinary_def)
  have "list_all (\<lambda>q. avoids LF (total_rx q) \<or> \<not> first_chars (total_rx q) c) pattern_rules"
    using c by (simp add: pattern_rules_def token_rule_def total_rx_def avoids_lit first_lit plus_def
        chars_def quoted_def any_char_def)
  with 2 show ?thesis by (simp add: list_all_iff)
qed

lemma best_before:
  assumes "w \<noteq> []" "LF \<notin> set w" "ordinary (hd w)"
  shows "best rules (w @ LF # t) = best rules w"
proof (rule best_cong)
  fix q assume q: "q \<in> set rules"
  obtain c v where w: "w = c # v" using assms(1) by (cases w) auto
  with rules_one_line [OF q, of c] assms(3)
  consider "avoids LF (total_rx q)" | "\<not> first_chars (total_rx q) c" by auto
  then show "longest (total_rx q) (w @ LF # t) = longest (total_rx q) w"
  proof cases
    case 1
    then show ?thesis using assms(2) by (rule longest_before)
  next
    case 2
    with longest_first rules_proper [OF q] w show ?thesis by simp
  qed
qed

lemma scan_LF: "scan (LF # t) = (1, None)"
proof -
  let ?ws = "Rule (chars [CHR '' '', TAB, LF]) False (\<lambda>_. None)"
  let ?any = "Rule any_char False (\<lambda>t. Some (CH (hd t)))"
  obtain ps where ps: "pattern_rules = ps @ [?ws, ?any]"
    and f: "list_all (\<lambda>q. \<not> first_chars (total_rx q) LF) ps"
  proof -
    let ?ps = "butlast (butlast pattern_rules)"
    have "pattern_rules = ?ps @ [?ws, ?any]" by (simp add: pattern_rules_def)
    moreover have "list_all (\<lambda>q. \<not> first_chars (total_rx q) LF) ?ps"
      by (simp add: pattern_rules_def token_rule_def total_rx_def first_lit plus_def chars_def quoted_def)
    ultimately show ?thesis by (rule that)
  qed
  define xs where "xs = map (\<lambda>w. token_rule (Kw w) (lit w)) fixed_words @ ps"
  have rs: "rules = xs @ [?ws, ?any]" by (simp add: rules_def xs_def ps)
  have words: "\<not> first_chars (lit w) LF" if "w \<in> set fixed_words" for w
  proof -
    from fixed_words_facts that have "w \<noteq> []" "ordinary (hd w)" by (simp_all add: list_all_iff)
    then show ?thesis by (cases w) (simp_all add: first_lit ordinary_def)
  qed
  have "\<not> first_chars (total_rx q) LF" if q: "q \<in> set xs" for q
  proof -
    from q consider w where "w \<in> set fixed_words" "q = token_rule (Kw w) (lit w)" | "q \<in> set ps"
      by (auto simp: xs_def)
    then show ?thesis
    proof cases
      case (1 w)
      with words [OF 1(1)] show ?thesis by (simp add: token_rule_def total_rx_def)
    next
      case 2
      with f show ?thesis by (simp add: list_all_iff)
    qed
  qed
  moreover have "\<not> nullable (total_rx q)" if "q \<in> set xs" for q
  proof (rule rules_proper)
    show "q \<in> set rules" unfolding rs using that by simp
  qed
  ultimately have "\<forall>p \<in> set xs. longest (total_rx p) (LF # t) = None" using longest_first by blast
  moreover have "longest (total_rx ?ws) (LF # t) = Some 1"
    by (auto simp: longest_iff total_rx_def chars_def)
  moreover have "longest (total_rx ?any) (LF # t) = None"
    by (rule longest_first) (simp_all add: total_rx_def any_char_def)
  ultimately have "chosen rules (LF # t) 1 ?ws"
    unfolding chosen_def rs by (intro exI [of _ xs] exI [of _ "[?any]"]) simp
  from best_eqI [OF this] show ?thesis by (simp add: scan_def)
qed

lemma lex_LF [simp]: "lex (LF # t) = lex t"
  by (subst lex.simps) (simp add: scan_LF)

lemma longest_length: "longest r s = Some n \<Longrightarrow> n \<le> length s"
  using longest_match by blast

lemma longest_full: "rx_match r s \<Longrightarrow> longest r s = Some (length s)"
  by (simp add: longest_iff)

text \<open>A rule that matches a whole text is chosen if no earlier one does.\<close>

lemma chosen_full:
  assumes "qs = xs @ q # ys" "rx_match (total_rx q) s" "\<And>p. p \<in> set xs \<Longrightarrow> \<not> rx_match (total_rx p) s"
  shows "best qs s = Some (length s, q)"
proof (rule best_eqI)
  have "m < length s" if "p \<in> set xs" "longest (total_rx p) s = Some m" for p m
  proof -
    have "m \<noteq> length s" using longest_match [OF that(2)] assms(3) [OF that(1)] by auto
    with longest_length [OF that(2)] show ?thesis by simp
  qed
  then show "chosen qs s (length s) q"
    unfolding chosen_def assms(1) using longest_full [OF assms(2)] longest_length
    by (intro exI [of _ xs] exI [of _ ys]) blast
qed

lemma scan_fixed:
  assumes "w \<in> set fixed_words" shows "scan w = (length w, Some (Kw w))"
proof -
  have "distinct fixed_words" by code_simp
  obtain as bs where w: "fixed_words = as @ w # bs" using assms by (metis split_list)
  with \<open>distinct fixed_words\<close> have "distinct (as @ w # bs)" by (simp only:)
  then have "w \<notin> set as" by simp
  let ?f = "\<lambda>w. token_rule (Kw w) (lit w)"
  have "best rules w = Some (length w, ?f w)"
  proof (rule chosen_full)
    show "rules = map ?f as @ ?f w # (map ?f bs @ pattern_rules)" by (simp add: rules_def w)
  qed (use \<open>w \<notin> set as\<close> in \<open>auto simp: token_rule_def total_rx_def\<close>)
  then show ?thesis by (simp add: scan_def token_rule_def)
qed

lemma star_class: "rx_match (Star (Cls p)) w \<longleftrightarrow> list_all p w"
proof (induction w)
  case Nil
  show ?case by (simp add: star0)
next
  case (Cons c w)
  then show ?case by (auto simp: star_Cons)
qed

lemma seq_class: "rx_match (Seq (Cls p) r) w \<longleftrightarrow> (\<exists>c v. w = c # v \<and> p c \<and> rx_match r v)"
proof
  assume "\<exists>c v. w = c # v \<and> p c \<and> rx_match r v"
  then obtain c v where "w = [c] @ v" "rx_match (Cls p) [c]" "rx_match r v" by auto
  then show "rx_match (Seq (Cls p) r) w" unfolding rx_match_Seq by blast
qed (auto simp: rx_match_Seq)

lemma plus_class: "rx_match (plus (Cls p)) w \<longleftrightarrow> w \<noteq> [] \<and> list_all p w"
  by (cases w) (auto simp: plus_def seq_class star_class)

lemma seq_lit: "rx_match (Seq (lit u) r) w \<longleftrightarrow> (\<exists>v. w = u @ v \<and> rx_match r v)"
  by (auto simp: rx_match_Seq)

lemma seq_plus:
  "rx_match (Seq (plus (Cls p)) r) w \<longleftrightarrow> (\<exists>u v. w = u @ v \<and> u \<noteq> [] \<and> list_all p u \<and> rx_match r v)"
  by (auto simp: rx_match_Seq [of "plus (Cls p)"] plus_class)

text \<open>A number: only the rule for numbers and two later ones match all of it.\<close>

lemma scan_number:
  assumes "w \<noteq> []" "list_all is_num w" shows "scan w = (length w, Some NUMBER)"
proof -
  let ?f = "\<lambda>w. token_rule (Kw w) (lit w)"
  obtain as bs where rs: "pattern_rules = as @ token_rule NUMBER (plus (Cls is_num)) # bs"
    and as: "as = take 5 pattern_rules" by (simp add: pattern_rules_def)
  have c: "c \<in> set w \<Longrightarrow> is_num c" for c using assms(2) by (simp add: list_all_iff)
  have no: "\<not> is_num (CHR ''.'')" "\<not> is_num (CHR '':'')" "\<not> is_num (CHR ''b'')" "\<not> is_num (CHR ''s'')"
    "\<not> is_num (CHR ''k'')" "\<not> is_num (CHR ''m'')" "\<not> is_num (CHR ''g'')" "\<not> is_num (CHR ''h'')" "\<not> is_num (CHR ''d'')"
    by code_simp+
  have "best rules w = Some (length w, token_rule NUMBER (plus (Cls is_num)))"
  proof (rule chosen_full)
    show "rules = (map ?f fixed_words @ as) @ token_rule NUMBER (plus (Cls is_num)) # bs"
      by (simp add: rules_def rs)
    show "rx_match (total_rx (token_rule NUMBER (plus (Cls is_num)))) w"
      using assms by (simp add: token_rule_def total_rx_def plus_class)
    fix p assume "p \<in> set (map ?f fixed_words @ as)"
    then consider v where "v \<in> set fixed_words" "p = ?f v" | "p \<in> set (take 5 pattern_rules)"
      by (auto simp: as)
    then show "\<not> rx_match (total_rx p) w"
    proof cases
      case (1 v)
      from fixed_words_facts 1(1) have "v \<noteq> []" "\<not> is_num (hd v)" by (simp_all add: list_all_iff)
      then have "w \<noteq> v" using c by (cases v) auto
      with 1(2) show ?thesis by (simp add: token_rule_def total_rx_def)
    next
      case 2
      have "list_all (\<lambda>p. \<not> rx_match (total_rx p) w) (take 5 pattern_rules)"
        using c no by (auto simp: pattern_rules_def token_rule_def total_rx_def seq_lit rx_match_Seq
            chars_def)
      with 2 show ?thesis by (simp add: list_all_iff)
    qed
  qed
  then show ?thesis by (simp add: scan_def token_rule_def)
qed

section \<open>Writing tokens\<close>

text \<open>
  A token that is scanned as itself before a line feed, and a quoted string. A list of tokens that can
  be written and scanned: each such, and a regular expression only before a brace, which its rule needs.
\<close>

definition plain_token :: "token \<Rightarrow> bool" where
  "plain_token t = (case t of (k, w) \<Rightarrow>
     w \<noteq> [] \<and> LF \<notin> set w \<and> ordinary (hd w) \<and> scan w = (length w, Some k) \<and> \<not> ends_input k)"

lemma plain_word: "w \<in> set fixed_words \<Longrightarrow> plain_token (Kw w, w)"
  using fixed_words_facts scan_fixed [of w] by (auto simp: plain_token_def list_all_iff ends_input_def)

definition in_quotes :: "char \<Rightarrow> string \<Rightarrow> string \<Rightarrow> bool" where
  "in_quotes q x w = (w = q # x @ [q] \<and> list_all (\<lambda>c. c \<noteq> q \<and> c \<noteq> CHR '';'') x)"

definition quoted_token :: "token \<Rightarrow> bool" where
  "quoted_token t = (case t of (k, w) \<Rightarrow>
     (k = QUOTEDSTRING \<and> in_quotes (CHR 0x27) (butlast (tl w)) w) \<or>
     (k = DQUOTEDSTRING \<and> in_quotes (CHR 0x22) (butlast (tl w)) w))"

definition brace :: token where
  "brace = (CH (CHR ''{''), ''{'')"

fun writable :: "token list \<Rightarrow> bool" where
  "writable [] = True"
| "writable ((k, w) # ts) =
     ((if k = REGEXP
       then w \<noteq> [] \<and> LF \<notin> set w \<and> ordinary (hd w) \<and> scan (w @ ''{'') = (length w, Some REGEXP) \<and>
         ts \<noteq> [] \<and> hd ts = brace
       else plain_token (k, w) \<or> quoted_token (k, w)) \<and> writable ts)"

fun write_tokens :: "token list \<Rightarrow> string" where
  "write_tokens [] = []"
| "write_tokens ((k, w) # ts) = w @ (if k = REGEXP then [] else [LF]) @ write_tokens ts"

lemma scan_before:
  assumes "w \<noteq> []" "LF \<notin> set w" "ordinary (hd w)" "n \<le> length w" "scan w = (n, k)"
  shows "scan (w @ LF # t) = (n, k)"
proof -
  from best_rules [OF assms(1)] obtain m q where b: "best rules w = Some (m, q)" by blast
  with assms(5) have n: "n = (if rule_brace q then m - 1 else m)" "k = rule_kind q (take n w)"
    by (auto simp: scan_def Let_def)
  from b best_before [OF assms(1-3)] have "best rules (w @ LF # t) = Some (m, q)" by simp
  with n assms(4) show ?thesis by (simp add: scan_def Let_def)
qed

lemma lex_step: "s \<noteq> [] \<Longrightarrow> scan s = (n, Some k) \<Longrightarrow> n \<noteq> 0 \<Longrightarrow> \<not> ends_input k \<Longrightarrow>
    lex s = (k, take n s) # lex (drop n s)"
  by (subst lex.simps) simp

lemma lex_plain: "plain_token (k, w) \<Longrightarrow> lex (w @ LF # t) = (k, w) # lex t"
proof -
  assume "plain_token (k, w)"
  then have w: "w \<noteq> []" "LF \<notin> set w" "ordinary (hd w)" "scan w = (length w, Some k)" "\<not> ends_input k"
    by (simp_all add: plain_token_def)
  from lex_step [OF _ scan_before [OF w(1-3) order_refl w(4)] _ w(5)] w(1) show ?thesis by simp
qed

lemma scan_quoted:
  assumes "in_quotes q x w" "q = CHR 0x27 \<and> k = QUOTEDSTRING \<or> q = CHR 0x22 \<and> k = DQUOTEDSTRING"
  shows "scan (w @ t) = (length w, Some k)"
proof -
  let ?q = "token_rule k (quoted q)" and ?any = "Rule any_char False (\<lambda>t. Some (CH (hd t)))"
  let ?b = "Cls (\<lambda>c. c \<noteq> q \<and> c \<noteq> CHR '';'')"
  have w: "w = q # x @ [q]" "list_all (\<lambda>c. c \<noteq> q \<and> c \<noteq> CHR '';'') x"
    using assms(1) by (simp_all add: in_quotes_def)
  obtain ps where ps: "pattern_rules = ps @ [?any]" by (simp add: pattern_rules_def)
  have psb: "ps = butlast pattern_rules" by (simp add: ps)
  have "list_all (\<lambda>p. p = ?q \<or> \<not> first_chars (total_rx p) q) ps"
    unfolding psb using assms(2)
    by (elim disjE) (simp_all add: pattern_rules_def token_rule_def total_rx_def first_lit plus_def chars_def
        quoted_def is_num_def is_alnum_def name_char_def between_def)
  then have other: "p \<in> set ps \<Longrightarrow> p \<noteq> ?q \<Longrightarrow> \<not> first_chars (total_rx p) q" for p
    by (auto simp: list_all_iff)
  have "?q \<in> set ps" unfolding psb using assms(2)
    by (elim disjE) (simp_all add: pattern_rules_def)
  then obtain as bs where sp: "ps = as @ ?q # bs" "?q \<notin> set as" by (metis split_list_first)
  have "rx_match (quoted q) w"
    unfolding quoted_def chars_def seq_class rx_match_Seq using w star_class [of _ x]
    by (intro exI [of _ q] exI [of _ "x @ [q]"] conjI exI [of _ x] exI [of _ "[q]"]) simp_all
  moreover have "length u \<le> length w" if "w @ t = u @ v" "rx_match (quoted q) u" for u v
  proof -
    from that(2) obtain y where "u = q # y @ [q]" "list_all (\<lambda>c. c \<noteq> q \<and> c \<noteq> CHR '';'') y"
      by (auto simp: quoted_def chars_def seq_class rx_match_Seq star_class)
    with that(1) w have "x @ q # t = y @ q # v" "q \<notin> set x" "q \<notin> set y" by (auto simp: list_all_iff)
    moreover have "q \<notin> set z \<Longrightarrow> takeWhile (\<lambda>c. c \<noteq> q) (z @ q # r) = z" for z r
      by (induction z) auto
    ultimately have "x = y" by metis
    with \<open>u = _\<close> w(1) show ?thesis by simp
  qed
  ultimately have long: "longest (total_rx ?q) (w @ t) = Some (length w)"
    by (auto simp: longest_iff token_rule_def total_rx_def)
  have none: "longest (total_rx p) (w @ t) = None" if "p \<in> set rules" "\<not> first_chars (total_rx p) q" for p
    using longest_first rules_proper that w(1) by simp
  have words: "\<not> first_chars (lit v) q" if "v \<in> set fixed_words" for v
  proof -
    from fixed_words_facts that have "v \<noteq> []" "ordinary (hd v)" by (simp_all add: list_all_iff)
    with assms(2) show ?thesis by (cases v) (auto simp: first_lit ordinary_def)
  qed
  let ?f = "\<lambda>w. token_rule (Kw w) (lit w)"
  have rs: "rules = (map ?f fixed_words @ as) @ ?q # (bs @ [?any])" by (simp add: rules_def ps sp)
  have "longest (total_rx p) (w @ t) = None" if "p \<in> set (map ?f fixed_words @ as)" for p
  proof (rule none)
    show "p \<in> set rules" unfolding rs using that by auto
    from that consider v where "v \<in> set fixed_words" "p = ?f v" | "p \<in> set as" by auto
    then show "\<not> first_chars (total_rx p) q"
    proof cases
      case (1 v)
      with words show ?thesis by (simp add: token_rule_def total_rx_def)
    next
      case 2
      then have "p \<in> set ps" "p \<noteq> ?q" using sp by auto
      then show ?thesis by (rule other)
    qed
  qed
  moreover have "m \<le> length w" if "p \<in> set (bs @ [?any])" "longest (total_rx p) (w @ t) = Some m" for p m
  proof -
    have p: "p \<in> set rules" unfolding rs using that by auto
    from that(1) sp(1) have "p = ?any \<or> p \<in> set ps" by auto
    then consider "p = ?any" | "p = ?q" | "p \<in> set ps" "p \<noteq> ?q" by blast
    then show ?thesis
    proof cases
      case 1
      with longest_match [OF that(2)] obtain d where "take m (w @ t) = [d]" "m \<le> length (w @ t)"
        by (auto simp only: total_rx_def any_char_def rule.sel if_False rx_match_simps)
      then have "m = length [d]" by (metis length_take min.absorb2)
      with w(1) show ?thesis by simp
    qed (use that long none [OF p] other in auto)
  qed
  ultimately have "chosen rules (w @ t) (length w) ?q"
    unfolding chosen_def rs using long
    by (intro exI [of _ "map ?f fixed_words @ as"] exI [of _ "bs @ [?any]"]) auto
  from best_eqI [OF this] show ?thesis by (simp add: scan_def token_rule_def)
qed

lemma scan_brace: "scan ''{'' = (1, Some (CH (CHR ''{'')))"
  by code_simp

lemma lex_written: "writable ts \<Longrightarrow> lex (write_tokens ts) = ts"
proof (induction ts rule: writable.induct)
  case 1
  show ?case by (subst lex.simps) (simp add: Let_def split: prod.split)
next
  case (2 k w ts)
  show ?case
  proof (cases "k = REGEXP")
    case True
    with "2.prems" have w: "w \<noteq> []" "LF \<notin> set w" "ordinary (hd w)" "scan (w @ ''{'') = (length w, Some REGEXP)"
      and ts: "writable ts" "ts \<noteq> []" "hd ts = brace" by simp_all
    then obtain us where us: "ts = brace # us" by (cases ts) auto
    have "scan ((w @ ''{'') @ LF # write_tokens us) = (length w, Some REGEXP)"
      by (rule scan_before) (use w in auto)
    then have "lex (w @ write_tokens ts) = (REGEXP, w) # lex (write_tokens ts)"
      using lex_step [of "w @ write_tokens ts" "length w" REGEXP] w(1)
      by (simp add: us brace_def ends_input_def)
    with True "2.IH" ts(1) show ?thesis by simp
  next
    case False
    with "2.prems" have ts: "writable ts" by simp
    from False "2.prems" consider "plain_token (k, w)" | "quoted_token (k, w)" by auto
    then have "lex (w @ LF # write_tokens ts) = (k, w) # lex (write_tokens ts)"
    proof cases
      case 2
      then obtain q x where q: "in_quotes q x w" "q = CHR 0x27 \<and> k = QUOTEDSTRING \<or> q = CHR 0x22 \<and> k = DQUOTEDSTRING"
        by (auto simp: quoted_token_def)
      from scan_quoted [OF q] have "scan (w @ LF # write_tokens ts) = (length w, Some k)" .
      moreover have "w \<noteq> []" "\<not> ends_input k" using q by (auto simp: in_quotes_def ends_input_def)
      ultimately show ?thesis using lex_step [of "w @ LF # write_tokens ts" "length w" k] by simp
    qed (rule lex_plain)
    with False "2.IH" ts show ?thesis by simp
  qed
qed

section \<open>What the scanner takes\<close>

text \<open>A rule matches a beginning of the text, with the brace where it needs one.\<close>

definition matches :: "rule \<Rightarrow> string \<Rightarrow> nat \<Rightarrow> bool" where
  "matches q s n = (n \<le> length s \<and> rx_match (total_rx q) (take n s))"

lemma longest_matches: "longest (total_rx q) s = Some n \<Longrightarrow> matches q s n"
  using longest_match by (auto simp: matches_def)

lemma matches_longest: "matches q s j \<Longrightarrow> \<exists>n. longest (total_rx q) s = Some n \<and> j \<le> n"
proof -
  assume a: "matches q s j"
  then have m: "s = take j s @ drop j s" "rx_match (total_rx q) (take j s)" by (simp_all add: matches_def)
  with longest_None obtain n where n: "longest (total_rx q) s = Some n"
    by (cases "longest (total_rx q) s") blast+
  from longest_max [OF n m] a n show ?thesis by (simp add: matches_def)
qed

lemma brace_text:
  assumes "rule_brace q" "matches q s m" "rule_rx q = r" "\<not> nullable r"
  shows "1 < m"
proof -
  from assms have "rx_match (Seq r (lit ''{'')) (take m s)" by (simp add: matches_def total_rx_def)
  then obtain u where u: "take m s = u @ ''{''" "rx_match r u" by (auto simp: rx_match_Seq)
  with assms(4) have "u \<noteq> []" by (auto simp: nullable_match)
  with u(1) have "1 < length (take m s)" by (cases u) simp_all
  then show ?thesis by simp
qed

lemma rules_text: "q \<in> set rules \<Longrightarrow> \<not> nullable (rule_rx q)"
proof -
  have "list_all (\<lambda>q. \<not> nullable (rule_rx q)) rules" by code_simp
  then show "q \<in> set rules \<Longrightarrow> ?thesis" by (simp add: list_all_iff)
qed

lemma scan_longest:
  assumes "s \<noteq> []" "scan s = (n, k)"
  shows "\<exists>xs q ys m. rules = xs @ q # ys \<and> matches q s m \<and>
    (\<forall>p \<in> set rules. \<forall>j. matches p s j \<longrightarrow> j \<le> m) \<and> (\<forall>p \<in> set xs. \<not> matches p s m) \<and>
    n = (if rule_brace q then m - 1 else m) \<and> k = rule_kind q (take n s) \<and> 0 < n \<and> n \<le> length s"
proof -
  from best_rules [OF assms(1)] obtain m q where b: "best rules s = Some (m, q)" "0 < m" "m \<le> length s" by blast
  from best_chosen [OF b(1)] obtain xs ys where r: "rules = xs @ q # ys" "longest (total_rx q) s = Some m"
    and xs: "\<forall>p \<in> set xs. \<forall>j. longest (total_rx p) s = Some j \<longrightarrow> j < m"
    and ys: "\<forall>p \<in> set ys. \<forall>j. longest (total_rx p) s = Some j \<longrightarrow> j \<le> m"
    unfolding chosen_def by blast
  have q: "q \<in> set rules" unfolding r(1) by simp
  have m: "matches q s m" by (rule longest_matches [OF r(2)])
  have before: "\<not> matches p s m" if "p \<in> set xs" for p
    using xs that matches_longest by fastforce
  have top: "j \<le> m" if p: "p \<in> set rules" "matches p s j" for p j
  proof -
    from matches_longest [OF p(2)] obtain i where i: "longest (total_rx p) s = Some i" "j \<le> i" by blast
    from p(1) consider "p \<in> set xs" | "p = q" | "p \<in> set ys" unfolding r(1) by auto
    then have "i \<le> m" using i(1) xs ys r(2) by cases fastforce+
    with i(2) show ?thesis by simp
  qed
  have "rule_brace q \<Longrightarrow> 1 < m" using brace_text [OF _ m refl rules_text [OF q]] .
  with b assms(2) have n: "n = (if rule_brace q then m - 1 else m)" "k = rule_kind q (take n s)" "0 < n" "n \<le> length s"
    by (auto simp: scan_def Let_def)
  show ?thesis using r(1) m before top n by blast
qed

text \<open>A regular expression begins with its operator, and an opening brace comes right after it.\<close>

lemma rule_regexp:
  assumes "q \<in> set rules" "rule_kind q t = Some REGEXP"
  shows "q = Rule (Seq (Alt (lit ''~'') (Alt (lit ''~*'') (lit ''^~''))) (Star any_char)) True (\<lambda>_. Some REGEXP)"
  using assms(1)
proof (cases rule: rules_cases)
  case (1 w)
  with assms(2) show ?thesis by (simp add: token_rule_def)
next
  case 2
  then have "q \<in> set pattern_rules" .
  with assms(2) show ?thesis unfolding pattern_rules_def token_rule_def by auto
qed

definition regexp_text :: "string \<Rightarrow> bool" where
  "regexp_text w = (prefix ''~'' w \<or> prefix ''^~'' w)"

lemma scan_regexp:
  assumes "s \<noteq> []" "scan s = (n, Some REGEXP)"
  shows "regexp_text (take n s) \<and> (\<exists>t. drop n s = CHR ''{'' # t)"
proof -
  from scan_longest [OF assms] obtain xs q ys m where q: "rules = xs @ q # ys" "matches q s m"
    "n = (if rule_brace q then m - 1 else m)" "rule_kind q (take n s) = Some REGEXP" by metis
  have "q \<in> set rules" unfolding q(1) by simp
  from rule_regexp [OF this q(4)]
  have qd: "q = Rule (Seq (Alt (lit ''~'') (Alt (lit ''~*'') (lit ''^~''))) (Star any_char)) True (\<lambda>_. Some REGEXP)" .
  with q(2) obtain u where u: "take m s = u @ ''{''" "m \<le> length s"
    and r: "rx_match (Seq (Alt (lit ''~'') (Alt (lit ''~*'') (lit ''^~''))) (Star any_char)) u"
    by (auto simp: matches_def total_rx_def rx_match_Seq)
  from r have v: "regexp_text u" unfolding regexp_text_def by (auto simp: rx_match_Seq prefix_def)
  from u have "length (u @ ''{'') = m" by (metis length_take min.absorb2)
  with qd q(3) have n: "n = length u" by auto
  have "s = u @ CHR ''{'' # drop m s" using u(1) append_take_drop_id [of m s] by simp
  with n v show ?thesis by (metis append_eq_conv_conj)
qed

lemma scan_open: "scan (CHR ''{'' # t) = (1, Some (CH (CHR ''{'')))"
proof -
  let ?any = "Rule any_char False (\<lambda>t. Some (CH (hd t)))"
  obtain xs where rs: "rules = xs @ [?any]" and xs: "xs = butlast rules"
    by (simp add: rules_def pattern_rules_def butlast_append)
  have "list_all (\<lambda>q. \<not> first_chars (total_rx q) (CHR ''{'')) (butlast rules)" by code_simp
  then have f: "q \<in> set xs \<Longrightarrow> \<not> first_chars (total_rx q) (CHR ''{'')" for q by (simp add: xs list_all_iff)
  have "\<forall>p \<in> set xs. longest (total_rx p) (CHR ''{'' # t) = None"
    using longest_first rules_proper f by (simp add: rs)
  moreover have "longest (total_rx ?any) (CHR ''{'' # t) = Some 1"
    by (auto simp: longest_iff total_rx_def any_char_def)
  ultimately have "chosen rules (CHR ''{'' # t) 1 ?any"
    unfolding chosen_def rs by (intro exI [of _ xs] exI [of _ "[]"]) simp
  from best_eqI [OF this] show ?thesis by (simp add: scan_def)
qed

lemma lex_open: "lex (CHR ''{'' # t) = brace # lex t"
  using lex_step [OF _ scan_open] by (simp add: brace_def ends_input_def)

lemma lex_nonempty: "lex s \<noteq> [] \<Longrightarrow> scan s = (n, k) \<Longrightarrow> s \<noteq> [] \<and> n \<noteq> 0"
proof (rule ccontr)
  assume "lex s \<noteq> []" "scan s = (n, k)" "\<not> (s \<noteq> [] \<and> n \<noteq> 0)"
  moreover from this(2,3) have "lex s = []" by (subst lex.simps) auto
  ultimately show False by simp
qed

lemma lex_regexp: "lex s = us @ (REGEXP, w) # ts \<Longrightarrow> regexp_text w \<and> (\<exists>ts'. ts = brace # ts')"
proof (induction s arbitrary: us rule: lex.induct)
  case (1 s)
  obtain n k where sc: "scan s = (n, k)" by (cases "scan s")
  have "lex s \<noteq> []" using "1.prems" by simp
  from lex_nonempty [OF this sc] have nz: "s \<noteq> []" "n \<noteq> 0" by auto
  show ?case
  proof (cases k)
    case None
    with "1.prems" sc nz have "lex (drop n s) = us @ (REGEXP, w) # ts" by (subst (asm) lex.simps) simp
    with "1.IH"(1) [OF refl sc [symmetric]] nz None show ?thesis by simp
  next
    case (Some j)
    with "1.prems" sc nz have e: "\<not> ends_input j" "(j, take n s) # lex (drop n s) = us @ (REGEXP, w) # ts"
      by (subst (asm) lex.simps; auto split: if_splits)+
    show ?thesis
    proof (cases us)
      case Nil
      with e(2) have j: "j = REGEXP" "w = take n s" "ts = lex (drop n s)" by simp_all
      from scan_regexp [OF nz(1)] sc Some j(1) obtain t where "regexp_text w" "drop n s = CHR ''{'' # t"
        unfolding j(2) by blast
      with j(3) lex_open show ?thesis by simp
    next
      case (Cons a us')
      with e(2) have "lex (drop n s) = us' @ (REGEXP, w) # ts" by simp
      with "1.IH"(2) [OF refl sc [symmetric]] nz Some e(1) show ?thesis by simp
    qed
  qed
qed

text \<open>What is known of a token: it was scanned from a text that it begins, so no earlier rule matches it.\<close>

lemma lex_token: "(k, w) \<in> set (lex s) \<Longrightarrow> w \<noteq> [] \<and> (\<exists>t. scan (w @ t) = (length w, Some k))"
proof (induction s rule: lex.induct)
  case (1 s)
  obtain n j where sc: "scan s = (n, j)" by (cases "scan s")
  have "lex s \<noteq> []" using "1.prems" by auto
  from lex_nonempty [OF this sc] have nz: "s \<noteq> []" "n \<noteq> 0" by auto
  from scan_longest [OF nz(1) sc] have n: "n \<le> length s" by blast
  show ?case
  proof (cases j)
    case None
    with "1.prems" sc nz have "(k, w) \<in> set (lex (drop n s))" by (subst (asm) lex.simps) simp
    with "1.IH"(1) [OF refl sc [symmetric]] nz None show ?thesis by simp
  next
    case (Some i)
    with "1.prems" sc nz have e: "\<not> ends_input i" "(k, w) \<in> set ((i, take n s) # lex (drop n s))"
      by (subst (asm) lex.simps; auto split: if_splits)+
    show ?thesis
    proof (cases "(k, w) = (i, take n s)")
      case True
      then have w: "k = i" "w = take n s" by simp_all
      from n nz have "length w = n" "w \<noteq> []" by (auto simp: w(2))
      moreover have "w @ drop n s = s" by (simp add: w(2))
      ultimately show ?thesis using sc Some w(1) by metis
    next
      case False
      with e(2) have "(k, w) \<in> set (lex (drop n s))" by auto
      with "1.IH"(2) [OF refl sc [symmetric]] nz Some e(1) show ?thesis by simp
    qed
  qed
qed

lemma lex_token_rule:
  assumes "(k, w) \<in> set (lex s)" "k \<noteq> REGEXP"
  shows "\<exists>xs q ys. rules = xs @ q # ys \<and> rule_kind q w = Some k \<and> rx_match (total_rx q) w \<and>
    (\<forall>p \<in> set xs. \<not> rx_match (total_rx p) w)"
proof -
  from lex_token [OF assms(1)] obtain t where w: "w @ t \<noteq> []" "scan (w @ t) = (length w, Some k)" by blast
  from scan_longest [OF w] obtain xs q ys m where q: "rules = xs @ q # ys" "matches q (w @ t) m"
    "\<forall>p \<in> set xs. \<not> matches p (w @ t) m" "length w = (if rule_brace q then m - 1 else m)"
    "Some k = rule_kind q (take (length w) (w @ t))" by blast
  have "list_all (\<lambda>r. rule_brace r \<longrightarrow> rule_kind r w = Some REGEXP) rules"
    by (simp add: rules_def pattern_rules_def token_rule_def list_all_iff)
  moreover have "q \<in> set rules" unfolding q(1) by simp
  ultimately have "\<not> rule_brace q" using q(5) assms(2) by (auto simp: list_all_iff)
  with q(4) have m: "m = length w" by simp
  with q have "rule_kind q w = Some k" "rx_match (total_rx q) w" "\<forall>p \<in> set xs. \<not> rx_match (total_rx p) w"
    by (auto simp: matches_def)
  with q(1) show ?thesis by blast
qed

definition address :: rx where
  "address = Seq (plus (Cls is_num)) (Seq (lit ''.'') (Seq (plus (Cls is_num)) (Seq (lit ''.'')
     (Seq (plus (Cls is_num)) (Seq (lit ''.'') (plus (Cls is_num)))))))"

lemma earlier_rule:
  assumes "(k, w) \<in> set (lex s)" "k \<noteq> REGEXP" "n < length rules"
    "list_all (\<lambda>r. rule_kind r w \<noteq> Some k) (take (n + 1) rules)"
  shows "\<not> rx_match (total_rx (rules ! n)) w"
proof -
  from lex_token_rule [OF assms(1,2)] obtain xs q ys where q: "rules = xs @ q # ys" "rule_kind q w = Some k"
    "\<forall>p \<in> set xs. \<not> rx_match (total_rx p) w" by blast
  have k: "rule_kind (rules ! length xs) w = Some k" unfolding q(1) using q(2) by simp
  have "rules ! length xs \<in> set (take (n + 1) rules)" if "length xs \<le> n"
  proof -
    have "length xs < length (take (n + 1) rules)" unfolding q(1) using that by simp
    moreover have "take (n + 1) rules ! length xs = rules ! length xs" using that by simp
    ultimately show ?thesis by (metis nth_mem)
  qed
  with k assms(4) have "n < length xs" by (fastforce simp: list_all_iff not_less)
  then have "rules ! n \<in> set xs" unfolding q(1) by (simp add: nth_append)
  with q(3) show ?thesis by blast
qed

abbreviation "first_pattern \<equiv> length fixed_words"

lemma nth_pattern: "rules ! (first_pattern + i) = pattern_rules ! i"
  by (simp add: rules_def nth_append)

lemma length_patterns: "length pattern_rules = 20" "length rules = first_pattern + 20"
  by (simp_all add: rules_def pattern_rules_def)

lemma address_token:
  assumes "(k, w) \<in> set (lex s)" "rx_match address w"
  shows "k \<notin> {NAME, PREFIXNAME, SUFFIXNAME, NUMBER, PATH}"
proof
  assume k: "k \<in> {NAME, PREFIXNAME, SUFFIXNAME, NUMBER, PATH}"
  have "\<not> rx_match (total_rx (rules ! (first_pattern + 2))) w"
    by (rule earlier_rule [OF assms(1)])
      (use k in \<open>auto simp: length_patterns rules_def pattern_rules_def token_rule_def list_all_iff\<close>)
  with assms(2) show False unfolding nth_pattern by (simp add: pattern_rules_def total_token address_def)
qed

text \<open>The texts of each type of token.\<close>

definition token_ok :: "token \<Rightarrow> bool" where
  "token_ok t = (case t of (k, w) \<Rightarrow>
     (case k of
        Kw v \<Rightarrow> w = v \<and> v \<in> set fixed_words
      | NUMBER \<Rightarrow> w \<noteq> [] \<and> list_all is_num w
      | PORT \<Rightarrow> (\<exists>n. w = CHR '':'' # n \<and> n \<noteq> [] \<and> list_all is_num n)
      | UNITS \<Rightarrow> (\<exists>n u. w = n @ [u] \<and> n \<noteq> [] \<and> list_all is_num n \<and> u \<in> set ''kmgshd'')
      | IP \<Rightarrow> rx_match address w
      | NAME \<Rightarrow> w \<noteq> [] \<and> list_all name_char w \<and> w \<notin> set fixed_words \<and> \<not> list_all is_num w
      | PATH \<Rightarrow> list_all (\<lambda>c. name_char c \<or> c = CHR ''/'') w \<and> CHR ''/'' \<in> set w
      | VARIABLE \<Rightarrow> prefix ''$'' w
      | DUBVAR \<Rightarrow> prefix ''$'' w
      | PREFIXNAME \<Rightarrow> (\<exists>n. w = ''*.'' @ n \<and> n \<noteq> [] \<and> list_all name_char n)
      | SUFFIXNAME \<Rightarrow> (\<exists>n. w = n @ ''.*'' \<and> n \<noteq> [] \<and> list_all name_char n)
      | QUOTEDSTRING \<Rightarrow> in_quotes (CHR 0x27) (butlast (tl w)) w
      | DQUOTEDSTRING \<Rightarrow> in_quotes (CHR 0x22) (butlast (tl w)) w
      | REGEXP \<Rightarrow> regexp_text w
      | EQUAL_OPERATOR \<Rightarrow> w = ''=''
      | WILDCARD \<Rightarrow> w = ''*''
      | BUILTIN \<Rightarrow> prefix ''builtin:'' w
      | SHARED \<Rightarrow> prefix ''shared:'' w
      | CH c \<Rightarrow> w = [c] \<and> c \<noteq> LF))"

lemma quoted_match: "rx_match (quoted q) w \<longleftrightarrow> in_quotes q (butlast (tl w)) w"
proof
  assume "rx_match (quoted q) w"
  then obtain y where "w = q # y @ [q]" "list_all (\<lambda>c. c \<noteq> q \<and> c \<noteq> CHR '';'') y"
    by (auto simp: quoted_def chars_def seq_class rx_match_Seq star_class)
  then show "in_quotes q (butlast (tl w)) w" by (simp add: in_quotes_def)
next
  assume "in_quotes q (butlast (tl w)) w"
  then obtain y where "w = q # y @ [q]" "list_all (\<lambda>c. c \<noteq> q \<and> c \<noteq> CHR '';'') y"
    unfolding in_quotes_def by blast
  then show "rx_match (quoted q) w"
    unfolding quoted_def chars_def seq_class rx_match_Seq using star_class [of _ y]
    by (intro exI [of _ q] exI [of _ "y @ [q]"] conjI exI [of _ y] exI [of _ "[q]"]) simp_all
qed

lemma name_not_word:
  assumes "(NAME, w) \<in> set (lex s)" shows "w \<notin> set fixed_words" "\<not> (w \<noteq> [] \<and> list_all is_num w)"
proof -
  have before: "list_all (\<lambda>r. rule_kind r w \<noteq> Some NAME) (take (first_pattern + 10) rules)"
    by (auto simp: rules_def pattern_rules_def token_rule_def list_all_iff)
  have r: "\<not> rx_match (total_rx (rules ! i)) w" if "i < first_pattern + 10" for i
  proof (rule earlier_rule [OF assms])
    have "set (take (i + 1) rules) \<subseteq> set (take (first_pattern + 10) rules)"
      by (rule set_take_subset_set_take) (use that in simp)
    with before show "list_all (\<lambda>r. rule_kind r w \<noteq> Some NAME) (take (i + 1) rules)"
      unfolding list_all_iff by blast
  qed (use that in \<open>simp_all add: length_patterns\<close>)
  show "w \<notin> set fixed_words"
  proof
    assume "w \<in> set fixed_words"
    then obtain i where i: "i < first_pattern" "fixed_words ! i = w" by (auto simp: in_set_conv_nth)
    then have "rules ! i = token_rule (Kw w) (lit w)" by (simp add: rules_def nth_append)
    with r [of i] i(1) show False by (simp add: total_token)
  qed
  show "\<not> (w \<noteq> [] \<and> list_all is_num w)"
    using r [of "first_pattern + 5"] unfolding nth_pattern by (simp add: pattern_rules_def total_token plus_class)
qed

lemma path_not_name:
  assumes "(PATH, w) \<in> set (lex s)" shows "\<not> (w \<noteq> [] \<and> list_all name_char w)"
proof -
  have "\<not> rx_match (total_rx (rules ! (first_pattern + 10))) w"
    by (rule earlier_rule [OF assms])
      (auto simp: length_patterns rules_def pattern_rules_def token_rule_def list_all_iff)
  then show ?thesis unfolding nth_pattern by (simp add: pattern_rules_def total_token plus_class)
qed

lemma pattern_token:
  assumes "q \<in> set pattern_rules" "rule_kind q w = Some k" "rx_match (total_rx q) w" "k \<noteq> REGEXP"
  shows "k = NAME \<and> list_all name_char w \<or> k = PATH \<and> list_all (\<lambda>c. name_char c \<or> c = CHR ''/'') w \<or>
    k \<notin> {NAME, PATH} \<and> token_ok (k, w)"
proof -
  have "list_all (\<lambda>q. \<forall>k. rule_kind q w = Some k \<longrightarrow> rx_match (total_rx q) w \<longrightarrow> k \<noteq> REGEXP \<longrightarrow>
      k = NAME \<and> list_all name_char w \<or> k = PATH \<and> list_all (\<lambda>c. name_char c \<or> c = CHR ''/'') w \<or>
      k \<notin> {NAME, PATH} \<and> token_ok (k, w)) pattern_rules"
    unfolding pattern_rules_def list.pred_inject total_token
    by (intro conjI allI impI) (auto simp: token_rule_def total_rx_def token_ok_def seq_lit plus_class
        quoted_match prefix_def chars_def any_char_def address_def seq_plus)
  with assms show ?thesis unfolding list_all_iff by blast
qed

lemma lex_token_ok:
  assumes "t \<in> set (lex s)" shows "token_ok t"
proof -
  obtain k w where t: "t = (k, w)" by (cases t)
  with assms have l: "(k, w) \<in> set (lex s)" by simp
  show ?thesis
  proof (cases "k = REGEXP")
    case True
    with l obtain us ts where "lex s = us @ (REGEXP, w) # ts" by (metis split_list)
    with lex_regexp True t show ?thesis by (simp add: token_ok_def)
  next
    case False
    from lex_token_rule [OF l False] obtain xs q ys where q: "rules = xs @ q # ys" "rule_kind q w = Some k"
      "rx_match (total_rx q) w" by blast
    have "q \<in> set rules" unfolding q(1) by simp
    then show ?thesis
    proof (cases rule: rules_cases)
      case (1 v)
      with q(2,3) have "k = Kw v" "w = v" by (simp_all add: total_token) (simp add: token_rule_def)
      with 1 show ?thesis by (simp add: t token_ok_def)
    next
      case 2
      from lex_token [OF l] have "w \<noteq> []" by blast
      then have "token_ok (k, w)"
        using pattern_token [OF 2 q(2,3) False] name_not_word [of w s] path_not_name [of w s] l
        by (elim disjE conjE) (simp_all add: token_ok_def, auto simp: list_all_iff)
      with t show ?thesis by simp
    qed
  qed
qed

section \<open>The scanner\<close>



text \<open>C31: Every token has the form of its type: a keyword is spelled as its rule says, a name is not a keyword
  and not a number, a path has a slash, a number and a port are decimal digits, a quoted string has its
  quotes and no semicolon, an expression its operator.\<close>

theorem tokens_typed: "list_all token_ok (lex s)"
  unfolding list_all_iff using lex_token_ok by blast

end
