(* ===== verification/OG_Parser.thy ===== *)
theory OG_Parser
  imports OG_Grammar OG_Lexer "HOL-Library.Sublist"
begin

text \<open>
  The grammar \<^verbatim>\<open>og_ws.y\<close>: its productions as tables from token types to directives, and the
  parser for them, which needs one token of lookahead as the generated one does. The result is the
  configuration whose actions \<open>OG_Grammar\<close> runs.
\<close>

section \<open>Parsing with tables\<close>

type_synonym 'a parser = "token list \<Rightarrow> ('a \<times> token list) option"

text \<open>A sequence of token types; the result is the texts.\<close>

definition p_seq :: "kind list \<Rightarrow> string list parser" where
  "p_seq ks ts =
     (if map fst (take (length ks) ts) = ks
      then Some (map snd (take (length ks) ts), drop (length ks) ts) else None)"

lemma p_seq_code [code]:
  "p_seq [] ts = Some ([], ts)"
  "p_seq (k # ks) [] = None"
  "p_seq (k # ks) (t # ts) =
     (if fst t = k then map_option (\<lambda>(s, r). (snd t # s, r)) (p_seq ks ts) else None)"
  by (auto simp: p_seq_def)

text \<open>The alternatives of a nonterminal, and a repeated one.\<close>

fun p_first :: "(kind list \<times> (string list \<Rightarrow> 'a)) list \<Rightarrow> 'a parser" where
  "p_first [] ts = None"
| "p_first ((ks, f) # rs) ts =
     (case p_seq ks ts of Some (s, r) \<Rightarrow> Some (f s, r) | None \<Rightarrow> p_first rs ts)"

definition p_alt :: "'a parser \<Rightarrow> 'a parser \<Rightarrow> 'a parser" where
  "p_alt p q ts = (case p ts of None \<Rightarrow> q ts | r \<Rightarrow> r)"

function p_items :: "'a parser \<Rightarrow> token list \<Rightarrow> 'a list \<times> token list" where
  "p_items p ts =
     (case p ts of
        None \<Rightarrow> ([], ts)
      | Some (x, r) \<Rightarrow>
          if length r < length ts then (case p_items p r of (xs, r') \<Rightarrow> (x # xs, r')) else ([], ts))"
  by pat_completeness auto

termination by (relation "measure (\<lambda>(p, ts). length ts)") auto

declare p_items.simps [simp del]

text \<open>A header, items, and a closing token. The flag says that there must be an item.\<close>

definition p_group ::
  "kind list \<Rightarrow> 'a parser \<Rightarrow> kind \<Rightarrow> bool \<Rightarrow> (string list \<Rightarrow> 'a list \<Rightarrow> 'b) \<Rightarrow> 'b parser" where
  "p_group ks p close nonempty f ts =
     (case p_seq ks ts of
        None \<Rightarrow> None
      | Some (s, r) \<Rightarrow>
          (case p_items p r of
             (xs, r1) \<Rightarrow>
               if nonempty \<and> xs = [] then None
               else (case p_seq [close] r1 of None \<Rightarrow> None | Some (_, r2) \<Rightarrow> Some (f s xs, r2))))"

section \<open>The productions\<close>

abbreviation "EOL \<equiv> Kw '';''"
abbreviation "OPEN \<equiv> CH (CHR ''{'')"
abbreviation "CLOSE \<equiv> CH (CHR ''}'')"

text \<open>The values that the scanner stores for the token types \<open>NUMBER\<close> and \<open>PORT\<close>.\<close>

definition number_value :: "string \<Rightarrow> int" where
  "number_value t = atoi t"

definition port_value :: "string \<Rightarrow> int" where
  "port_value t = atoi (tl t)"

definition fcgi_rules :: "(kind list \<times> (string list \<Rightarrow> fcgi_directive)) list" where
  "fcgi_rules = (let w = Kw ''fastcgi_param'' in
     [([w, NAME, DUBVAR, EOL], \<lambda>s. FP_param (s ! 1) (s ! 2) None),
      ([w, NAME, PATH, EOL], \<lambda>s. FP_param (s ! 1) (s ! 2) None),
      ([w, NAME, NUMBER, EOL], \<lambda>s. FP_num (s ! 1) (number_value (s ! 2))),
      ([w, NAME, VARIABLE, EOL], \<lambda>s. FP_param (s ! 1) (s ! 2) None),
      ([w, NAME, VARIABLE, VARIABLE, EOL], \<lambda>s. FP_param (s ! 1) (s ! 2) (Some (s ! 3))),
      ([w, NAME, PATH, VARIABLE, EOL], \<lambda>s. FP_param (s ! 1) (s ! 2) (Some (s ! 3))),
      ([w, NAME, VARIABLE, NAME, EOL], \<lambda>s. FP_param (s ! 1) (s ! 2) None)])"

definition proxy_rules :: "string \<times> string \<Rightarrow> (kind list \<times> (string list \<Rightarrow> location_directive)) list" where
  "proxy_rules pr = (case pr of (w, proto) \<Rightarrow>
     [([Kw ''proxy_pass'', Kw w, NAME, PORT, EOL], \<lambda>s. L_proxy_pass proto (s ! 2) (port_value (s ! 3))),
      ([Kw ''proxy_pass'', Kw w, IP, PORT, EOL], \<lambda>s. L_proxy_pass proto (s ! 2) (port_value (s ! 3))),
      ([Kw ''proxy_pass'', Kw w, NAME, EOL], \<lambda>s. L_proxy_pass proto (s ! 2) 0),
      ([Kw ''proxy_pass'', Kw w, IP, EOL], \<lambda>s. L_proxy_pass proto (s ! 2) 0)])"

definition location_rules :: "(kind list \<times> (string list \<Rightarrow> location_directive)) list" where
  "location_rules =
     [([Kw ''root'', PATH, EOL], \<lambda>s. L_root (s ! 1)),
      ([Kw ''root'', NAME, EOL], \<lambda>s. L_root (s ! 1))] @
     concat (map proxy_rules [(''http://'', ''http''), (''https://'', ''https''), (''http2://'', ''http2'')]) @
     [([Kw ''fastcgi_pass'', NAME, PORT, EOL], \<lambda>s. L_fastcgi_pass (s ! 1) (port_value (s ! 2))),
      ([Kw ''fastcgi_pass'', IP, PORT, EOL], \<lambda>s. L_fastcgi_pass (s ! 1) (port_value (s ! 2))),
      ([Kw ''fastcgi_pass'', NAME, EOL], \<lambda>s. L_fastcgi_pass (s ! 1) 0),
      ([Kw ''fastcgi_pass'', IP, EOL], \<lambda>s. L_fastcgi_pass (s ! 1) 0),
      ([Kw ''fastcgi_split_path_info'', REGEXP, EOL], \<lambda>s. L_fastcgi_split_path_info (s ! 1)),
      ([Kw ''fastcgi_index'', NAME, EOL], \<lambda>s. L_fastcgi_index (s ! 1)),
      ([Kw ''expires'', UNITS, EOL], \<lambda>s. L_expires (s ! 1)),
      ([Kw ''expires'', Kw ''off'', EOL], \<lambda>s. L_expires_off),
      ([Kw ''default_type'', PATH, EOL], \<lambda>s. L_default_type (s ! 1))] @
     map (\<lambda>(ks, f). (ks, \<lambda>s. L_fastcgi_param (f s))) fcgi_rules"

definition try_rules :: "(kind list \<times> (string list \<Rightarrow> string)) list" where
  "try_rules = [([PATH], hd), ([NAME], hd), ([VARIABLE], hd)]"

definition name_rules :: "(kind list \<times> (string list \<Rightarrow> string)) list" where
  "name_rules = [([NAME], hd)]"

definition string_rules :: "(kind list \<times> (string list \<Rightarrow> string)) list" where
  "string_rules = [([QUOTEDSTRING], hd)]"

definition p_location_directive :: "location_directive parser" where
  "p_location_directive =
     p_alt (p_first location_rules)
       (p_group [Kw ''try_files''] (p_first try_rules) EOL True
          (\<lambda>_. L_try_files))"

text \<open>A name with a port is taken as the pair.\<close>

definition listen_rules :: "(kind list \<times> (string list \<Rightarrow> listen_option)) list" where
  "listen_rules =
     [([IP, PORT], \<lambda>s. O_name_port (s ! 0) (port_value (s ! 1))),
      ([NAME, PORT], \<lambda>s. O_name_port (s ! 0) (port_value (s ! 1))),
      ([WILDCARD, PORT], \<lambda>s. O_wildcard_port (port_value (s ! 1))),
      ([NUMBER], \<lambda>s. O_port (number_value (s ! 0))),
      ([NAME], \<lambda>s. O_name (s ! 0)),
      ([WILDCARD], \<lambda>s. O_wildcard),
      ([Kw ''default_server''], \<lambda>s. O_default_server),
      ([Kw ''ssl''], \<lambda>s. O_ssl),
      ([Kw ''http2''], \<lambda>s. O_http2),
      ([Kw ''reuseport''], \<lambda>s. O_reuseport)]"

definition ssl_rules :: "(kind list \<times> (string list \<Rightarrow> ssl_directive)) list" where
  "ssl_rules =
     [([Kw ''ssl_certificate'', PATH, EOL], \<lambda>s. Ssl_certificate (s ! 1)),
      ([Kw ''ssl_certificate_key'', PATH, EOL], \<lambda>s. Ssl_certificate_key (s ! 1)),
      ([Kw ''ssl_session_timeout'', UNITS, EOL], \<lambda>s. Ssl_session_timeout (s ! 1)),
      ([Kw ''ssl_session_timeout'', NUMBER, EOL], \<lambda>s. Ssl_session_timeout_num (number_value (s ! 1))),
      ([Kw ''ssl_session_cache'', NAME, EOL], \<lambda>s. Ssl_session_cache_off (s ! 1)),
      ([Kw ''ssl_session_cache'', Kw ''off'', EOL], \<lambda>s. Ssl_session_cache_off ''off''),
      ([Kw ''ssl_session_cache'', NAME, PORT, EOL], \<lambda>s. Ssl_session_cache (s ! 1) None),
      ([Kw ''ssl_session_cache'', BUILTIN, EOL], \<lambda>s. Ssl_session_cache (s ! 1) None),
      ([Kw ''ssl_session_cache'', SHARED, EOL], \<lambda>s. Ssl_session_cache (s ! 1) None),
      ([Kw ''ssl_session_cache'', BUILTIN, SHARED, EOL], \<lambda>s. Ssl_session_cache (s ! 1) (Some (s ! 2))),
      ([Kw ''ssl_session_tickets'', Kw ''on'', EOL], \<lambda>s. Ssl_session_tickets True),
      ([Kw ''ssl_session_tickets'', Kw ''off'', EOL], \<lambda>s. Ssl_session_tickets False),
      ([Kw ''ssl_prefer_server_ciphers'', Kw ''on'', EOL], \<lambda>s. Ssl_prefer_server_ciphers True),
      ([Kw ''ssl_prefer_server_ciphers'', Kw ''off'', EOL], \<lambda>s. Ssl_prefer_server_ciphers False),
      ([Kw ''ssl_dhparam'', PATH, EOL], \<lambda>s. Ssl_dhparam (s ! 1)),
      ([Kw ''ssl_ciphers'', DQUOTEDSTRING, EOL], \<lambda>s. Ssl_ciphers (s ! 1))]"

definition p_ssl :: "ssl_directive parser" where
  "p_ssl = p_alt (p_first ssl_rules)
     (p_group [Kw ''ssl_protocols''] (p_first name_rules) EOL True (\<lambda>_. Ssl_protocols))"

text \<open>The directives that the sections share.\<close>

definition flag_rules :: "string \<Rightarrow> (bool \<Rightarrow> 'a) \<Rightarrow> (kind list \<times> (string list \<Rightarrow> 'a)) list" where
  "flag_rules w f = [([Kw w, Kw ''on'', EOL], \<lambda>s. f True), ([Kw w, Kw ''off'', EOL], \<lambda>s. f False)]"

definition log_rules :: "(string \<Rightarrow> int \<Rightarrow> 'a) \<Rightarrow> (string \<Rightarrow> 'a) \<Rightarrow> (kind list \<times> (string list \<Rightarrow> 'a)) list" where
  "log_rules acc err =
     [([Kw ''access_log'', PATH, EOL], \<lambda>s. acc (s ! 1) 0),
      ([Kw ''access_log'', PATH, Kw ''main'', EOL], \<lambda>s. acc (s ! 1) 1),
      ([Kw ''error_log'', PATH, EOL], \<lambda>s. err (s ! 1))]"

definition p_index :: "(string list \<Rightarrow> 'a) \<Rightarrow> 'a parser" where
  "p_index f = p_group [Kw ''index''] (p_first name_rules) EOL True (\<lambda>_. f)"

definition p_map :: "('a \<Rightarrow> 'b) \<Rightarrow> 'a parser \<Rightarrow> 'b parser" where
  "p_map f p ts = map_option (\<lambda>(x, r). (f x, r)) (p ts)"

definition server_rules :: "(kind list \<times> (string list \<Rightarrow> server_directive)) list" where
  "server_rules =
     flag_rules ''server_tokens'' S_server_tokens @ log_rules S_access_log S_error_log @
     [([Kw ''root'', PATH, EOL], \<lambda>s. S_root (s ! 1)), ([Kw ''root'', NAME, EOL], \<lambda>s. S_root (s ! 1))] @
     flag_rules ''autoindex'' S_autoindex @
     [([Kw ''default_type'', PATH, EOL], \<lambda>s. S_default_type (s ! 1))] @
     map (\<lambda>(ks, f). (ks, \<lambda>s. S_fastcgi_param (f s))) fcgi_rules"

definition p_location :: "server_directive parser" where
  "p_location =
     p_alt (p_group [Kw ''location'', EQUAL_OPERATOR, PATH, OPEN] p_location_directive CLOSE True
              (\<lambda>s. S_location EQUAL_MATCH (s ! 2)))
    (p_alt (p_group [Kw ''location'', REGEXP, OPEN] p_location_directive CLOSE True
              (\<lambda>s. S_location REGEX_MATCH (s ! 1)))
           (p_group [Kw ''location'', PATH, OPEN] p_location_directive CLOSE True
              (\<lambda>s. S_location PREFIX_MATCH (s ! 1))))"

definition server_name_rules :: "(kind list \<times> (string list \<Rightarrow> string \<times> int)) list" where
  "server_name_rules =
     [([PREFIXNAME], \<lambda>s. (s ! 0, SERVER_NAME_WILDCARD_PREFIX)),
      ([SUFFIXNAME], \<lambda>s. (s ! 0, SERVER_NAME_WILDCARD_SUFFIX)),
      ([NAME], \<lambda>s. (s ! 0, SERVER_NAME_EXACT))]"

definition p_server_directive :: "server_directive parser" where
  "p_server_directive =
     p_alt (p_first server_rules)
    (p_alt (p_group [Kw ''server_name''] (p_first server_name_rules) EOL True (\<lambda>_. S_server_name))
    (p_alt p_location
    (p_alt (p_group [Kw ''listen''] (p_first listen_rules) EOL True (\<lambda>_. S_listen))
    (p_alt (p_map S_ssl p_ssl) (p_index S_index)))))"

definition upstream_rules :: "(kind list \<times> (string list \<Rightarrow> upstream_entry)) list" where
  "upstream_rules = concat (map (\<lambda>h.
     [([Kw ''server'', h, PORT, Kw ''weight'', EQUAL_OPERATOR, NUMBER, EOL],
         \<lambda>s. Upstream_entry (s ! 1) (Some (port_value (s ! 2))) (Weight (number_value (s ! 5)))),
      ([Kw ''server'', h, Kw ''weight'', EQUAL_OPERATOR, NUMBER, EOL],
         \<lambda>s. Upstream_entry (s ! 1) None (Weight (number_value (s ! 4)))),
      ([Kw ''server'', h, PORT, EOL], \<lambda>s. Upstream_entry (s ! 1) (Some (port_value (s ! 2))) No_weight),
      ([Kw ''server'', h, EOL], \<lambda>s. Upstream_entry (s ! 1) None No_weight),
      ([Kw ''server'', h, PORT, Kw ''backup'', EOL],
         \<lambda>s. Upstream_entry (s ! 1) (Some (port_value (s ! 2))) Backup),
      ([Kw ''server'', h, Kw ''backup'', EOL], \<lambda>s. Upstream_entry (s ! 1) None Backup)])
     [IP, NAME])"

definition http_rules :: "(kind list \<times> (string list \<Rightarrow> http_directive)) list" where
  "http_rules =
     [([Kw ''include'', PATH, EOL], \<lambda>s. H_include (s ! 1)),
      ([Kw ''default_type'', PATH, EOL], \<lambda>s. H_default_type (s ! 1))] @
     log_rules H_access_log H_error_log @
     flag_rules ''sendfile'' H_sendfile @ flag_rules ''tcp_nopush'' H_tcp_nopush @
     [([Kw ''keepalive_timeout'', NUMBER, EOL], \<lambda>s. H_keepalive (number_value (s ! 1))),
      ([Kw ''server_names_hash_bucket_size'', NUMBER, EOL], \<lambda>s. H_hash_bucket_size (number_value (s ! 1)))] @
     map (\<lambda>(ks, f). (ks, \<lambda>s. H_fastcgi_param (f s))) fcgi_rules"

definition p_http_directive :: "http_directive parser" where
  "p_http_directive =
     p_alt (p_first http_rules)
    (p_alt (p_index H_index)
    (p_alt (p_group [Kw ''log_format'', Kw ''main''] (p_first string_rules) EOL True (\<lambda>_ _. H_log_format))
    (p_alt (p_group [Kw ''log_format''] (p_first string_rules) EOL True (\<lambda>_ _. H_log_format))
    (p_alt (p_group [Kw ''server'', OPEN] p_server_directive CLOSE False (\<lambda>_. H_server))
    (p_alt (p_group [Kw ''upstream'', NAME, OPEN] (p_first upstream_rules) CLOSE True (\<lambda>s. H_upstream (s ! 1)))
           (p_map H_ssl p_ssl))))))"

definition main_rules :: "(kind list \<times> (string list \<Rightarrow> main_directive)) list" where
  "main_rules =
     [([Kw ''user'', NAME, NAME, EOL], \<lambda>s. M_user (s ! 1) (Some (s ! 2))),
      ([Kw ''user'', NAME, EOL], \<lambda>s. M_user (s ! 1) None),
      ([Kw ''pid'', PATH, EOL], \<lambda>s. M_pid (s ! 1)),
      ([Kw ''include'', PATH, EOL], \<lambda>s. M_include (s ! 1)),
      ([Kw ''worker_processes'', NUMBER, EOL], \<lambda>s. M_worker_processes (number_value (s ! 1))),
      ([Kw ''worker_rlimit_nofile'', NUMBER, EOL], \<lambda>s. M_worker_rlimit_nofile (number_value (s ! 1)))] @
     flag_rules ''trace'' M_trace @ log_rules M_access_log M_error_log"

definition events_rules :: "(kind list \<times> (string list \<Rightarrow> int)) list" where
  "events_rules = [([Kw ''worker_connections'', NUMBER, EOL], \<lambda>s. number_value (s ! 1))]"

definition p_events :: "int list parser" where
  "p_events =
     p_group [Kw ''events'', OPEN] (p_first events_rules) CLOSE False (\<lambda>_ xs. xs)"

definition p_http :: "http_directive list parser" where
  "p_http = p_group [Kw ''http'', OPEN] p_http_directive CLOSE True (\<lambda>_ xs. xs)"

definition parse_config :: "token list \<Rightarrow> config option" where
  "parse_config ts =
     (case p_items (p_first main_rules) ts of
        (ms, r) \<Rightarrow>
          (case p_events r of
             None \<Rightarrow> None
           | Some (es, r1) \<Rightarrow>
               (case p_http r1 of
                  None \<Rightarrow> None
                | Some (hs, r2) \<Rightarrow>
                    if r2 = [] then Some \<lparr>cfg_main = ms, cfg_events = es, cfg_http = hs\<rparr> else None)))"

definition parse_text :: "string \<Rightarrow> config option" where
  "parse_text t = parse_config (lex t)"

end
