(* ===== verification/OG_SyntaxError.thy ===== *)
theory OG_SyntaxError
  imports OG_Parser
begin

text \<open>
  What runs before a syntax error. The generated parser runs the action of a production when its
  right-hand side is complete, so a text that is not accepted has run the actions of the directives
  before the error, also those in blocks that are still open, before \<open>yyparse\<close> returns 1. Actions that
  neither stop nor touch what later ones stop at (\<open>f_protocol\<close>) are left out.
\<close>

section \<open>The actions before the error\<close>

type_synonym partial_run = "token list \<Rightarrow> pstate \<Rightarrow> pstate res"

definition nothing_open :: partial_run where
  "nothing_open ts s = Inr s"

text \<open>A group that is not complete: its items have run, then those of the item that is open.\<close>

definition open_group ::
  "kind list \<Rightarrow> 'a parser \<Rightarrow> ('a \<Rightarrow> pstate \<Rightarrow> pstate res) \<Rightarrow> partial_run \<Rightarrow> partial_run" where
  "open_group ks p act item ts s =
     (case p_seq ks ts of
        None \<Rightarrow> Inr s
      | Some (_, r) \<Rightarrow> (case p_items p r of (xs, r1) \<Rightarrow> bind_res (run_res act xs s) (item r1)))"

definition open_either :: "partial_run \<Rightarrow> partial_run \<Rightarrow> partial_run" where
  "open_either f g ts s = bind_res (f ts s) (g ts)"

definition open_location_directive :: partial_run where
  "open_location_directive =
     open_group [Kw ''try_files''] (p_first try_rules) (\<lambda>t s. Inr (f_try_target t s)) nothing_open"

definition open_location :: "resolver \<Rightarrow> partial_run" where
  "open_location dns =
     (let body = (\<lambda>ks. open_group ks p_location_directive (exec_location_directive dns) open_location_directive) in
      open_either (body [Kw ''location'', EQUAL_OPERATOR, PATH, OPEN])
     (open_either (body [Kw ''location'', REGEXP, OPEN]) (body [Kw ''location'', PATH, OPEN])))"

definition open_index_directive :: partial_run where
  "open_index_directive = open_group [Kw ''index''] (p_first name_rules) (\<lambda>f s. Inr (f_indexFile f s)) nothing_open"

definition open_server_directive :: "resolver \<Rightarrow> partial_run" where
  "open_server_directive dns =
     open_either (open_group [Kw ''server_name''] (p_first server_name_rules)
        (\<lambda>(n, t). f_server_name (Heap n) t) nothing_open)
    (open_either (open_location dns)
    (open_either (open_group [Kw ''listen''] (p_first listen_rules) exec_listen_option nothing_open) open_index_directive))"

definition open_http_directive :: "resolver \<Rightarrow> partial_run" where
  "open_http_directive dns =
     open_either open_index_directive
    (open_either (open_group [Kw ''server'', OPEN] p_server_directive (exec_server_directive dns)
        (open_server_directive dns))
    (open_group [Kw ''upstream'', NAME, OPEN] (p_first upstream_rules) (\<lambda>u s. Inr (exec_upstream u s)) nothing_open))"

definition open_config :: "resolver \<Rightarrow> partial_run" where
  "open_config dns ts s =
     (case p_items (p_first main_rules) ts of
        (ms, r) \<Rightarrow>
          bind_res (run_res exec_main_directive ms s) (\<lambda>s1.
            case p_events r of
              None \<Rightarrow>
                open_group [Kw ''events'', OPEN] (p_first events_rules) (\<lambda>n s. Inr (f_workerConnections n s))
                  nothing_open r s1
            | Some (es, r1) \<Rightarrow>
                (let s2 = fold f_workerConnections es s1 in
                 case p_http r1 of
                   None \<Rightarrow>
                     open_group [Kw ''http'', OPEN] p_http_directive (exec_http_directive dns)
                       (open_http_directive dns) r1 s2
                 | Some (hs, _) \<Rightarrow>
                     bind_res (run_res (exec_http_directive dns) hs s2) (\<lambda>s3. Inr (f_http s3)))))"

definition parse_result :: "string \<Rightarrow> parsing" where
  "parse_result t =
     (case parse_text t of
        Some c \<Rightarrow> Parsed c
      | None \<Rightarrow> Syntax_error (\<lambda>dns. open_config dns (lex t)))"

end
