(* ===== verification/OG_Main.thy ===== *)
theory OG_Main
  imports OG_TLS OG_SyntaxError
begin

text \<open>
  \<open>main\<close> of \<^verbatim>\<open>ogws.c\<close>: the command line, the expansion and the check of the
  configuration, the early exits, the mime types, the daemon and the processes.
\<close>

section \<open>The program\<close>

text \<open>
  What the run finds: which files are readable (\<open>access\<close>), the text of each file, whether the temporary
  file can be created, the system as \<open>parseConfig\<close> and \<open>daemonize\<close> see it, and the results of the forks.
\<close>

record main_env =
  me_readable :: "string \<Rightarrow> bool"
  me_files :: "string \<Rightarrow> string option"
  me_tmp :: bool
  me_cfg :: config_env
  me_daemon :: daemon_env
  me_forks :: "bool list"

text \<open>From the check of the configuration on: \<open>Inl (Exit 0)\<close> is the end of the runs that only show the
  version, send a signal or test the configuration.\<close>

definition main_run :: "main_env \<Rightarrow> gstate \<Rightarrow> proc_action list \<times> (proc list \<times> gstate) res" where
  "main_run me g =
     (if isShowVersion g then ([], Inl (Exit 0))
      else case getSignalName g of
        Some sn \<Rightarrow>
          (case sendSignal (me_files me) sn g of
             (as, Inl e) \<Rightarrow> (as, Inl e) | (as, Inr _) \<Rightarrow> (as, Inl (Exit 0)))
      | None \<Rightarrow>
          if isTestConfig g then ([], Inl (Exit 0))
          else (case parseMimeTypes (me_files me) g of
              Inl e \<Rightarrow> ([], Inl e)
            | Inr g1 \<Rightarrow>
                (case daemonize (me_daemon me) g1 of
                   (as, Inl e) \<Rightarrow> (as, Inl e)
                 | (as, Inr _) \<Rightarrow> (as, map_sum id (\<lambda>rs. (rs, g1)) (startProcesses (me_forks me) g1)))))"

text \<open>\<open>n\<close> bounds the depth of nested includes; \<open>None\<close> if that is not enough.\<close>

definition main ::
  "nat \<Rightarrow> main_env \<Rightarrow> (char \<times> string) list \<Rightarrow> string list \<Rightarrow>
   (proc_action list \<times> (proc list \<times> gstate) res) option" where
  "main n me opts operands =
     (case parseArgs (me_readable me) opts operands initial_state of
        Inl e \<Rightarrow> Some ([], Inl e)
      | Inr g1 \<Rightarrow>
          (case expandIncludeFiles n (me_files me) (me_tmp me) g1 of
             None \<Rightarrow> None
           | Some (Inl e) \<Rightarrow> Some ([], Inl e)
           | Some (Inr t) \<Rightarrow>
               (case parseConfig (me_cfg me) (parse_result t) g1 of
                  Inl e \<Rightarrow> Some ([], Inl e)
                | Inr g2 \<Rightarrow> Some (main_run me g2))))"

section \<open>The parts of a run that starts processes\<close>

lemma main_run_parts:
  assumes "main_run me g2 = (as, Inr (rs, g))"
  obtains "\<not> g_showVersion g2" "g_signalName g2 = None" "\<not> g_testConfig g2"
    "parseMimeTypes (me_files me) g2 = Inr g" "daemonize (me_daemon me) g = (as, Inr ())"
    "startProcesses (me_forks me) g = Inr rs"
proof -
  from assms have a: "\<not> g_showVersion g2" "g_signalName g2 = None" "\<not> g_testConfig g2"
    by (auto simp: main_run_def split: if_splits option.splits prod.splits sum.splits)
  with assms obtain g1 where g1: "parseMimeTypes (me_files me) g2 = Inr g1"
    by (cases "parseMimeTypes (me_files me) g2") (simp_all add: main_run_def)
  obtain bs r where d: "daemonize (me_daemon me) g1 = (bs, r)" by (rule prod.exhaust)
  with assms a g1 have "r = Inr ()" by (cases r) (simp_all add: main_run_def)
  moreover from this assms a g1 d have "bs = as" "g1 = g" "startProcesses (me_forks me) g1 = Inr rs"
    by (cases "startProcesses (me_forks me) g1"; simp add: main_run_def)+
  ultimately show ?thesis using that a g1 d by simp
qed

lemma main_parts:
  assumes "main n me opts operands = Some (as, Inr (rs, g))"
  obtains g1 t g2 where "parseArgs (me_readable me) opts operands initial_state = Inr g1"
    "expandIncludeFiles n (me_files me) (me_tmp me) g1 = Some (Inr t)"
    "parseConfig (me_cfg me) (parse_result t) g1 = Inr g2" "main_run me g2 = (as, Inr (rs, g))"
  using assms by (auto simp: main_def split: option.splits sum.splits)

text \<open>What \<open>parseArgs\<close> leaves: only flags, names and paths are set.\<close>

definition args_view :: "gstate \<Rightarrow> gstate" where
  "args_view g = g\<lparr>g_debug := False, g_foreground := False, g_defaultServer := True, g_testConfig := False,
     g_showVersion := False, g_signalName := None, g_configFile := None, g_configDir := None,
     g_version := None, g_pidFile := None, g_user := None, g_group := None\<rparr>"

lemma parse_option_view: "parse_option c g = Inr g' \<Longrightarrow> args_view g' = args_view g"
  by (auto simp: parse_option_def args_view_def setDebug_def setTestConfig_def setForeground_def
      setShowVersion_def setDefaultServer_def setSignalName_def split: prod.splits if_splits)

lemma parse_options_view: "run_res parse_option opts g = Inr g' \<Longrightarrow> args_view g' = args_view g"
  by (induction opts arbitrary: g) (auto simp: res_simps dest!: parse_option_view)

lemma parseArgs_view: "parseArgs readable opts operands g = Inr g' \<Longrightarrow> args_view g' = args_view g"
  by (auto simp: parseArgs_def res_simps Let_def setConfigFile_def setConfigDir_def args_view_def
      setGroup_def setUser_def setPidFile_def setVersion_def split: if_splits dest!: parse_options_view)

lemma parseArgs_fresh:
  assumes "parseArgs readable opts operands initial_state = Inr g"
  shows "fresh_gstate g" "g_clients g = []" "g_fragments g = []" "g_mimeTypes g = []"
proof -
  have "args_view g = args_view initial_state" by (rule parseArgs_view [OF assms])
  then have "g_servers g = [] \<and> g_upstreams g = [] \<and> g_nodes g = [] \<and> g_accessLog g = [] \<and>
      g_errorLog g = [] \<and> g_clients g = [] \<and> g_fragments g = [] \<and> g_mimeTypes g = []"
    by (cases g) (simp add: args_view_def initial_state_def)
  then show "fresh_gstate g" "g_clients g = []" "g_fragments g = []" "g_mimeTypes g = []"
    by (simp_all add: fresh_gstate_def)
qed

lemma parseLine_keeps: "parseLine p g = Inr (r, g') \<Longrightarrow> \<exists>ms. g' = g\<lparr>g_mimeTypes := ms\<rparr>"
  using save_all by (auto simp: parseLine_def Let_def split: option.splits if_splits)

lemma parse_types_keeps: "parse_types p g = Inr g' \<Longrightarrow> \<exists>ms. g' = g\<lparr>g_mimeTypes := ms\<rparr>"
proof (induction p g rule: parse_types.induct)
  case (1 p g)
  let ?p1 = "dropWhile (\<lambda>c. c = CHR '' '' \<or> c = LF) p"
  show ?case
  proof (cases "(p \<noteq> [] \<and> hd p = CHR ''}'') \<or> hd ?p1 = CHR ''}''")
    case True
    with "1.prems" have "g' = g" by (subst (asm) parse_types.simps) (auto simp: Let_def split: if_splits)
    then show ?thesis by (intro exI [of _ "g_mimeTypes g"]) simp
  next
    case False
    with "1.prems" obtain p2 g1 where l: "?p1 \<noteq> []" "parseLine ?p1 g = Inr (p2, g1)" "parse_types p2 g1 = Inr g'"
      by (subst (asm) parse_types.simps) (auto simp: Let_def split: if_splits sum.splits)
    from False l(1) "1.IH" [OF _ refl _ _ l(2) refl] l(3) obtain ms where "g' = g1\<lparr>g_mimeTypes := ms\<rparr>" by auto
    with parseLine_keeps [OF l(2)] show ?thesis by auto
  qed
qed

lemma parseMimeTypes_keeps:
  assumes "parseMimeTypes files g = Inr g'"
  shows "\<exists>ms. g' = g\<lparr>g_mimeTypes := ms\<rparr>"
proof -
  from assms obtain f where "(case files f of None \<Rightarrow> Inl (Exit 1) | Some t \<Rightarrow>
      (case cut_char (CHR ''{'') (takeWhile (\<lambda>c. c \<noteq> NUL) t) of
         None \<Rightarrow> Inl (Exit 1) | Some (_, p) \<Rightarrow> parse_types p g)) = Inr g'"
    by (auto simp: parseMimeTypes_def res_simps)
  then obtain p where "parse_types p g = Inr g'"
    by (cases "files f") (auto split: option.splits)
  then show ?thesis by (rule parse_types_keeps)
qed

text \<open>The default server stays switched on exactly when \<open>-n\<close> is not given.\<close>

lemma parse_option_default:
  "parse_option c g = Inr g' \<Longrightarrow> g_defaultServer g' = (g_defaultServer g \<and> fst c \<noteq> CHR ''n'')"
  by (auto simp: parse_option_def setDebug_def setTestConfig_def setForeground_def
      setShowVersion_def setDefaultServer_def setSignalName_def split: prod.splits if_splits)

lemma parseArgs_default:
  assumes "parseArgs readable opts operands g = Inr g'"
  shows "g_defaultServer g' = (g_defaultServer g \<and> CHR ''n'' \<notin> fst ` set opts)"
proof -
  have o: "run_res parse_option opts g = Inr g1 \<Longrightarrow>
      g_defaultServer g1 = (g_defaultServer g \<and> CHR ''n'' \<notin> fst ` set opts)" for g1
    by (induction opts arbitrary: g) (auto simp: res_simps dest!: parse_option_default)
  from assms obtain g1 where "run_res parse_option opts g = Inr g1" "g_defaultServer g' = g_defaultServer g1"
    by (auto simp: parseArgs_def res_simps Let_def setConfigFile_def setConfigDir_def
        setGroup_def setUser_def setPidFile_def setVersion_def split: if_splits)
  with o show ?thesis by simp
qed

text \<open>The state in which processes start: the checked configuration, no connection, no fragment.\<close>

lemma main_ready:
  assumes "main n me opts operands = Some (as, Inr (rs, g))"
  shows "config_ready (me_cfg me) g" "g_clients g = []" "no_fragments g" "CHR ''n'' \<notin> fst ` set opts"
    "startProcesses (me_forks me) g = Inr rs" "daemonize (me_daemon me) g = (as, Inr ())"
proof -
  from assms obtain g1 t g2 where a: "parseArgs (me_readable me) opts operands initial_state = Inr g1"
    and c: "parseConfig (me_cfg me) (parse_result t) g1 = Inr g2" and r: "main_run me g2 = (as, Inr (rs, g))"
    by (rule main_parts)
  from r have m: "parseMimeTypes (me_files me) g2 = Inr g" and s: "startProcesses (me_forks me) g = Inr rs"
    and d: "daemonize (me_daemon me) g = (as, Inr ())" by (auto elim: main_run_parts)
  note fresh = parseArgs_fresh [OF a]
  have dflt: "g_defaultServer g1"
    using parseConfig_no_default_run [OF fresh(1), of "me_cfg me" "parse_result t"] c by fastforce
  then show "CHR ''n'' \<notin> fst ` set opts" using parseArgs_default [OF a] by simp
  have ready: "config_ready (me_cfg me) g2" by (rule parseConfig_ready_run [OF fresh(1) dflt c])
  have "g_run g2 = g_run g1" using parseConfig_frame [OF fresh(1) c] by (simp add: g_frame_def)
  then have f: "g_clients g2 = []" "g_fragments g2 = []" using fresh(2,3) by (simp_all add: g_run_def)
  from parseMimeTypes_keeps [OF m] obtain ms where g: "g = g2\<lparr>g_mimeTypes := ms\<rparr>" ..
  show "config_ready (me_cfg me) g"
    using ready by (simp add: g config_ready_def server_ok_def [abs_def])
  show "g_clients g = []" "no_fragments g" using f by (simp_all add: g)
  show "startProcesses (me_forks me) g = Inr rs" "daemonize (me_daemon me) g = (as, Inr ())"
    by (rule s, rule d)
qed

lemma plan_no_workers: "getWorkerProcesses g \<le> 0 \<Longrightarrow> plan g = []"
proof -
  assume w: "getWorkerProcesses g \<le> 0"
  have "fold (\<lambda>(s, p). add_port (getWorkerProcesses g) s p) sps [] = []" for sps
    by (induction sps) (auto simp: add_port_def w)
  then show ?thesis by (simp add: plan_pairs)
qed

lemma startProcesses_workers: "startProcesses forks g = Inr rs \<Longrightarrow> 0 < getWorkerProcesses g"
  by (rule ccontr) (auto simp: startProcesses_def plan_no_workers)

end
