(* ===== verification/OG_Accept.thy ===== *)
theory OG_Accept
  imports OG_Parser
begin

text \<open>
  What the grammar \<^verbatim>\<open>og_ws.y\<close> means: for each nonterminal the relation between a value and
  the token lists that derive it, and the proof that the parser computes exactly this relation. The
  contract between a parser and its relation is a locale, and every nonterminal is an interpretation.
\<close>

section \<open>Derivations\<close>

type_synonym 'a derives = "'a \<Rightarrow> token list \<Rightarrow> bool"

definition d_table :: "(kind list \<times> (string list \<Rightarrow> 'a)) list \<Rightarrow> 'a derives" where
  "d_table rs x w = (\<exists>(ks, f) \<in> set rs. map fst w = ks \<and> x = f (map snd w))"

definition d_or :: "'a derives \<Rightarrow> 'a derives \<Rightarrow> 'a derives" where
  "d_or d e x w = (d x w \<or> e x w)"

definition d_map :: "('a \<Rightarrow> 'b) \<Rightarrow> 'a derives \<Rightarrow> 'b derives" where
  "d_map f d y w = (\<exists>x. y = f x \<and> d x w)"

fun d_items :: "'a derives \<Rightarrow> 'a list derives" where
  "d_items d [] w = (w = [])"
| "d_items d (x # xs) w = (\<exists>u v. w = u @ v \<and> d x u \<and> d_items d xs v)"

definition d_group ::
  "kind list \<Rightarrow> 'a derives \<Rightarrow> kind \<Rightarrow> bool \<Rightarrow> (string list \<Rightarrow> 'a list \<Rightarrow> 'b) \<Rightarrow> 'b derives" where
  "d_group ks d close nonempty f y w =
     (\<exists>h b c xs. w = h @ b @ [c] \<and> map fst h = ks \<and> fst c = close \<and> d_items d xs b \<and>
        (nonempty \<longrightarrow> xs \<noteq> []) \<and> y = f (map snd h) xs)"

section \<open>The contract of a parser\<close>

text \<open>
  A parser computes the relation \<open>d\<close> on the longest beginning, provided that what follows is a token in
  \<open>follow\<close>. All texts of the nonterminal begin with one of the headers.
\<close>

locale parses =
  fixes p :: "'a parser" and d :: "'a derives" and headers :: "kind list list" and follow :: "kind \<Rightarrow> bool"
  assumes sound: "p ts = Some (x, r) \<Longrightarrow> \<exists>w. ts = w @ r \<and> d x w"
    and complete: "d x w \<Longrightarrow> r = [] \<or> follow (fst (hd r)) \<Longrightarrow> p (w @ r) = Some (x, r)"
    and begins: "d x w \<Longrightarrow> \<exists>h \<in> set headers. prefix h (map fst w)"
    and proper: "[] \<notin> set headers"
begin

lemma starts: "d x w \<Longrightarrow> w \<noteq> [] \<and> fst (hd w) \<in> hd ` set headers"
proof -
  assume "d x w"
  from begins [OF this] obtain h where h: "h \<in> set headers" "prefix h (map fst w)" ..
  with proper have "h \<noteq> []" by auto
  then obtain k ks where hk: "h = k # ks" by (cases h) auto
  with h(2) obtain c v where w: "w = c # v" "fst c = k" by (cases w) auto
  from h(1) hk have "k \<in> hd ` set headers" by force
  with w show ?thesis by simp
qed

lemma shorter: "p ts = Some (x, r) \<Longrightarrow> length r < length ts"
  using sound [of ts x r] starts by fastforce

lemma rejects:
  assumes "ts = [] \<or> fst (hd ts) \<notin> hd ` set headers" shows "p ts = None"
proof (rule ccontr)
  assume "p ts \<noteq> None"
  then obtain x r where "p ts = Some (x, r)" by auto
  from sound [OF this] obtain w where w: "ts = w @ r" "d x w" by blast
  from starts [OF w(2)] w(1) assms show False by auto
qed

text \<open>The items of a list, up to a token that begins none.\<close>

lemma items_Cons: "p ts = Some (x, r) \<Longrightarrow> p_items p ts = (let (xs, r') = p_items p r in (x # xs, r'))"
  by (subst p_items.simps) (simp add: shorter)

lemma items_None: "p ts = None \<Longrightarrow> p_items p ts = ([], ts)"
  by (subst p_items.simps) simp

lemma items_sound: "p_items p ts = (xs, r) \<Longrightarrow> \<exists>w. ts = w @ r \<and> d_items d xs w"
proof (induction "length ts" arbitrary: ts xs r rule: less_induct)
  case less
  show ?case
  proof (cases "p ts")
    case None
    with less.prems show ?thesis by (simp add: items_None)
  next
    case (Some z)
    obtain x r1 where z: "z = (x, r1)" by (cases z)
    obtain ys r2 where i: "p_items p r1 = (ys, r2)" by (cases "p_items p r1")
    with less.prems Some z have xs: "xs = x # ys" "r2 = r" by (simp_all add: items_Cons)
    obtain u where u: "ts = u @ r1" "d x u" using sound Some z by blast
    from less.hyps [OF _ i] shorter Some z obtain v where "r1 = v @ r2" "d_items d ys v" by blast
    with u xs show ?thesis by auto
  qed
qed

lemma items_complete:
  assumes "\<forall>h \<in> set headers. follow (hd h)"
  shows "d_items d xs w \<Longrightarrow> r = [] \<or> (follow (fst (hd r)) \<and> fst (hd r) \<notin> hd ` set headers) \<Longrightarrow>
    p_items p (w @ r) = (xs, r)"
proof (induction xs arbitrary: w)
  case Nil
  then show ?case using rejects [of r] by (auto simp: items_None)
next
  case (Cons x xs)
  then obtain u v where w: "w = u @ v" "d x u" "d_items d xs v" by auto
  have "v @ r = [] \<or> follow (fst (hd (v @ r)))"
  proof (cases v)
    case Nil
    with Cons.prems(2) show ?thesis by auto
  next
    case (Cons a v')
    with w(3) obtain y ys where "xs = y # ys" by (cases xs) auto
    with w(3) obtain u1 v1 where y: "v = u1 @ v1" "d y u1" by auto
    from starts [OF y(2)] have "u1 \<noteq> []" "fst (hd u1) \<in> hd ` set headers" by auto
    moreover from this y(1) Cons have "hd u1 = a" by (metis hd_append2 list.sel(1))
    ultimately have "follow (fst a)" using assms by auto
    with Cons show ?thesis by simp
  qed
  from complete [OF w(2) this] have "p (w @ r) = Some (x, v @ r)" by (simp add: w)
  with Cons.IH [OF w(3) Cons.prems(2)] show ?case by (simp add: items_Cons)
qed

text \<open>A group of items is again such a parser, whatever follows it.\<close>

lemma group:
  assumes "\<forall>h \<in> set headers. follow (hd h)" "follow close" "close \<notin> hd ` set headers" "ks \<noteq> []"
  shows "parses (p_group ks p close ne f) (d_group ks d close ne f) [ks] (\<lambda>_. True)"
proof
  fix ts y r assume "p_group ks p close ne f ts = Some (y, r)"
  then obtain s r1 xs r2 t where q: "p_seq ks ts = Some (s, r1)" "p_items p r1 = (xs, r2)"
    "p_seq [close] r2 = Some (t, r)" "ne \<longrightarrow> xs \<noteq> []" "y = f s xs"
    by (auto simp: p_group_def split: option.splits prod.splits if_splits)
  from items_sound [OF q(2)] obtain b where b: "r1 = b @ r2" "d_items d xs b" by blast
  from q(3) obtain c where c: "r2 = c # r" "fst c = close"
    by (cases r2) (auto simp: p_seq_def split: if_splits)
  let ?h = "take (length ks) ts"
  have h: "map fst ?h = ks" "s = map snd ?h" "drop (length ks) ts = r1"
    using q(1) by (auto simp: p_seq_def split: if_splits)
  have "ts = ?h @ r1" unfolding h(3) [symmetric] by simp
  with b c have "ts = (?h @ b @ [c]) @ r" by simp
  with h b c q show "\<exists>w. ts = w @ r \<and> d_group ks d close ne f y w" unfolding d_group_def by blast
next
  fix y w and r :: "token list"
  assume "d_group ks d close ne f y w"
  then obtain h b c xs where w: "w = h @ b @ [c]" "map fst h = ks" "fst c = close" "d_items d xs b"
    "ne \<longrightarrow> xs \<noteq> []" "y = f (map snd h) xs" unfolding d_group_def by blast
  have "p_items p (b @ c # r) = (xs, c # r)"
    by (rule items_complete [OF assms(1) w(4)]) (use assms w in auto)
  moreover have "p_seq ks (h @ b @ c # r) = Some (map snd h, b @ c # r)"
    using w(2) by (auto simp: p_seq_def)
  ultimately show "p_group ks p close ne f (w @ r) = Some (y, r)"
    using w by (simp add: p_group_def p_seq_def)
qed (use assms in \<open>auto simp: d_group_def\<close>)

text \<open>Where there is an item, its header continues that of the group.\<close>

lemma group_begins:
  assumes "d_group ks d close True f y w" shows "\<exists>h \<in> set (map ((@) ks) headers). prefix h (map fst w)"
proof -
  from assms obtain h b c xs where w: "w = h @ b @ [c]" "map fst h = ks" "d_items d xs b" "xs \<noteq> []"
    unfolding d_group_def by blast
  then obtain x u v where b: "b = u @ v" "d x u" by (cases xs) auto
  from begins [OF b(2)] obtain k where "k \<in> set headers" "prefix k (map fst u)" ..
  with w b(1) show ?thesis by (intro bexI [of _ "ks @ k"]) (auto simp: prefix_def)
qed

end

section \<open>The parsers of the language\<close>

text \<open>A table: no sequence is a beginning of a later one, and a later one that is a beginning of an earlier
  one is not followed by the token with which that goes on.\<close>

fun table_ok :: "(kind \<Rightarrow> bool) \<Rightarrow> kind list list \<Rightarrow> bool" where
  "table_ok F [] = True"
| "table_ok F (k # ks) =
     (k \<noteq> [] \<and> (\<forall>l \<in> set ks. \<not> prefix k l \<and> (prefix l k \<longrightarrow> \<not> F (k ! length l))) \<and> table_ok F ks)"

lemma p_seq_Some: "p_seq ks ts = Some (s, r) \<longleftrightarrow> (\<exists>w. ts = w @ r \<and> map fst w = ks \<and> s = map snd w)"
proof
  assume "p_seq ks ts = Some (s, r)"
  then have "ts = take (length ks) ts @ r" "map fst (take (length ks) ts) = ks" "s = map snd (take (length ks) ts)"
    by (auto simp: p_seq_def split: if_splits)
  then show "\<exists>w. ts = w @ r \<and> map fst w = ks \<and> s = map snd w" by blast
qed (auto simp: p_seq_def)

lemma p_first_sound: "p_first rs ts = Some (x, r) \<Longrightarrow> \<exists>w. ts = w @ r \<and> d_table rs x w"
proof (induction rs)
  case (Cons a rs)
  obtain ks f where a: "a = (ks, f)" by (cases a)
  show ?case
  proof (cases "p_seq ks ts")
    case None
    with Cons a show ?thesis by (auto simp: d_table_def)
  next
    case (Some z)
    with Cons.prems a obtain s where s: "p_seq ks ts = Some (s, r)" "x = f s" by (cases z) auto
    with a show ?thesis by (auto simp: p_seq_Some d_table_def)
  qed
qed simp

lemma p_seq_None:
  assumes "map fst w = l" "\<not> prefix k l" "prefix l k \<longrightarrow> \<not> F (k ! length l)" "r = [] \<or> F (fst (hd r))"
  shows "p_seq k (w @ r) = None"
proof (rule ccontr)
  assume "p_seq k (w @ r) \<noteq> None"
  then obtain u v where u: "w @ r = u @ v" "map fst u = k" by (auto simp: p_seq_Some)
  then consider z where "w = u @ z" | z where "u = w @ z" "r = z @ v" "z \<noteq> []"
    using that by (auto simp: append_eq_append_conv2) (metis append_Nil2 self_append_conv)
  then show False
  proof cases
    case 1
    with u(2) assms(1,2) show False by auto
  next
    case 2
    then obtain c z' where z: "z = c # z'" by (cases z) auto
    with 2 u(2) assms(1) have "k = l @ fst c # map fst z'" by auto
    moreover from this assms(1) have "k ! length l = fst c" by simp
    ultimately show False using assms(3,4) 2 z by auto
  qed
qed

lemma p_first_complete:
  "d_table rs x w \<Longrightarrow> table_ok F (map fst rs) \<Longrightarrow> r = [] \<or> F (fst (hd r)) \<Longrightarrow>
   p_first rs (w @ r) = Some (x, r)"
proof (induction rs)
  case (Cons a rs)
  obtain ks f where a: "a = (ks, f)" by (cases a)
  show ?case
  proof (cases "map fst w = ks \<and> x = f (map snd w)")
    case True
    then have "p_seq ks (w @ r) = Some (map snd w, r)" by (auto simp: p_seq_Some)
    with a True show ?thesis by simp
  next
    case False
    with Cons.prems a have t: "d_table rs x w" by (auto simp: d_table_def)
    then obtain l g where l: "(l, g) \<in> set rs" "map fst w = l" by (auto simp: d_table_def)
    from l(1) have "l \<in> set (map fst rs)" by force
    with Cons.prems(2) a have "\<not> prefix ks l" "prefix l ks \<longrightarrow> \<not> F (ks ! length l)" by auto
    from p_seq_None [OF l(2) this Cons.prems(3)] Cons a t show ?thesis by simp
  qed
qed (simp add: d_table_def)

lemma table_proper: "table_ok F ks \<Longrightarrow> [] \<notin> set ks"
  by (induction ks) auto

lemma table_parses: "table_ok F (map fst rs) \<Longrightarrow> parses (p_first rs) (d_table rs) (map fst rs) F"
proof
  fix x w and r :: "token list"
  assume "table_ok F (map fst rs)" "d_table rs x w" "r = [] \<or> F (fst (hd r))"
  from p_first_complete [OF this(2,1,3)] show "p_first rs (w @ r) = Some (x, r)" .
next
  fix x w assume "d_table rs x w"
  then show "\<exists>h\<in>set (map fst rs). prefix h (map fst w)" by (force simp: d_table_def)
next
  show "table_ok F (map fst rs) \<Longrightarrow> [] \<notin> set (map fst rs)" by (rule table_proper)
qed (simp_all add: p_first_sound)

text \<open>Two alternatives none of whose headers begins one of the other.\<close>

definition apart :: "kind list list \<Rightarrow> kind list list \<Rightarrow> bool" where
  "apart hs ks = list_all (\<lambda>h. list_all (\<lambda>k. \<not> prefix h k \<and> \<not> prefix k h) ks) hs"

lemma alt_parses:
  assumes "parses p d hs F" "parses q e ks F" "apart hs ks"
  shows "parses (p_alt p q) (d_or d e) (hs @ ks) F"
proof
  note a = parses.sound [OF assms(1)] parses.complete [OF assms(1)] parses.begins [OF assms(1)]
    parses.proper [OF assms(1)]
  note b = parses.sound [OF assms(2)] parses.complete [OF assms(2)] parses.begins [OF assms(2)]
    parses.proper [OF assms(2)]
  show "p_alt p q ts = Some (x, r) \<Longrightarrow> \<exists>w. ts = w @ r \<and> d_or d e x w" for ts x r
    using a(1) [of ts x r] b(1) [of ts x r] by (auto simp: p_alt_def d_or_def split: option.splits)
  show "d_or d e x w \<Longrightarrow> \<exists>h\<in>set (hs @ ks). prefix h (map fst w)" for x w
    using a(3) [of x w] b(3) [of x w] by (auto simp: d_or_def)
  show "[] \<notin> set (hs @ ks)" using a(4) b(4) by simp
  fix x w and r :: "token list"
  assume w: "d_or d e x w" "r = [] \<or> F (fst (hd r))"
  show "p_alt p q (w @ r) = Some (x, r)"
  proof (cases "d x w")
    case True
    with a(2) w(2) show ?thesis by (simp add: p_alt_def)
  next
    case False
    with w have e: "e x w" by (simp add: d_or_def)
    have "p (w @ r) = None"
    proof (rule ccontr)
      assume "p (w @ r) \<noteq> None"
      then obtain y r' where "p (w @ r) = Some (y, r')" by auto
      from a(1) [OF this] obtain u where u: "w @ r = u @ r'" "d y u" by blast
      from a(3) [OF u(2)] obtain h where h: "h \<in> set hs" "prefix h (map fst (w @ r))"
        unfolding u(1) by auto
      from b(3) [OF e] obtain k where k: "k \<in> set ks" "prefix k (map fst (w @ r))" by auto
      from prefix_same_cases [OF h(2) k(2)] h(1) k(1) assms(3) show False
        by (auto simp: apart_def list_all_iff)
    qed
    with b(2) [OF e w(2)] show ?thesis by (simp add: p_alt_def)
  qed
qed

lemma map_parses: "parses p d hs F \<Longrightarrow> parses (p_map f p) (d_map f d) hs F"
proof
  assume a: "parses p d hs F"
  show "p_map f p ts = Some (y, r) \<Longrightarrow> \<exists>w. ts = w @ r \<and> d_map f d y w" for ts y r
    using parses.sound [OF a] by (auto simp: p_map_def d_map_def) blast
  show "d_map f d y w \<Longrightarrow> r = [] \<or> F (fst (hd r)) \<Longrightarrow> p_map f p (w @ r) = Some (y, r)" for y w r
    using parses.complete [OF a] by (auto simp: p_map_def d_map_def)
  show "d_map f d y w \<Longrightarrow> \<exists>h\<in>set hs. prefix h (map fst w)" for y w
    using parses.begins [OF a] by (auto simp: d_map_def)
  show "[] \<notin> set hs" by (rule parses.proper [OF a])
qed

section \<open>The nonterminals\<close>

definition d_location_directive :: "location_directive derives" where
  "d_location_directive =
     d_or (d_table location_rules)
       (d_group [Kw ''try_files''] (d_table try_rules) EOL True (\<lambda>_. L_try_files))"

definition d_ssl :: "ssl_directive derives" where
  "d_ssl = d_or (d_table ssl_rules)
     (d_group [Kw ''ssl_protocols''] (d_table name_rules) EOL True (\<lambda>_. Ssl_protocols))"

definition d_index :: "(string list \<Rightarrow> 'a) \<Rightarrow> 'a derives" where
  "d_index f = d_group [Kw ''index''] (d_table name_rules) EOL True (\<lambda>_. f)"

definition d_location :: "server_directive derives" where
  "d_location =
     d_or (d_group [Kw ''location'', EQUAL_OPERATOR, PATH, OPEN] d_location_directive CLOSE True
             (\<lambda>s. S_location EQUAL_MATCH (s ! 2)))
    (d_or (d_group [Kw ''location'', REGEXP, OPEN] d_location_directive CLOSE True
             (\<lambda>s. S_location REGEX_MATCH (s ! 1)))
          (d_group [Kw ''location'', PATH, OPEN] d_location_directive CLOSE True
             (\<lambda>s. S_location PREFIX_MATCH (s ! 1))))"

definition d_server_directive :: "server_directive derives" where
  "d_server_directive =
     d_or (d_table server_rules)
    (d_or (d_group [Kw ''server_name''] (d_table server_name_rules) EOL True (\<lambda>_. S_server_name))
    (d_or d_location
    (d_or (d_group [Kw ''listen''] (d_table listen_rules) EOL True (\<lambda>_. S_listen))
    (d_or (d_map S_ssl d_ssl) (d_index S_index)))))"

definition d_http_directive :: "http_directive derives" where
  "d_http_directive =
     d_or (d_table http_rules)
    (d_or (d_index H_index)
    (d_or (d_group [Kw ''log_format'', Kw ''main''] (d_table string_rules) EOL True (\<lambda>_ _. H_log_format))
    (d_or (d_group [Kw ''log_format''] (d_table string_rules) EOL True (\<lambda>_ _. H_log_format))
    (d_or (d_group [Kw ''server'', OPEN] d_server_directive CLOSE False (\<lambda>_. H_server))
    (d_or (d_group [Kw ''upstream'', NAME, OPEN] (d_table upstream_rules) CLOSE True (\<lambda>s. H_upstream (s ! 1)))
          (d_map H_ssl d_ssl))))))"

definition d_events :: "int list derives" where
  "d_events = d_group [Kw ''events'', OPEN] (d_table events_rules) CLOSE False (\<lambda>_ xs. xs)"

definition d_http :: "http_directive list derives" where
  "d_http = d_group [Kw ''http'', OPEN] d_http_directive CLOSE True (\<lambda>_ xs. xs)"

definition d_config :: "config derives" where
  "d_config c ts = (\<exists>a b e. ts = a @ b @ e \<and> d_items (d_table main_rules) (cfg_main c) a \<and>
     d_events (cfg_events c) b \<and> d_http (cfg_http c) e)"

section \<open>Every nonterminal is parsed\<close>

abbreviation "anything \<equiv> \<lambda>k::kind. True"

lemma tables:
  "table_ok anything (map fst location_rules)" "table_ok anything (map fst ssl_rules)"
  "table_ok anything (map fst server_rules)" "table_ok anything (map fst http_rules)"
  "table_ok anything (map fst upstream_rules)" "table_ok anything (map fst main_rules)"
  "table_ok anything (map fst events_rules)" "table_ok (\<lambda>k. k \<noteq> PORT) (map fst listen_rules)"
  "table_ok anything (map fst try_rules)" "table_ok anything (map fst name_rules)"
  "table_ok anything (map fst string_rules)" "table_ok anything (map fst server_name_rules)"
  by code_simp+

lemmas table = tables [THEN table_parses]

lemma group_parses:
  assumes "parses p d hs F" "list_all (\<lambda>h. F (hd h) \<and> close \<noteq> hd h) hs" "F close" "ks \<noteq> []"
  shows "parses (p_group ks p close ne f) (d_group ks d close ne f) [ks] anything"
  by (rule parses.group [OF assms(1)]) (use assms in \<open>auto simp: list_all_iff\<close>)

lemma group_parses_item:
  assumes "parses p d hs F" "list_all (\<lambda>h. F (hd h) \<and> close \<noteq> hd h) hs" "F close" "ks \<noteq> []"
  shows "parses (p_group ks p close True f) (d_group ks d close True f) (map ((@) ks) hs) anything"
proof -
  have g: "parses (p_group ks p close True f) (d_group ks d close True f) [ks] anything"
    by (rule group_parses [OF assms])
  show ?thesis
    by unfold_locales (use parses.sound [OF g] parses.complete [OF g] parses.group_begins [OF assms(1)] assms(4) in auto)
qed

definition location_heads :: "kind list list" where
  "location_heads = map fst location_rules @ [[Kw ''try_files'']]"

interpretation location_directive: parses p_location_directive d_location_directive location_heads anything
  unfolding p_location_directive_def d_location_directive_def location_heads_def
  by (rule alt_parses [OF table(1) group_parses [OF table(9)]]) code_simp+

definition ssl_heads :: "kind list list" where
  "ssl_heads = map fst ssl_rules @ [[Kw ''ssl_protocols'']]"

interpretation ssl: parses p_ssl d_ssl ssl_heads anything
  unfolding p_ssl_def d_ssl_def ssl_heads_def
  by (rule alt_parses [OF table(2) group_parses [OF table(10)]]) code_simp+

lemma index_parses: "parses (p_index f) (d_index f) [[Kw ''index'']] anything"
  unfolding p_index_def d_index_def
  by (rule group_parses [OF table(10)]) code_simp+

definition location_section_heads :: "kind list list" where
  "location_section_heads =
     [[Kw ''location'', EQUAL_OPERATOR, PATH, OPEN]] @ [[Kw ''location'', REGEXP, OPEN]] @
     [[Kw ''location'', PATH, OPEN]]"

interpretation location_section: parses p_location d_location location_section_heads anything
  unfolding p_location_def d_location_def location_section_heads_def
  by (rule alt_parses [OF group_parses [OF location_directive.parses_axioms]
        alt_parses [OF group_parses [OF location_directive.parses_axioms]
          group_parses [OF location_directive.parses_axioms]]]) code_simp+

definition server_heads :: "kind list list" where
  "server_heads = map fst server_rules @ [[Kw ''server_name'']] @ location_section_heads @
     [[Kw ''listen'']] @ ssl_heads @ [[Kw ''index'']]"

interpretation server_directive: parses p_server_directive d_server_directive server_heads anything
  unfolding p_server_directive_def d_server_directive_def server_heads_def
  by (rule alt_parses [OF table(3) alt_parses [OF group_parses [OF table(12)]
        alt_parses [OF location_section.parses_axioms alt_parses [OF group_parses [OF table(8)]
        alt_parses [OF map_parses [OF ssl.parses_axioms] index_parses]]]]]) code_simp+

definition http_heads :: "kind list list" where
  "http_heads = map fst http_rules @ [[Kw ''index'']] @ [[Kw ''log_format'', Kw ''main'']] @
     map ((@) [Kw ''log_format'']) (map fst string_rules) @ [[Kw ''server'', OPEN]] @ [[Kw ''upstream'', NAME, OPEN]] @ ssl_heads"

interpretation http_directive: parses p_http_directive d_http_directive http_heads anything
  unfolding p_http_directive_def d_http_directive_def http_heads_def
  by (rule alt_parses [OF table(4) alt_parses [OF index_parses alt_parses [OF group_parses [OF table(11)]
        alt_parses [OF group_parses_item [OF table(11)] alt_parses [OF group_parses [OF server_directive.parses_axioms]
        alt_parses [OF group_parses [OF table(5)] map_parses [OF ssl.parses_axioms]]]]]]]) code_simp+

interpretation events: parses p_events d_events "[[Kw ''events'', OPEN]]" anything
  unfolding p_events_def d_events_def
  by (rule group_parses [OF table(7)]) code_simp+

interpretation http: parses p_http d_http "[[Kw ''http'', OPEN]]" anything
  unfolding p_http_def d_http_def
  by (rule group_parses [OF http_directive.parses_axioms]) code_simp+

interpretation main_directive: parses "p_first main_rules" "d_table main_rules" "map fst main_rules" anything
  by (rule table(6))

lemma parse_config_run: "parse_config ts = Some c \<longleftrightarrow> d_config c ts"
proof
  assume "parse_config ts = Some c"
  then obtain r r1 where p: "p_items (p_first main_rules) ts = (cfg_main c, r)"
    "p_events r = Some (cfg_events c, r1)" "p_http r1 = Some (cfg_http c, [])"
    by (auto simp: parse_config_def split: option.splits prod.splits if_splits)
  from main_directive.items_sound [OF p(1)] events.sound [OF p(2)] http.sound [OF p(3)]
  show "d_config c ts" unfolding d_config_def by fastforce
next
  assume "d_config c ts"
  then obtain a b e where t: "ts = a @ b @ e" "d_items (d_table main_rules) (cfg_main c) a"
    "d_events (cfg_events c) b" "d_http (cfg_http c) e"
    unfolding d_config_def by blast
  from events.starts [OF t(3)] have b: "b \<noteq> []" "fst (hd b) = Kw ''events''" by auto
  have "Kw ''events'' \<notin> hd ` set (map fst main_rules)"
  proof -
    have "list_all (\<lambda>k. hd k \<noteq> Kw ''events'') (map fst main_rules)" by code_simp
    then show ?thesis by (fastforce simp: list_all_iff)
  qed
  with b have "p_items (p_first main_rules) (a @ b @ e) = (cfg_main c, b @ e)"
    by (intro main_directive.items_complete t) auto
  moreover have "p_events (b @ e) = Some (cfg_events c, e)" by (rule events.complete) (use t in auto)
  moreover have "p_http (e @ []) = Some (cfg_http c, [])" by (rule http.complete) (use t in auto)
  ultimately show "parse_config ts = Some c" using t by (simp add: parse_config_def)
qed

section \<open>Where the parts of a configuration stand in its text\<close>

lemma items_sublist: "d_items d xs b \<Longrightarrow> x \<in> set xs \<Longrightarrow> \<exists>w. d x w \<and> sublist w b"
proof (induction xs arbitrary: b)
  case (Cons y ys)
  then obtain u v where b: "b = u @ v" "d y u" "d_items d ys v" by auto
  show ?case
  proof (cases "x = y")
    case True
    with b show ?thesis by (auto simp: sublist_appendI)
  next
    case False
    with Cons.IH [OF b(3)] Cons.prems(2) obtain w where "d x w" "sublist w v" by auto
    with b(1) show ?thesis by (auto simp: sublist_append)
  qed
qed simp

lemma group_sublist:
  assumes "d_group ks d close ne f y w"
  obtains h xs where "map fst h = ks" "sublist h w" "y = f (map snd h) xs"
    "\<And>x. x \<in> set xs \<Longrightarrow> \<exists>v. d x v \<and> sublist v w"
proof -
  from assms obtain h b c xs where w: "w = h @ b @ [c]" "map fst h = ks" "d_items d xs b" "y = f (map snd h) xs"
    unfolding d_group_def by blast
  have "\<exists>v. d x v \<and> sublist v w" if x: "x \<in> set xs" for x
  proof -
    from items_sublist [OF w(3) x] obtain v where v: "d x v" "sublist v b" by blast
    have "sublist b w" unfolding w(1) by (rule sublist_appendI)
    with v show ?thesis using sublist_order.order.trans by blast
  qed
  with w show ?thesis by (intro that [of h xs]) auto
qed

lemma server_parts:
  assumes "d_http_directive (H_server ds) w" "x \<in> set ds"
  shows "\<exists>v. d_server_directive x v \<and> sublist v w"
proof -
  from assms(1) have "d_group [Kw ''server'', OPEN] d_server_directive CLOSE False (\<lambda>_. H_server) (H_server ds) w"
    by (auto simp: d_http_directive_def d_or_def d_table_def http_rules_def log_rules_def flag_rules_def
        d_index_def d_map_def d_group_def)
  then show ?thesis by (rule group_sublist) (use assms(2) in auto)
qed

lemma location_parts:
  assumes "d_server_directive (S_location m r ls) w"
  shows "\<exists>h. sublist h w \<and> (m = REGEX_MATCH \<longrightarrow> (REGEXP, r) \<in> set h) \<and>
    (\<forall>l \<in> set ls. \<exists>v. d_location_directive l v \<and> sublist v w)"
proof -
  from assms have "d_location (S_location m r ls) w"
    by (auto simp: d_server_directive_def d_or_def d_table_def server_rules_def log_rules_def flag_rules_def
        d_index_def d_map_def d_group_def)
  then consider
      "d_group [Kw ''location'', EQUAL_OPERATOR, PATH, OPEN] d_location_directive CLOSE True
        (\<lambda>s. S_location EQUAL_MATCH (s ! 2)) (S_location m r ls) w"
    | "d_group [Kw ''location'', REGEXP, OPEN] d_location_directive CLOSE True
        (\<lambda>s. S_location REGEX_MATCH (s ! 1)) (S_location m r ls) w"
    | "d_group [Kw ''location'', PATH, OPEN] d_location_directive CLOSE True
        (\<lambda>s. S_location PREFIX_MATCH (s ! 1)) (S_location m r ls) w"
    by (auto simp: d_location_def d_or_def)
  then show ?thesis
  proof cases
    case 1
    then show ?thesis by (rule group_sublist) (auto simp: EQUAL_MATCH_def REGEX_MATCH_def)
  next
    case 2
    then show ?thesis
    proof (rule group_sublist)
      fix h xs
      assume h: "map fst h = [Kw ''location'', REGEXP, OPEN]" "sublist h w"
        and y: "S_location m r ls = S_location REGEX_MATCH (map snd h ! 1) xs"
        and xs: "\<And>x. x \<in> set xs \<Longrightarrow> \<exists>v. d_location_directive x v \<and> sublist v w"
      from h(1) obtain a b c where "h = [a, b, c]" "fst b = REGEXP" by (auto simp: map_eq_Cons_conv)
      with y have "(REGEXP, r) \<in> set h" by (cases b) auto
      with h(2) y xs show ?thesis by auto
    qed
  next
    case 3
    then show ?thesis by (rule group_sublist) (auto simp: PREFIX_MATCH_def REGEX_MATCH_def)
  qed
qed

lemma split_tokens:
  assumes "d_location_directive (L_fastcgi_split_path_info x) v"
  shows "\<exists>a b c. v = [a, (REGEXP, b), (EOL, c)]"
proof -
  from assms have "d_table location_rules (L_fastcgi_split_path_info x) v"
    by (auto simp: d_location_directive_def d_or_def d_group_def)
  then have "map fst v = [Kw ''fastcgi_split_path_info'', REGEXP, EOL]"
    by (auto simp: d_table_def location_rules_def proxy_rules_def)
  then obtain a b c where "v = [a, b, c]" "fst b = REGEXP" "fst c = EOL" by (auto simp: map_eq_Cons_conv)
  then show ?thesis by (cases b; cases c) auto
qed

lemma config_server_tokens:
  assumes "d_config c ts" "H_server ds \<in> set (cfg_http c)" "x \<in> set ds"
  shows "\<exists>v. d_server_directive x v \<and> sublist v ts"
proof -
  from assms(1) obtain a b e where t: "ts = a @ b @ e" "d_http (cfg_http c) e" unfolding d_config_def by blast
  from t(2) obtain w where w: "d_http_directive (H_server ds) w" "sublist w e"
    unfolding d_http_def by (rule group_sublist) (use assms(2) in auto)
  from server_parts [OF w(1) assms(3)] obtain v where v: "d_server_directive x v" "sublist v w" by blast
  have "sublist e ts" unfolding t(1) using sublist_appendI [of e "a @ b" "[]"] by simp
  with v w(2) show ?thesis using sublist_order.order.trans by blast
qed

lemma scanned_patterns_run:
  assumes "parse_text t = Some c" "H_server ds \<in> set (cfg_http c)" "S_location m r ls \<in> set ds"
  shows "(m = REGEX_MATCH \<longrightarrow> regexp_text r) \<and> (\<forall>x. L_fastcgi_split_path_info x \<notin> set ls)"
proof -
  from assms(1) have "d_config c (lex t)" by (simp add: parse_text_def parse_config_run)
  from config_server_tokens [OF this assms(2,3)] obtain v where v: "d_server_directive (S_location m r ls) v"
    "sublist v (lex t)" by blast
  from location_parts [OF v(1)] obtain h where h: "sublist h v" "m = REGEX_MATCH \<longrightarrow> (REGEXP, r) \<in> set h"
    and ls: "\<And>l. l \<in> set ls \<Longrightarrow> \<exists>u. d_location_directive l u \<and> sublist u v" by blast
  have "regexp_text r" if "m = REGEX_MATCH"
  proof -
    from h that have "(REGEXP, r) \<in> set v" using set_mono_sublist by blast
    with v(2) have "(REGEXP, r) \<in> set (lex t)" using set_mono_sublist by blast
    then obtain us ts where "lex t = us @ (REGEXP, r) # ts" by (metis split_list)
    with lex_regexp show ?thesis by blast
  qed
  moreover have "L_fastcgi_split_path_info x \<notin> set ls" for x
  proof
    assume "L_fastcgi_split_path_info x \<in> set ls"
    from ls [OF this] obtain u where u: "d_location_directive (L_fastcgi_split_path_info x) u" "sublist u v" by blast
    with v(2) have "sublist u (lex t)" using sublist_order.order.trans by blast
    with split_tokens [OF u(1)] obtain a b c us ts where "lex t = us @ [a, (REGEXP, b), (EOL, c)] @ ts"
      by (auto simp: sublist_def)
    then have "lex t = (us @ [a]) @ (REGEXP, b) # (EOL, c) # ts" by simp
    from lex_regexp [OF this] show False by (simp add: brace_def)
  qed
  ultimately show ?thesis by blast
qed

text \<open>A server is not named by an address, which the scanner takes for another type of token.\<close>

lemma server_name_tokens:
  assumes "d_server_directive (S_server_name ns) w" "(n, ty) \<in> set ns"
  shows "\<exists>k \<in> {NAME, PREFIXNAME, SUFFIXNAME}. (k, n) \<in> set w"
proof -
  from assms(1) have "d_group [Kw ''server_name''] (d_table server_name_rules) EOL True (\<lambda>_. S_server_name) (S_server_name ns) w"
    by (auto simp: d_server_directive_def d_or_def d_table_def server_rules_def log_rules_def flag_rules_def
        d_index_def d_map_def d_group_def d_location_def)
  then have "\<exists>v. d_table server_name_rules (n, ty) v \<and> sublist v w"
  proof (rule group_sublist)
    fix h xs
    assume y: "S_server_name ns = S_server_name xs"
      and xs: "\<And>x. x \<in> set xs \<Longrightarrow> \<exists>v. d_table server_name_rules x v \<and> sublist v w"
    from y assms(2) have "(n, ty) \<in> set xs" by simp
    then show ?thesis by (rule xs)
  qed
  then obtain v where v: "d_table server_name_rules (n, ty) v" "sublist v w" by blast
  from v(1) obtain r where r: "r \<in> set server_name_rules" "map fst v = fst r" "(n, ty) = snd r (map snd v)"
    unfolding d_table_def by (elim bexE) (simp add: case_prod_beta)
  have "list_all (\<lambda>r. \<exists>k \<in> {NAME, PREFIXNAME, SUFFIXNAME}. fst r = [k] \<and> (\<forall>s. fst (snd r s) = s ! 0)) server_name_rules"
    by (simp add: server_name_rules_def)
  with r(1) obtain k where "k \<in> {NAME, PREFIXNAME, SUFFIXNAME}" "fst r = [k]" "\<forall>s. fst (snd r s) = s ! 0"
    unfolding list_all_iff by blast
  then have k: "k \<in> {NAME, PREFIXNAME, SUFFIXNAME}" "fst r = [k]" "fst (snd r (map snd v)) = map snd v ! 0" by simp_all
  with r(2,3) have "map fst v = [k]" "n = map snd v ! 0" by (simp, metis fst_conv)
  then obtain b where "v = [b]" "fst b = k" "n = snd b" by (cases v) simp_all
  with v(2) have "(k, n) \<in> set w" using set_mono_sublist [of v w] by (cases b) simp
  with k(1) show ?thesis by blast
qed

lemma server_names_run:
  assumes "parse_text t = Some c" "H_server ds \<in> set (cfg_http c)" "S_server_name ns \<in> set ds" "(n, ty) \<in> set ns"
  shows "\<not> rx_match address n"
proof
  assume "rx_match address n"
  from assms(1) have "d_config c (lex t)" by (simp add: parse_text_def parse_config_run)
  from config_server_tokens [OF this assms(2,3)] obtain v where v: "d_server_directive (S_server_name ns) v"
    "sublist v (lex t)" by blast
  from server_name_tokens [OF v(1) assms(4)] obtain k where k: "k \<in> {NAME, PREFIXNAME, SUFFIXNAME}" "(k, n) \<in> set v"
    by blast
  with v(2) have "(k, n) \<in> set (lex t)" using set_mono_sublist by blast
  from address_token [OF this \<open>rx_match address n\<close>] k(1) show False by auto
qed

section \<open>The theorems\<close>


text \<open>C15: A list of tokens that is written one to a line is scanned and parsed back: the text is accepted
  exactly if the tokens derive a configuration, and then as that one.\<close>

theorem config_text_roundtrip:
  assumes "writable ts"
  shows "lex (write_tokens ts) = ts \<and> (parse_text (write_tokens ts) = Some c \<longleftrightarrow> d_config c ts)"
  by (simp add: parse_text_def lex_written [OF assms] parse_config_run)

text \<open>C32: In a configuration that is accepted, the pattern of a regular expression location still has the
  operator in front, which \<open>regexMatch\<close> takes for a part of the expression, and no location has a
  \<open>fastcgi_split_path_info\<close>: the scanner only takes an expression before a brace, and the production
  wants a semicolon there.\<close>

theorem scanned_patterns:
  assumes "parse_text t = Some c" "H_server ds \<in> set (cfg_http c)" "S_location m r ls \<in> set ds"
  shows "(m = REGEX_MATCH \<longrightarrow> regexp_text r) \<and> (\<forall>x. L_fastcgi_split_path_info x \<notin> set ls)"
  by (rule scanned_patterns_run [OF assms])

text \<open>No configuration with a server named by an IPv4 address is accepted: the scanner gives an address
  a type of its own, which is not a server name.\<close>

lemma server_names_not_addresses:
  assumes "parse_text t = Some c" "H_server ds \<in> set (cfg_http c)" "S_server_name ns \<in> set ds" "(n, ty) \<in> set ns"
  shows "\<not> rx_match address n"
  by (rule server_names_run [OF assms])

section \<open>An example\<close>

definition ex_parsed :: config where
  "ex_parsed = \<lparr>cfg_main = [M_pid ''/p''], cfg_events = [],
     cfg_http = [H_server [S_server_name [(''a.org'', SERVER_NAME_EXACT)],
       S_location REGEX_MATCH ''~ x'' [L_root ''/y'']],
       H_server [S_server_name [(''b.org'', SERVER_NAME_EXACT)], S_root ''/srv'']]\<rparr>"

definition ex_tokens :: "token list" where
  "ex_tokens = [(Kw ''pid'', ''pid''), (PATH, ''/p''), (EOL, '';''), (Kw ''events'', ''events''), brace,
     (CLOSE, ''}''), (Kw ''http'', ''http''), brace, (Kw ''server'', ''server''), brace,
     (Kw ''server_name'', ''server_name''), (NAME, ''a.org''), (EOL, '';''),
     (Kw ''location'', ''location''), (REGEXP, ''~ x''), brace, (Kw ''root'', ''root''), (PATH, ''/y''), (EOL, '';''),
     (CLOSE, ''}''), (CLOSE, ''}''), (Kw ''server'', ''server''), brace,
     (Kw ''server_name'', ''server_name''), (NAME, ''b.org''), (EOL, '';''),
     (Kw ''root'', ''root''), (PATH, ''/srv''), (EOL, '';''), (CLOSE, ''}''), (CLOSE, ''}'')]"

lemma ex_plain: "plain_token brace" "plain_token (CLOSE, ''}'')" "plain_token (PATH, ''/p'')"
  "plain_token (NAME, ''a.org'')" "plain_token (PATH, ''/y'')" "plain_token (NAME, ''b.org'')" "plain_token (PATH, ''/srv'')"
  by code_simp+

lemma ex_tokens_writable: "writable ex_tokens"
proof -
  have "scan ''~ x{'' = (3, Some REGEXP)" "ordinary (CHR ''~'')" by code_simp+
  then show ?thesis using ex_plain unfolding ex_tokens_def brace_def
    by (simp add: plain_word fixed_words_def brace_def)
qed

lemma ex_tokens_parsed: "parse_config ex_tokens = Some ex_parsed"
  by code_simp

definition ex_text :: string where
  "ex_text = write_tokens ex_tokens"

lemma ex_text_parsed: "parse_text ex_text = Some ex_parsed"
  by (simp add: parse_text_def ex_text_def lex_written [OF ex_tokens_writable] ex_tokens_parsed)

lemma config_text_roundtrip_witness:
  "writable ex_tokens \<and> parse_text (write_tokens ex_tokens) = Some ex_parsed"
proof -
  have "d_config ex_parsed ex_tokens" using ex_tokens_parsed by (simp only: parse_config_run)
  with config_text_roundtrip [OF ex_tokens_writable, of ex_parsed] ex_tokens_writable show ?thesis by blast
qed

lemma scanned_patterns_witness:
  "\<exists>ds r ls. H_server ds \<in> set (cfg_http ex_parsed) \<and> S_location REGEX_MATCH r ls \<in> set ds \<and> regexp_text r"
proof -
  have s: "H_server [S_server_name [(''a.org'', SERVER_NAME_EXACT)],
       S_location REGEX_MATCH ''~ x'' [L_root ''/y'']] \<in> set (cfg_http ex_parsed)" by (simp add: ex_parsed_def)
  have l: "S_location REGEX_MATCH ''~ x'' [L_root ''/y''] \<in> set [S_server_name [(''a.org'', SERVER_NAME_EXACT)],
       S_location REGEX_MATCH ''~ x'' [L_root ''/y'']]" by simp
  from scanned_patterns [OF ex_text_parsed s l] s l show ?thesis by blast
qed

lemma server_names_not_addresses_example:
  "parse_text ex_text = Some ex_parsed \<and> \<not> rx_match address ''a.org''"
proof -
  have s: "H_server [S_server_name [(''a.org'', SERVER_NAME_EXACT)],
       S_location REGEX_MATCH ''~ x'' [L_root ''/y'']] \<in> set (cfg_http ex_parsed)" by (simp add: ex_parsed_def)
  have "\<not> rx_match address ''a.org''"
    by (rule server_names_not_addresses [OF ex_text_parsed s, of "[(''a.org'', SERVER_NAME_EXACT)]" _ SERVER_NAME_EXACT])
      simp_all
  then show ?thesis using ex_text_parsed by blast
qed

end
