(* ===== verification/OG_Service.thy ===== *)
theory OG_Service
  imports OG_EventLoop
begin

text \<open>
  The plain server as its clients see it: which connections it opens, answers and closes. An automaton
  over these events is the contract of the service, and the actions of every run of the loop, read as
  such events, are a run of the automaton that ends in the open connections of the registry.
\<close>

section \<open>The contract\<close>

datatype conn_event = Opened int | Answered int | Closed int

text \<open>The state: the open connections, and those of them that have been answered.\<close>

fun service_step :: "conn_event \<Rightarrow> int set \<times> int set \<Rightarrow> (int set \<times> int set) option" where
  "service_step (Opened fd) (opn, ans) = (if fd \<in> opn then None else Some (insert fd opn, ans))"
| "service_step (Answered fd) (opn, ans) =
     (if fd \<in> opn \<and> fd \<notin> ans then Some (opn, insert fd ans) else None)"
| "service_step (Closed fd) (opn, ans) = (if fd \<in> opn then Some (opn - {fd}, ans - {fd}) else None)"

fun service :: "int set \<times> int set \<Rightarrow> conn_event list \<Rightarrow> (int set \<times> int set) option" where
  "service s [] = Some s"
| "service s (e # es) = Option.bind (service_step e s) (\<lambda>s'. service s' es)"

lemma service_append [simp]: "service s (xs @ ys) = Option.bind (service s xs) (\<lambda>s'. service s' ys)"
proof (induction xs arbitrary: s)
  case (Cons e xs)
  then show ?case by (cases "service_step e s") simp_all
qed simp

text \<open>What the contract means for one descriptor.\<close>

lemma service_counts:
  assumes "service (opn, ans) tr = Some (opn', ans')" "ans \<subseteq> opn"
  shows "ans' \<subseteq> opn'"
    "count_list tr (Opened fd) + of_bool (fd \<in> opn) = count_list tr (Closed fd) + of_bool (fd \<in> opn')"
    "count_list tr (Answered fd) + of_bool (fd \<in> ans) \<le> count_list tr (Closed fd) + of_bool (fd \<in> ans')"
  using assms
proof (induction tr arbitrary: opn ans)
  case (Cons e tr)
  { case 1 then show ?case using Cons.IH(1) by (cases e) (auto split: if_splits) }
  { case 2 then show ?case using Cons.IH(2) by (cases e) (fastforce split: if_splits)+ }
  { case 3 then show ?case using Cons.IH(3) by (cases e) (fastforce split: if_splits)+ }
qed simp_all

section \<open>Actions as events\<close>

fun conn_events :: "action \<Rightarrow> conn_event list" where
  "conn_events (EpollAdd fd) = [Opened fd]"
| "conn_events (Send fd ssl d) = (if prefix ''HTTP/1.1 '' d then [Answered fd] else [])"
| "conn_events (Shutdown fd) = [Closed fd]"
| "conn_events _ = []"

definition conn_trace :: "action list \<Rightarrow> conn_event list" where
  "conn_trace as = concat (map conn_events as)"

lemma conn_trace_simps [simp]:
  "conn_trace [] = []" "conn_trace (a # as) = conn_events a @ conn_trace as"
  "conn_trace (as @ bs) = conn_trace as @ conn_trace bs"
  by (simp_all add: conn_trace_def)

lemma conn_trace_cleanup [simp]: "conn_trace (cleanup_actions fd g) = [Closed fd]"
  by (simp add: cleanup_actions_def split: option.split)

text \<open>An action of a handler that serves one client itself: it writes to nobody else, and opens and
  closes no connection.\<close>

fun own :: "int \<Rightarrow> action \<Rightarrow> bool" where
  "own fd (Send f ssl d) = (f = fd)"
| "own fd (SendFile f ssl l n) = (f = fd)"
| "own fd (Shutdown f) = False"
| "own fd (EpollAdd f) = False"
| "own fd _ = True"

lemma own_trace: "list_all (own fd) as \<Longrightarrow> conn_trace as = replicate (status_lines fd as) (Answered fd)"
proof (induction as)
  case (Cons a as)
  then show ?case by (cases a) auto
qed simp

section \<open>Local handlers keep to their client\<close>

definition owns :: "int \<Rightarrow> (gstate \<Rightarrow> bool) \<Rightarrow> 'a io \<Rightarrow> bool" where
  "owns fd P m = (\<forall>g. P g \<longrightarrow> list_all (own fd) (fst (m g)))"

named_theorems own_intros \<open>handlers that serve one client\<close>

abbreviation always :: "gstate \<Rightarrow> bool" where
  "always \<equiv> \<lambda>_. True"

lemma ownsD: "owns fd P m \<Longrightarrow> P g \<Longrightarrow> m g = (as, r) \<Longrightarrow> list_all (own fd) as"
  by (fastforce simp: owns_def)

lemma owns_pre: "owns fd always m \<Longrightarrow> owns fd P m"
  by (simp add: owns_def)

lemma owns_basic [own_intros]:
  "owns fd P (ret_io x)" "owns fd P (lift_res r)" "owns fd P (stop_io e)" "owns fd P (mod_io h)" "owns fd P get_io"
  "owns fd P (emit_io (WriteLog f d))" "owns fd P (emit_io (Close f))" "owns fd P (emit_io (SendFile fd b l k))"
  "owns fd P (emit_io (Send fd b d))"
  by (simp_all add: owns_def io_simps lift_res_def split: sum.split)

lemma owns_bind [own_intros]: "owns fd P m \<Longrightarrow> (\<And>x. owns fd always (f x)) \<Longrightarrow> owns fd P (bind_io m f)"
  unfolding owns_def bind_io_def by (auto split: prod.split sum.split) (metis fst_conv list_all_append)+

lemma owns_get: "(\<And>h. P h \<Longrightarrow> owns fd P (f h)) \<Longrightarrow> owns fd P (bind_io get_io f)"
  by (auto simp: owns_def io_simps)

lemma owns_lift: "(\<And>x. r = Inr x \<Longrightarrow> owns fd P (f x)) \<Longrightarrow> owns fd P (bind_io (lift_res r) f)"
  by (cases r) (auto simp: owns_def io_simps)

lemma owns_if [own_intros]: "owns fd P m \<Longrightarrow> owns fd P k \<Longrightarrow> owns fd P (if b then m else k)"
  by simp

lemma owns_cond: "(b \<Longrightarrow> owns fd P m) \<Longrightarrow> (\<not> b \<Longrightarrow> owns fd P k) \<Longrightarrow> owns fd P (if b then m else k)"
  by simp

lemma owns_option:
  "(p = None \<Longrightarrow> owns fd P m) \<Longrightarrow> (\<And>x. p = Some x \<Longrightarrow> owns fd P (f x)) \<Longrightarrow>
   owns fd P (case p of None \<Rightarrow> m | Some x \<Rightarrow> f x)"
  by (cases p) simp_all

lemma owns_each [own_intros]: "(\<And>x. owns fd always (f x)) \<Longrightarrow> owns fd always (each_io f xs)"
  by (induction xs) (auto intro: own_intros)

lemma owns_send [own_intros]:
  "owns (req_clientFd req) P (send_str req s)" "owns (req_clientFd req) P (send_buf req n s)"
  unfolding send_str_def send_buf_def by (intro owns_lift own_intros)+

lemma owns_logs [own_intros]:
  "owns fd P (accessLog os f srv v c p sz)" "owns fd P (errorLog os f srv v c p m)"
  unfolding accessLog_def errorLog_def by (intro own_intros)+

lemma owns_responses [own_intros]:
  "owns (req_clientFd req) P (sendErrorResponse os req code msg path)"
  "owns (req_clientFd req) P (serveFile os req)"
  unfolding sendErrorResponse_def serveFile_def sendFile_def Let_def
  by (intro own_intros)+

lemma owns_listing [own_intros]: "owns (req_clientFd req) always (showDirectoryListing os req)"
  unfolding showDirectoryListing_def addFragment_def send_fragment_def Let_def case_prod_beta
  by (intro own_intros owns_option)

lemma owns_final:
  assumes "req_clientFd r = fd"
  shows "owns fd P (sendErrorResponse os r code msg path)" "owns fd P (serveFile os r)"
    "owns fd always (showDirectoryListing os r)"
  using owns_responses [of r] owns_listing [of r] assms by simp_all

lemma owns_handleGetVerb: "req_clientFd req = fd \<Longrightarrow> owns fd always (handleGetVerb os req)"
  unfolding handleGetVerb_def
  by (intro owns_lift)
    (auto simp: Let_def dest!: pathExists_frame openDefaultIndexFile_frame intro!: owns_lift owns_if owns_final)

lemma owns_serveDefaultFile:
  "req_loc req = Some loc \<Longrightarrow> \<not> has_flag (loc_type loc) TYPE_PROXY_PASS \<Longrightarrow> req_clientFd req = fd \<Longrightarrow>
   owns fd always (serveDefaultFile os req)"
  unfolding serveDefaultFile_def
  by (intro owns_lift)
    (auto simp: Let_def dest!: pathExists_frame intro!: owns_lift owns_get owns_if owns_final)

lemma owns_handleTryFiles:
  assumes "req_loc req = Some loc" "\<not> has_flag (loc_type loc) TYPE_PROXY_PASS" "req_clientFd req = fd"
  shows "owns fd always (handleTryFiles os req)"
  unfolding handleTryFiles_def
  by (intro owns_lift)
    (auto simp: Let_def assms dest!: pathExists_frame openDefaultIndexFile_frame
      intro!: owns_lift owns_if owns_final owns_bind owns_basic owns_serveDefaultFile [of _ loc])

lemma owns_processInput:
  assumes "req_clientFd req = fd"
  shows "owns fd served_locally (processInput os req received)"
proof -
  have loc: "local_location l"
    if "served_locally h" "getServerForHost host h = Inr (Some s)" "getDocRoot os s path = Some l" for h host s path l
    using that getServerForHost_in getDocRoot_in by (fastforce simp: served_locally_def list_all_iff)
  have "owns fd served_locally (dispatch os r pr)" if "req_clientFd r = fd" for r pr
    unfolding dispatch_def Let_def case_prod_beta
    by (intro owns_get owns_lift owns_option owns_cond owns_final owns_pre [OF owns_handleGetVerb]
        owns_pre [OF owns_handleTryFiles])
      (simp_all add: that, (drule (2) loc, simp add: local_location_def)+)
  then show ?thesis
    unfolding processInput_def Let_def
    by (intro owns_if owns_lift owns_option owns_final) (simp_all add: assms)
qed

section \<open>The loop keeps the contract\<close>

text \<open>What holds between two events.\<close>

definition calm :: "config_env \<Rightarrow> int \<Rightarrow> gstate \<times> int set \<Rightarrow> bool" where
  "calm env sockFd s = (loop_inv env sockFd s \<and> no_fragments (fst s) \<and> served_locally (fst s))"

lemma served_locally_servers: "g_servers g' = g_servers g \<Longrightarrow> served_locally g' = served_locally g"
  by (simp add: served_locally_def)

lemma registry_frame [simp]:
  "g_servers (setClientConnection c g) = g_servers g" "g_fragments (setClientConnection c g) = g_fragments g"
  "g_servers (snd (removeClientConnection fd g)) = g_servers g"
  "g_fragments (snd (removeClientConnection fd g)) = g_fragments g"
  by (simp_all add: setClientConnection_def removeClientConnection_def case_prod_beta)

lemma handle_event_service:
  assumes calm: "calm env sockFd (g, conns)" and del: "delivered sockFd conns ev"
    and run: "handle_event os sockFd srv ev g = (as, Inr (Go_on, g'))"
  shows "calm env sockFd (g', open_after sockFd ev conns) \<and>
    service (conns, {}) (conn_trace as) = Some (open_after sockFd ev conns, {})"
proof -
  from calm have inv: "loop_inv env sockFd (g, conns)" and g: "no_fragments g" "served_locally g"
    by (simp_all add: calm_def)
  note inv' = handle_event_inv [OF inv del run]
  consider (error) "ev_error ev" | (idle) "\<not> ev_error ev" "\<not> ev_in ev"
    | (accept) "\<not> ev_error ev" "ev_in ev" "ev_fd ev = sockFd" | (serve) "\<not> ev_error ev" "ev_in ev" "ev_fd ev \<noteq> sockFd"
    by blast
  then have "no_fragments g' \<and> g_servers g' = g_servers g \<and>
    service (conns, {}) (conn_trace as) = Some (open_after sockFd ev conns, {})"
  proof cases
    case error
    with run g del show ?thesis
      by (auto simp: handle_event_def io_simps open_after_def delivered_def split: if_splits)
  next
    case idle
    with run g show ?thesis by (auto simp: handle_event_def io_simps open_after_def)
  next
    case accept
    with run have "accept_client sockFd srv ev g = (as, Inr (Go_on, g'))" by (simp add: handle_event_def)
    then obtain fd ip c where "accept_loop (ev_accept ev) = Some (Some (fd, ip))"
      "g' = setClientConnection c g" "as = [EpollAdd fd]" by (rule accept_client_run)
    with accept g del show ?thesis by (simp add: open_after_def delivered_def)
  next
    case serve
    let ?fd = "ev_fd ev"
    from serve run have "serve_client os srv ?fd (ev_received ev) g = (as, Inr (Go_on, g'))"
      by (simp add: handle_event_def)
    then obtain as1 g1 where p: "processInput os (new_request srv ?fd False) (ev_received ev) g = (as1, Inr ((), g1))"
      and as: "as = as1 @ cleanup_actions ?fd g1" and g': "g' = snd (removeClientConnection ?fd g1)"
      by (rule serve_client_run)
    have fd: "req_clientFd (new_request srv ?fd False) = ?fd" by (simp add: new_request_def)
    from one_response_run [OF g p] fd have one: "status_lines ?fd as1 = 1" "no_fragments g1" by simp_all
    from ownsD [OF owns_processInput [OF fd] g(2) p] one(1) have t: "conn_trace as1 = [Answered ?fd]"
      by (simp add: own_trace)
    from inv have "config_ready env g" by (simp add: loop_inv_def)
    from request_frame_run [OF this p] have "g_servers g1 = g_servers g" using request_view_fields(1) by blast
    with one(2) t as serve g' del show ?thesis by (simp add: open_after_def delivered_def)
  qed
  with inv' g(2) served_locally_servers [of g' g] show ?thesis by (simp add: calm_def)
qed

lemma handle_event_waiting_run:
  "handle_event os sockFd srv ev g = (as, Inr (Waiting, g')) \<Longrightarrow> as = [] \<and> g' = g"
  by (auto simp: handle_event_def accept_client_def io_simps split: if_splits option.splits prod.splits
      elim!: bind_io_InrE serve_client_run)

lemma handle_events_service:
  assumes "handle_events os sockFd srv evs g = (as, Inr (f, g'))" "events_delivered sockFd conns evs"
    "calm env sockFd (g, conns)" "f \<noteq> Leave"
  shows "\<exists>conns'. calm env sockFd (g', conns') \<and> service (conns, {}) (conn_trace as) = Some (conns', {}) \<and>
    (f = Go_on \<longrightarrow> conns' = fold (open_after sockFd) evs conns)"
  using assms
proof (induction evs arbitrary: g as conns)
  case Nil
  then show ?case by (auto simp: io_simps)
next
  case (Cons ev evs)
  from Cons.prems(1) obtain as1 f1 g1 as2 where ev: "handle_event os sockFd srv ev g = (as1, Inr (f1, g1))"
    and rest: "(if f1 = Go_on then handle_events os sockFd srv evs else ret_io f1) g1 = (as2, Inr (f, g'))"
    and as: "as = as1 @ as2" by (auto elim: bind_io_InrE)
  show ?case
  proof (cases "f1 = Go_on")
    case True
    from handle_event_service [OF Cons.prems(3) _ ev [unfolded True]] Cons.prems(2)
    have s: "calm env sockFd (g1, open_after sockFd ev conns)"
      "service (conns, {}) (conn_trace as1) = Some (open_after sockFd ev conns, {})" by simp_all
    from Cons.IH [of g1 as2 "open_after sockFd ev conns"] rest True Cons.prems(2,4) s show ?thesis
      by (auto simp: as)
  next
    case False
    with rest Cons.prems(4) have w: "f1 = Waiting" "g' = g1" "f = Waiting" "as2 = []" by (cases f1; simp add: io_simps)+
    with handle_event_waiting_run ev have "as1 = []" "g1 = g" by blast+
    with w as Cons.prems(3) show ?thesis by auto
  qed
qed

lemma server_loop_service:
  assumes "server_loop os sockFd srv ws g = (as, Inr (Waiting, g'))" "rounds_delivered sockFd conns ws"
    "calm env sockFd (g, conns)"
  shows "\<exists>conns'. calm env sockFd (g', conns') \<and> service (conns, {}) (conn_trace as) = Some (conns', {})"
  using assms
proof (induction os sockFd srv ws arbitrary: g as conns rule: server_loop.induct)
  case (4 os sockFd srv evs ws)
  from "4.prems"(1) obtain as1 f g1 as2 where evs: "handle_events os sockFd srv evs g = (as1, Inr (f, g1))"
    and rest: "(if f = Go_on then server_loop os sockFd srv ws else ret_io f) g1 = (as2, Inr (Waiting, g'))"
    and as: "as = as1 @ as2" by (auto elim: bind_io_InrE)
  show ?case
  proof (cases "f = Go_on")
    case True
    from handle_events_service [OF evs, of conns env] "4.prems"(2,3) True
    have s: "calm env sockFd (g1, fold (open_after sockFd) evs conns)"
      "service (conns, {}) (conn_trace as1) = Some (fold (open_after sockFd) evs conns, {})" by auto
    from "4.IH" [of f g1 as2 "fold (open_after sockFd) evs conns"] True rest "4.prems"(2) s show ?thesis
      by (auto simp: as)
  next
    case False
    with rest have "f = Waiting" "g' = g1" "as2 = []" by (simp_all add: io_simps)
    with handle_events_service [OF evs, of conns env] "4.prems"(2,3) show ?thesis by (auto simp: as)
  qed
qed (auto simp: io_simps)

text \<open>A plain server that serves its locations itself opens, answers and closes connections as the
  contract of the service says, whatever events it gets: nobody is answered who is not connected, nobody
  twice, every answered connection is closed, no connection is closed twice, and at every point those
  that are open are the ones in the registry.\<close>

lemma server_serves_connections:
  assumes "config_ready env g" "g_clients g = []" "no_fragments g" "served_locally g"
    and "rounds_delivered (le_socket le) {} ws"
    and "server_main os ep le add ws portNum srv g = (as, Inr (Waiting, g'))"
  shows "\<exists>tr. conn_trace as = (if le_listen le then [] else [Closed (le_socket le)]) @ Opened (le_socket le) # tr \<and>
    service ({}, {}) tr = Some (set (client_fds g'), {}) \<and>
    (\<forall>fd. count_list tr (Opened fd) = count_list tr (Closed fd) + of_bool (fd \<in> set (client_fds g')) \<and>
       count_list tr (Answered fd) \<le> count_list tr (Closed fd))"
proof -
  have same: "snd (removeClientConnection fd g) = g" for fd
    using assms(2) by (simp add: removeClientConnection_def)
  from assms(6) obtain bs where l: "server_loop os (le_socket le) srv ws g = (bs, Inr (Waiting, g'))"
    and t: "conn_trace as = (if le_listen le then [] else [Closed (le_socket le)]) @ Opened (le_socket le) # conn_trace bs"
    by (cases "server_loop os (le_socket le) srv ws g")
      (auto simp: server_main_def epollCreate_def createBindAndListen_def io_simps Let_def same bind_io_assoc
        split: if_splits elim!: bind_io_InrE)
  have "calm env (le_socket le) (g, {})"
    using assms(1-4) by (simp add: calm_def loop_inv_def client_fds_def)
  from server_loop_service [OF l assms(5) this] obtain conns where
    "calm env (le_socket le) (g', conns)" "service ({}, {}) (conn_trace bs) = Some (conns, {})" by blast
  then have s: "service ({}, {}) (conn_trace bs) = Some (set (client_fds g'), {})"
    by (simp add: calm_def loop_inv_def)
  with service_counts(2,3) [OF s] t show ?thesis by fastforce
qed

text \<open>A connection is accepted, sends an empty request, and is answered and closed.\<close>

lemma server_serves_connections_example:
  "\<exists>as g' tr. server_main ex_os 4 ex_listen True [Events [ex_accept, ex_input]] 80 ex_srv ex_state = (as, Inr (Waiting, g')) \<and>
     conn_trace as = Opened 3 # tr \<and> service ({}, {}) tr = Some ({}, {}) \<and>
     count_list tr (Opened 7) = count_list tr (Closed 7)"
proof -
  let ?ws = "[Events [ex_accept, ex_input]]"
  let ?c = "\<lparr>cl_fd = 7, cl_server = ex_srv, cl_ip = ''10.0.0.1'', cl_ctx = None\<rparr>"
  let ?g = "setClientConnection ?c ex_state"
  have a: "handle_event ex_os 3 ex_srv ex_accept ex_state = ([EpollAdd 7], Inr (Go_on, ?g))"
    by (simp add: io_simps handle_event_def ex_accept_def accept_client_def queueClientConnection_def Let_def bind_io_assoc)
  have "server_live ?g ex_srv" using ex_live by (simp add: setClientConnection_def server_live_def)
  moreover have "getVersion ?g = getVersion ex_state" by (simp add: setClientConnection_def getVersion_def)
  then have "length (fmt_s (getVersion ?g)) \<le> 100" using ex_version by simp
  ultimately have "server_live ?g ex_srv" "length (fmt_s (getVersion ?g)) \<le> 100" .
  from empty_request_run [OF ex_sane this ex_empty_line, of 7 False] obtain bs where
    "processInput ex_os (new_request ex_srv 7 False) [] ?g = (bs, Inr ((), ?g))" by blast
  then have b: "handle_event ex_os 3 ex_srv ex_input ?g =
      (bs @ cleanup_actions 7 ?g, Inr (Go_on, snd (removeClientConnection 7 ?g)))"
    by (simp add: handle_event_def ex_input_def serve_client_def bind_io_ok io_simps)
  let ?g' = "snd (removeClientConnection 7 ?g)"
  have e: "client_fds ?g' = []"
    by (simp add: client_fds_def removeClientConnection_def setClientConnection_def ex_state_def initial_state_def)
  have "snd (server_main ex_os 4 ex_listen True ?ws 80 ex_srv ex_state) = Inr (Waiting, ?g')"
    by (simp add: server_main_def epollCreate_def createBindAndListen_def ex_listen_def Let_def io_simps
        bind_io_assoc bind_io_ok [of "handle_event ex_os 3 ex_srv ex_accept", OF a]
        bind_io_ok [of "handle_event ex_os 3 ex_srv ex_input", OF b])
  then obtain as where r: "server_main ex_os 4 ex_listen True ?ws 80 ex_srv ex_state = (as, Inr (Waiting, ?g'))"
    by (metis prod.collapse)
  have h: "g_clients ex_state = []" "no_fragments ex_state" "served_locally ex_state"
    "rounds_delivered (le_socket ex_listen) {} ?ws" "le_listen ex_listen" "le_socket ex_listen = 3"
    by code_simp+
  from server_serves_connections [OF ex_ready h(1-4) r] obtain tr where
    "conn_trace as = Opened 3 # tr" "service ({}, {}) tr = Some ({}, {})"
    "count_list tr (Opened 7) = count_list tr (Closed 7)"
    using h(5,6) e by auto
  with r show ?thesis by blast
qed

end
