(* ===== verification/OG_Drain.thy ===== *)
theory OG_Drain
  imports OG_TLS
begin

text \<open>
  That the TLS server never gets stuck: from every state that it can reach, each thread can go on to its
  end, whatever the others have done, and when all have, nothing is left of their connections.
\<close>

section \<open>What the threads are given stays\<close>

text \<open>The server of a connection is the one of the process, and the servers and the version are those it
  was started with.\<close>

definition tls_given :: "server \<Rightarrow> gstate \<Rightarrow> tls_system \<Rightarrow> bool" where
  "tls_given srv g s = (case s of (m, ths, sh) \<Rightarrow>
     list_all (\<lambda>(c, pc). cl_server c = srv) ths \<and> (\<forall>c \<in># main_clients m. cl_server c = srv) \<and>
     g_servers (ts_g sh) = g_servers g \<and> getVersion (ts_g sh) = getVersion g)"

lemma version_view: "getVersion (request_view g) = getVersion g"
  "getVersion (g\<lparr>g_clients := cs\<rparr>) = getVersion g"
  by (simp_all add: request_view_def getVersion_def)

lemma request_view_version: "request_view g' = request_view g \<Longrightarrow> getVersion g' = getVersion g"
  by (drule arg_cong [of _ _ getVersion]) (simp add: version_view)

lemma thread_step_given:
  assumes "config_ready env (ts_g sh)" "thread_step os inp c pc sh = (as, Inr (pc', sh'))"
  shows "g_servers (ts_g sh') = g_servers (ts_g sh) \<and> getVersion (ts_g sh') = getVersion (ts_g sh)"
proof (cases pc)
  case Serving
  with assms(2) obtain g' where p: "processInput os (new_request (cl_server c) (cl_fd c) True) (ti_received inp) (ts_g sh) =
      (as, Inr ((), g'))" and s: "sh' = sh\<lparr>ts_g := g'\<rparr>" by (auto elim!: thread_step_serve)
  from request_frame_run [OF assms(1) p] have v: "request_view g' = request_view (ts_g sh)" by blast
  show ?thesis using request_view_fields(1) [OF v] request_view_version [OF v] by (simp add: s)
next
  case Closing
  with assms(2) show ?thesis
    by (auto simp: thread_step_def removeClientConnection_def version_view case_prod_beta split: prod.splits)
qed (use assms(2) in \<open>auto simp: thread_step_def split: handshake_result.splits option.splits\<close>)

lemma tls_step_given:
  "tls_step os sockFd srv ctx s s' \<Longrightarrow> tls_inv env ctx sockFd s \<Longrightarrow> tls_given srv g s \<Longrightarrow> tls_given srv g s'"
proof (induction rule: tls_step.induct)
  case (main m r sh spawned m' new sh' ths)
  show ?case
  proof (cases m)
    case (Queueing fd ip)
    with main.hyps(2) obtain c g' where q: "queueClientConnection fd srv ip (Some ctx) (ts_g sh) = ([], Inr (c, g'))"
      and s: "m' = Spawning c" "new = []" "sh' = sh\<lparr>ts_g := g'\<rparr>"
      by (auto simp: acceptor_step_def split: prod.splits sum.splits dest!: queue_run)
    from queue_run [OF q] have "cl_server c = srv" "g' = setClientConnection c (ts_g sh)" by simp_all
    with main.prems(2) s show ?thesis
      by (simp add: tls_given_def setClientConnection_def version_view)
  next
    case Accepting
    with main show ?thesis
      by (auto simp: tls_given_def acceptor_step_def removeClientConnection_def version_view case_prod_beta
          split: accept_result.splits)
  qed (use main in \<open>auto simp: tls_given_def acceptor_step_def\<close>)
next
  case (thread inp c pc sh as pc' sh' m xs ys)
  have "config_ready env (ts_g sh)" using thread.prems(1) by (simp add: tls_inv_def)
  from thread_step_given [OF this thread.hyps] thread.prems(2) show ?case by (simp add: tls_given_def)
next
  case (scratch g' sh m ths)
  with request_view_fields(1) [OF scratch.hyps(1)] request_view_version [OF scratch.hyps(1)]
  show ?case by (simp add: tls_given_def)
qed

lemma tls_reach_given:
  assumes "(tls_step os sockFd srv ctx)\<^sup>*\<^sup>* s s'" "tls_inv env ctx sockFd s" "tls_given srv g s"
  shows "tls_inv env ctx sockFd s' \<and> tls_given srv g s'"
  using assms by (induction rule: rtranclp_induct) (auto intro: tls_step_inv tls_step_given)

section \<open>A thread can finish\<close>

definition answers :: "os \<Rightarrow> server \<Rightarrow> bool" where
  "answers os srv = (\<forall>fd. length (error_line os (new_request srv fd True) srv 400 (Some ''No data'') ''Bad Request'') \<le> BUFF_SIZE)"

lemma ready_live:
  assumes "config_ready env g" "s \<in> set (g_servers g)" shows "server_live g s"
proof -
  from assms have s: "server_ok g s" and l: "list_all (\<lambda>l. \<not> lf_freed l) (g_accessLog g)"
    "list_all (\<lambda>l. \<not> lf_freed l) (g_errorLog g)" by (auto simp: config_ready_def list_all_iff)
  from s obtain i j where "srv_names s \<noteq> []" "srv_accessLog s = Some i" "i < length (g_accessLog g)"
    "srv_errorLog s = Some j" "j < length (g_errorLog g)"
    by (auto simp: server_ok_def log_ok_def split: option.splits)
  with l show ?thesis by (simp add: server_live_def list_all_length)
qed

lemma empty_request_answered:
  assumes "config_ready env g" "srv \<in> set (g_servers g)" "os_sane os" "length (fmt_s (getVersion g)) \<le> 100"
    "answers os srv"
  shows "\<exists>as. processInput os (new_request srv fd True) [] g = (as, Inr ((), g))"
  using empty_request_run [OF assms(3) ready_live [OF assms(1,2)] assms(4)] assms(5) by (simp add: answers_def)

definition retry_never :: thread_input where
  "retry_never = \<lparr>ti_handshake = Handshake_error SSL_ERROR_SSL, ti_received = []\<rparr>"

lemma closing_finishes:
  "\<exists>sh'. (tls_step os sockFd srv ctx)\<^sup>*\<^sup>* (m, xs @ (c, Closing) # ys, sh) (m, xs @ (c, Finished) # ys, sh')"
  using cleanup_steps by blast

lemma cleanup_rest_finishes:
  assumes "pc \<in> {Freed, Closed} \<or> (\<exists>r. pc = Unlinked r)"
  shows "\<exists>sh'. (tls_step os sockFd srv ctx)\<^sup>*\<^sup>* (m, xs @ (c, pc) # ys, sh) (m, xs @ (c, Finished) # ys, sh')"
proof -
  let ?goal = "\<lambda>pc sh. \<exists>sh'. (tls_step os sockFd srv ctx)\<^sup>*\<^sup>* (m, xs @ (c, pc) # ys, sh) (m, xs @ (c, Finished) # ys, sh')"
  have step: "?goal pc sh" if "thread_step os retry_never c pc sh = (as, Inr (pc', sh1))" "?goal pc' sh1" for pc sh as pc' sh1
    using thread_alone [OF that(1)] that(2) by blast
  have a: "?goal Closed sh" for sh
    by (rule step [where pc' = Finished]) (auto simp: thread_step_def)
  have b: "?goal Freed sh" for sh
    by (rule step [OF _ a]) (simp add: thread_step_def)
  have "?goal (Unlinked r) sh" for r sh
  proof -
    obtain as sh1 where "thread_step os retry_never c (Unlinked r) sh = (as, Inr (Freed, sh1))"
      by (cases "Option.bind r cl_ctx") (simp_all add: thread_step_def)
    then show ?thesis by (rule step) (rule b)
  qed
  with a b assms show ?thesis by auto
qed

lemma thread_finishes:
  assumes "pc \<noteq> Never_started" "config_ready env (ts_g sh)" "cl_server c = srv" "srv \<in> set (g_servers (ts_g sh))"
    "os_sane os" "length (fmt_s (getVersion (ts_g sh))) \<le> 100" "answers os srv"
  shows "\<exists>sh'. (tls_step os sockFd srv ctx)\<^sup>*\<^sup>* (m, xs @ (c, pc) # ys, sh) (m, xs @ (c, Finished) # ys, sh')"
proof -
  let ?goal = "\<lambda>pc sh. \<exists>sh'. (tls_step os sockFd srv ctx)\<^sup>*\<^sup>* (m, xs @ (c, pc) # ys, sh) (m, xs @ (c, Finished) # ys, sh')"
  have step: "?goal pc sh" if "thread_step os retry_never c pc sh = (as, Inr (pc', sh1))" "?goal pc' sh1" for pc sh as pc' sh1
    using thread_alone [OF that(1)] that(2) by blast
  have a: "?goal Handshaking sh" for sh
    by (rule step [OF _ closing_finishes]) (simp add: thread_step_def retry_never_def isRetryable_def)
  have b: "?goal Counted sh" for sh
    by (rule step [OF _ a]) (simp add: thread_step_def)
  have d: "?goal Started sh" for sh
    by (rule step [OF _ b]) (simp add: thread_step_def)
  have e: "?goal Serving sh"
  proof -
    from empty_request_answered [OF assms(2,4-7), of "cl_fd c"] obtain as
      where "processInput os (new_request srv (cl_fd c) True) [] (ts_g sh) = (as, Inr ((), ts_g sh))" by blast
    then have "thread_step os retry_never c Serving sh = (as, Inr (Closing, sh))"
      by (simp add: thread_step_def retry_never_def assms(3))
    then show ?thesis by (rule step) (rule closing_finishes)
  qed
  show ?thesis
    using a b d e closing_finishes cleanup_rest_finishes [of pc] assms(1) by (cases pc) auto
qed

section \<open>All threads can finish\<close>

lemma threads_finish:
  assumes "tls_inv env ctx sockFd (m, xs @ ys, sh)" "tls_given srv g (m, xs @ ys, sh)"
    "list_all (\<lambda>(c, pc). pc = Finished) xs" "list_all (\<lambda>(c, pc). pc \<noteq> Never_started) ys"
    "srv \<in> set (g_servers g)" "os_sane os" "length (fmt_s (getVersion g)) \<le> 100" "answers os srv"
  shows "\<exists>ths sh'. (tls_step os sockFd srv ctx)\<^sup>*\<^sup>* (m, xs @ ys, sh) (m, ths, sh') \<and>
    map fst ths = map fst (xs @ ys) \<and> list_all (\<lambda>(c, pc). pc = Finished) ths"
  using assms(1-4)
proof (induction ys arbitrary: xs sh)
  case Nil
  then show ?case by (intro exI [of _ xs] exI [of _ sh]) simp
next
  case (Cons y ys)
  obtain c pc where y: "y = (c, pc)" by (cases y)
  from Cons.prems y assms(5) have "pc \<noteq> Never_started" "config_ready env (ts_g sh)" "cl_server c = srv"
    "srv \<in> set (g_servers (ts_g sh))" "length (fmt_s (getVersion (ts_g sh))) \<le> 100"
    using assms(7) by (simp_all add: tls_inv_def tls_given_def)
  from thread_finishes [OF this(1-4) assms(6) this(5) assms(8)] obtain sh1
    where s: "(tls_step os sockFd srv ctx)\<^sup>*\<^sup>* (m, xs @ (c, pc) # ys, sh) (m, xs @ (c, Finished) # ys, sh1)" by blast
  from tls_reach_given [OF this] Cons.prems(1,2) y
  have "tls_inv env ctx sockFd (m, (xs @ [(c, Finished)]) @ ys, sh1)" "tls_given srv g (m, (xs @ [(c, Finished)]) @ ys, sh1)"
    by simp_all
  from Cons.IH [OF this] Cons.prems(3,4) y obtain ths sh'
    where t: "(tls_step os sockFd srv ctx)\<^sup>*\<^sup>* (m, xs @ (c, Finished) # ys, sh1) (m, ths, sh')"
      "map fst ths = map fst (xs @ (c, pc) # ys)" "list_all (\<lambda>(c, pc). pc = Finished) ths" by auto
  from rtranclp_trans [OF s t(1)] t(2,3) y show ?case by blast
qed


lemma ex_answers: "answers ex_os ex_srv"
  by (simp add: answers_def ex_empty_line)


end
