(* ===== verification/OG_Local.thy ===== *)
theory OG_Local
  imports OG_ConfigProps OG_DispatchProps
begin

text \<open>
  Configurations that only serve files: a condition on the syntax of a configuration, and the proof that
  the actions of the parser and the checks behind it turn such a configuration into servers whose
  locations are all served by the server itself.
\<close>

section \<open>The condition\<close>

definition known_format :: "string list \<Rightarrow> bool" where
  "known_format ts = (case ts of t1 # t2 # t3 # _ \<Rightarrow> t1 = ''$uri'' \<and> t2 = ''$uri/'' | _ \<Rightarrow> False)"

fun local_location_directive :: "location_directive \<Rightarrow> bool" where
  "local_location_directive (L_proxy_pass pr h p) = False"
| "local_location_directive (L_fastcgi_pass h p) = False"
| "local_location_directive (L_try_files ts) = known_format ts"
| "local_location_directive _ = True"

fun local_server_directive :: "server_directive \<Rightarrow> bool" where
  "local_server_directive (S_location t m ds) = list_all local_location_directive ds"
| "local_server_directive _ = True"

fun local_http_directive :: "http_directive \<Rightarrow> bool" where
  "local_http_directive (H_server ds) = list_all local_server_directive ds"
| "local_http_directive _ = True"

definition local_config :: "config \<Rightarrow> bool" where
  "local_config c = list_all local_http_directive (cfg_http c)"

section \<open>Actions under a condition\<close>

text \<open>As \<open>action_system\<close>, for actions that keep the invariant only if they satisfy a condition.\<close>

locale guarded_system =
  fixes act :: "'a \<Rightarrow> 's \<Rightarrow> 's res"
    and inv :: "'s \<Rightarrow> bool"
    and ok :: "'a \<Rightarrow> bool"
  assumes act_keeps: "ok a \<Longrightarrow> inv s \<Longrightarrow> act a s = Inr s' \<Longrightarrow> inv s'"
begin

lemma run_keeps: "list_all ok as \<Longrightarrow> inv s \<Longrightarrow> run_res act as s = Inr s' \<Longrightarrow> inv s'"
  by (induction as arbitrary: s) (auto simp: res_simps dest: act_keeps)

end

sublocale action_system \<subseteq> unguarded: guarded_system act inv "\<lambda>_. True"
  by unfold_locales (rule act_keeps)

section \<open>The invariant\<close>

text \<open>What the condition is about: targets collected for \<open>try_files\<close>, locations and their protocol, servers.\<close>

definition local_view :: "pstate \<Rightarrow> string list \<times> location list \<times> int \<times> server list" where
  "local_view s = (p_tryTargets s, p_locations s, p_protocol s, g_servers (ps_g s))"

definition local_state :: "pstate \<Rightarrow> bool" where
  "local_state s = (p_tryTargets s = [] \<and> list_all local_location (p_locations s) \<and> served_locally (ps_g s))"

lemma local_state_view: "local_view s' = local_view s \<Longrightarrow> local_state s \<Longrightarrow> local_state s'"
  by (simp add: local_view_def local_state_def served_locally_def)

lemma scalar_view [simp]:
  "local_view (f_pid p s) = local_view s" "local_view (f_include q s) = local_view s"
  "local_view (f_default_type t s) = local_view s" "local_view (f_trace b s) = local_view s"
  "local_view (f_sendfile b s) = local_view s" "local_view (f_tcpnopush b s) = local_view s"
  "local_view (f_user u grp s) = local_view s" "local_view (f_server_tokens b s) = local_view s"
  "local_view (f_keepalive_timeout n s) = local_view s" "local_view (f_workerProcesses n s) = local_view s"
  "local_view (f_workerConnections n s) = local_view s" "local_view (f_autoindex b s) = local_view s"
  "local_view (f_indexFile i s) = local_view s" "local_view (f_ssl_certificate c s) = local_view s"
  "local_view (f_ssl_certificate_key c s) = local_view s" "local_view (f_upstreams name s) = local_view s"
  by (simp_all add: local_view_def f_pid_def f_include_def f_default_type_def f_trace_def f_sendfile_def
      f_tcpnopush_def f_user_def f_server_tokens_def f_keepalive_timeout_def f_workerProcesses_def
      f_workerConnections_def f_autoindex_def f_indexFile_def f_ssl_certificate_def
      f_ssl_certificate_key_def f_upstreams_def state_defs Let_def setUpstreamList_def split: option.split)

lemma fold_view: "(\<And>a s. local_view (f a s) = local_view s) \<Longrightarrow> local_view (fold f as s) = local_view s"
  by (induction as arbitrary: s) simp_all

lemma upstream_view [simp]: "local_view (exec_upstream u s) = local_view s"
proof -
  have "local_view (push_nodes n v s) = local_view s" for n v s
    by (induction n arbitrary: s) (simp_all add: local_view_def)
  then show ?thesis by (cases u) (simp add: f_upstream_def)
qed

lemma res_view:
  "f_server_name n t s = Inr s' \<Longrightarrow> local_view s' = local_view s"
  "f_listen nm pn s = Inr s' \<Longrightarrow> local_view s' = local_view s"
  "f_tls s = Inr s' \<Longrightarrow> local_view s' = local_view s"
  "f_access_log p t' s = Inr s' \<Longrightarrow> local_view s' = local_view s"
  "f_error_log p s = Inr s' \<Longrightarrow> local_view s' = local_view s"
  "exec_ssl d s = Inr s' \<Longrightarrow> local_view s' = local_view s"
  "exec_fcgi e s = Inr s' \<Longrightarrow> local_view s' = local_view s"
  by (auto simp: local_view_def f_server_name_def f_listen_def f_tls_def f_access_log_def f_error_log_def
      Let_def res_simps state_defs setAccessLog_def setErrorLog_def split: if_splits option.splits list.splits)
    (cases d; cases e; auto simp: res_simps local_view_def f_ssl_certificate_def f_ssl_certificate_key_def)+

section \<open>The actions of a location\<close>

lemma local_more:
  "local_location l \<Longrightarrow> local_location (l\<lparr>loc_root := r\<rparr>)"
  "local_location l \<Longrightarrow> local_location (l\<lparr>loc_expires := e\<rparr>)"
  "local_location l \<Longrightarrow> local_location (l\<lparr>loc_type := loc_type l OR TYPE_DOC_ROOT, loc_root := r\<rparr>)"
  "local_location l \<Longrightarrow> local_location (l\<lparr>loc_root := r, loc_type := loc_type l OR TYPE_DOC_ROOT\<rparr>)"
  "local_location l \<Longrightarrow> local_location (l\<lparr>loc_matchType := mt, loc_match := m, loc_protocol := pr\<rparr>)"
  "local_location l \<Longrightarrow> local_location (l\<lparr>loc_matchType := mt, loc_match := m, loc_protocol := pr, loc_root := r\<rparr>)"
  "local_location l \<Longrightarrow> known_format ts \<Longrightarrow>
    local_location (l\<lparr>loc_type := loc_type l OR TYPE_TRY_FILES, loc_matchType := mt, loc_tryTarget := ts\<rparr>)"
  by (auto simp: local_location_def checkTryFilesFormat_def known_format_def flag_simps split: list.splits)

lemma try_targets:
  "p_tryTargets (fold f_try_target ts s) = p_tryTargets s @ ts"
  "p_locations (fold f_try_target ts s) = p_locations s" "ps_g (fold f_try_target ts s) = ps_g s"
  by (induction ts arbitrary: s) (simp_all add: f_try_target_def)

lemma local_location_actions:
  "f_root r s = Inr s' \<Longrightarrow> local_state s \<Longrightarrow> local_state s'"
  "f_expires e s = Inr s' \<Longrightarrow> local_state s \<Longrightarrow> local_state s'"
  "f_location t m s = Inr s' \<Longrightarrow> local_state s \<Longrightarrow> local_state s'"
  by (auto simp: local_state_def f_root_def f_expires_def f_location_def res_simps Let_def
      split: list.splits option.splits intro: local_more)

lemma local_try_files:
  "f_try_files (fold f_try_target ts s) = Inr s' \<Longrightarrow> known_format ts \<Longrightarrow> local_state s \<Longrightarrow> local_state s'"
  by (auto simp: local_state_def f_try_files_def Let_def try_targets split: list.splits intro: local_more)

interpretation location_local: guarded_system "exec_location_directive dns" local_state local_location_directive for dns
proof unfold_locales
  fix a s s'
  assume ok: "local_location_directive a" and i: "local_state s" and e: "exec_location_directive dns a s = Inr s'"
  show "local_state s'"
  proof (cases a)
    case (L_try_files ts)
    with ok e show ?thesis using local_try_files i by simp
  next
    case (L_fastcgi_param d)
    with e have "exec_fcgi d s = Inr s'" by simp
    from res_view(7) [OF this] i show ?thesis by (rule local_state_view)
  next
    case (L_default_type t)
    with e have "s' = f_default_type t s" by simp
    then show ?thesis using local_state_view [of s' s] i by simp
  qed (use ok i e in \<open>auto dest: local_location_actions\<close>)
qed

section \<open>Servers and the whole configuration\<close>

lemma run_view:
  assumes "\<And>a s s'. act a s = Inr s' \<Longrightarrow> view s' = view s" "run_res act as s = Inr s'"
  shows "view s' = view s"
  using assms(2)
proof (induction as arbitrary: s)
  case (Cons a as)
  then obtain s1 where "act a s = Inr s1" "run_res act as s1 = Inr s'" by (auto simp: res_simps)
  with Cons.IH assms(1) show ?case by metis
qed simp

lemma listen_view: "exec_listen_option a s = Inr s' \<Longrightarrow> local_view s' = local_view s"
  by (cases a) (auto dest: res_view)

interpretation server_local: guarded_system "exec_server_directive dns" local_state local_server_directive for dns
proof unfold_locales
  fix a s s'
  assume ok: "local_server_directive a" and i: "local_state s" and e: "exec_server_directive dns a s = Inr s'"
  have view: "local_view s' = local_view s \<Longrightarrow> local_state s'" using i by (rule local_state_view [rotated])
  show "local_state s'"
  proof (cases a)
    case (S_location t m ds)
    with e obtain s1 where "run_res (exec_location_directive dns) ds s = Inr s1" "f_location t m s1 = Inr s'"
      by (auto simp: res_simps)
    with location_local.run_keeps [OF _ i] ok S_location show ?thesis
      by (auto intro: local_location_actions(3))
  next
    case (S_root p)
    with e i show ?thesis by (auto intro: local_location_actions(1))
  next
    case (S_server_name ns)
    with e have "run_res (\<lambda>(n, t). f_server_name (Heap n) t) ns s = Inr s'" by simp
    then have "local_view s' = local_view s" by (rule run_view [rotated]) (auto dest: res_view)
    then show ?thesis by (rule view)
  next
    case (S_listen os)
    with e have "run_res exec_listen_option os s = Inr s'" by simp
    then have "local_view s' = local_view s" by (rule run_view [rotated]) (rule listen_view)
    then show ?thesis by (rule view)
  next
    case (S_index fs)
    with e have "s' = fold f_indexFile fs s" by simp
    then show ?thesis by (intro view) (simp add: fold_view)
  qed (rule view, (use e in \<open>auto dest: res_view\<close>)[1])+
qed

lemma local_fill_roots: "list_all local_location ls \<Longrightarrow> list_all local_location (fill_roots r ls)"
  by (auto simp: fill_roots_def list_all_iff intro: local_more)

lemma local_f_server:
  assumes "f_server s = Inr s'" "local_state s"
  shows "local_state s'"
proof -
  let ?ls = "p_locations s"
  from assms(1) have ne: "?ls \<noteq> []" by (auto simp: f_server_def res_simps take_list_def split: if_splits)
  have "list_all local_location ?ls" using assms(2) by (simp add: local_state_def)
  moreover from this have "list_all local_location [last ?ls]" "list_all local_location (butlast ?ls)"
    using ne by (auto simp: list_all_iff dest: in_set_butlastD)
  ultimately show ?thesis using assms local_fill_roots
    by (auto simp: f_server_def res_simps take_back_eq [OF ne] local_state_def served_locally_def
        setServerList_def Let_def split: if_splits)
qed

interpretation http_local: guarded_system "exec_http_directive dns" local_state local_http_directive for dns
proof unfold_locales
  fix a s s'
  assume ok: "local_http_directive a" and i: "local_state s" and e: "exec_http_directive dns a s = Inr s'"
  have view: "local_view s' = local_view s \<Longrightarrow> local_state s'" using i by (rule local_state_view [rotated])
  show "local_state s'"
  proof (cases a)
    case (H_server ds)
    with e obtain s1 where "run_res (exec_server_directive dns) ds s = Inr s1" "f_server s1 = Inr s'"
      by (auto simp: res_simps)
    with server_local.run_keeps [OF _ i] ok H_server show ?thesis by (auto intro: local_f_server)
  next
    case (H_index fs)
    with e have "s' = fold f_indexFile fs s" by simp
    then show ?thesis by (intro view) (simp add: fold_view)
  next
    case (H_upstream n us)
    with e have "s' = f_upstreams n (fold exec_upstream us s)" by simp
    then show ?thesis by (intro view) (simp add: fold_view)
  qed (rule view, (use e in \<open>auto dest: res_view\<close>)[1])+
qed

lemma main_view: "exec_main_directive a s = Inr s' \<Longrightarrow> local_view s' = local_view s"
  by (cases a) (auto dest: res_view)

lemma local_yyparse:
  assumes "yyparse dns c s = Inr s'" "local_config c" "local_state s"
  shows "served_locally (ps_g s')"
proof -
  from assms(1) obtain s1 s2 where m: "run_res exec_main_directive (cfg_main c) s = Inr s1"
    and h: "run_res (exec_http_directive dns) (cfg_http c) (fold f_workerConnections (cfg_events c) s1) = Inr s2"
    and s': "s' = f_http s2" by (auto simp: yyparse_def res_simps)
  have "local_view s1 = local_view s" using m by (rule run_view [rotated]) (rule main_view)
  then have "local_view (fold f_workerConnections (cfg_events c) s1) = local_view s" by (simp add: fold_view)
  from local_state_view [OF this assms(3)] h assms(2) have "local_state s2"
    by (auto simp: local_config_def intro: http_local.run_keeps)
  then show ?thesis by (simp add: s' f_http_def local_state_def served_locally_def setServerList_def)
qed

lemma local_defaults: "fresh_gstate g \<Longrightarrow> local_state (setup_defaults g)"
proof -
  assume f: "fresh_gstate g"
  have "p_tryTargets (setup_defaults g) = []"
    by (simp add: setup_defaults_def initial_pstate_def defaultType_def defaultIndexFile_def
        defaultLocation_def defaultServerName_def defaultPort_def defaultErrorLog_def defaultAccessLog_def)
  moreover have "local_location default_location"
    by (simp add: local_location_def default_location_def flag_simps)
  ultimately show ?thesis using setup_defaults_fields [OF f]
    by (simp add: local_state_def served_locally_def)
qed

text \<open>An accepted configuration has the servers that the actions have made.\<close>

lemma parseConfig_servers:
  assumes "parseConfig env (Parsed c) g = Inr g'" "fresh_gstate g"
  obtains s where "yyparse (ce_resolve env) c (setup_defaults g) = Inr s" "g_servers g' = g_servers (ps_g s)"
proof -
  from assms(1) obtain s g1 where y: "yyparse (ce_resolve env) c (setup_defaults g) = Inr s"
    and k: "checkConfig env (ps_g s) = Inr g1" and l: "openLogFiles env g1 = Inr g'"
    by (auto simp: parseConfig_def res_simps)
  have "g_defaultServer g"
    using parseConfig_no_default_run [OF assms(2), of env "Parsed c"] assms(1) by fastforce
  then have "g_defaultServer (ps_g s)"
    using yyparse_flags [OF setup_defaults_pinv [OF assms(2)] y] setup_defaults_fields(13) [OF assms(2)]
    by (simp add: g_frame_def)
  with k obtain ss where c: "check_each env (ps_g s) (g_servers (ps_g s)) = Inr ss" and g1: "g1 = (ps_g s)\<lparr>g_servers := ss\<rparr>"
    by (auto simp: checkConfig_def checkServers_def res_simps split: if_splits)
  from c yyparse_ok(1) [OF assms(2) y] have "ss = g_servers (ps_g s)"
    by (auto simp: gstate_ok_def intro: check_each_id)
  moreover from l g1 have "g_servers g' = ss" by (auto simp: openLogFiles_def res_simps)
  ultimately show ?thesis using y that by simp
qed

text \<open>A configuration without \<open>proxy_pass\<close> and \<open>fastcgi_pass\<close> whose \<open>try_files\<close> have the known
  format is served locally once it is accepted.\<close>

lemma local_parseConfig:
  assumes "parseConfig env (Parsed c) g = Inr g'" "fresh_gstate g" "local_config c"
  shows "served_locally g'"
  using assms(1,2)
proof (rule parseConfig_servers)
  fix s assume "yyparse (ce_resolve env) c (setup_defaults g) = Inr s" "g_servers g' = g_servers (ps_g s)"
  with local_yyparse [OF _ assms(3) local_defaults [OF assms(2)]] show ?thesis by (simp add: served_locally_def)
qed

end
