(* ===== verification/OG_VHosts.thy ===== *)
theory OG_VHosts
  imports OG_Local
begin

text \<open>
  Virtual hosts, from the configuration to the request: the names and ports of each server are those of
  its block in the configuration, in the order of the blocks, and the host header of a request selects
  the block that it names.
\<close>

section \<open>The hosts of a configuration\<close>

fun listen_names :: "listen_option \<Rightarrow> string list" where
  "listen_names (O_name h) = [h]"
| "listen_names O_wildcard = [''*'']"
| "listen_names (O_name_port h n) = [h]"
| "listen_names (O_wildcard_port n) = [''*'']"
| "listen_names _ = []"

fun listen_ports :: "listen_option \<Rightarrow> int list" where
  "listen_ports (O_port n) = [n]"
| "listen_ports (O_name_port h n) = [n]"
| "listen_ports (O_wildcard_port n) = [n]"
| "listen_ports _ = []"

fun directive_names :: "server_directive \<Rightarrow> string list" where
  "directive_names (S_server_name ns) = map fst ns"
| "directive_names (S_listen os) = concat (map listen_names os)"
| "directive_names _ = []"

fun directive_ports :: "server_directive \<Rightarrow> int list" where
  "directive_ports (S_listen os) = filter (\<lambda>n. 0 < n) (concat (map listen_ports os))"
| "directive_ports _ = []"

text \<open>The first occurrences, in their order; the default when there is none.\<close>

definition firsts :: "'a list \<Rightarrow> 'a list" where
  "firsts xs = rev (fold List.insert xs [])"

definition or_default :: "'a \<Rightarrow> 'a list \<Rightarrow> 'a list" where
  "or_default d xs = (if xs = [] then [d] else xs)"

definition block_host :: "server_directive list \<Rightarrow> string list \<times> int list" where
  "block_host ds =
     (or_default ''*'' (firsts (concat (map directive_names ds))),
      or_default 8080 (firsts (concat (map directive_ports ds))))"

fun blocks_of :: "http_directive list \<Rightarrow> server_directive list list" where
  "blocks_of [] = []"
| "blocks_of (H_server ds # hs) = ds # blocks_of hs"
| "blocks_of (_ # hs) = blocks_of hs"

text \<open>The server of the \<open>http\<close> block comes last, with the defaults.\<close>

definition hosts :: "config \<Rightarrow> (string list \<times> int list) list" where
  "hosts c = map block_host (blocks_of (cfg_http c)) @ [([''*''], [8080])]"

definition host_entry :: "server \<Rightarrow> string list \<times> int list" where
  "host_entry s = (map sn_name (srv_names s), map port_num (srv_ports s))"

text \<open>The first entry with the name and the port, else the first entry.\<close>

definition route :: "string \<Rightarrow> int \<Rightarrow> (string list \<times> int list) list \<Rightarrow> nat" where
  "route name n tbl =
     (let i = length (takeWhile (\<lambda>(ns, ps). \<not> (name \<in> set ns \<and> n \<in> set ps)) tbl)
      in if i < length tbl then i else 0)"

lemma set_firsts [simp]: "set (firsts xs) = set xs"
proof -
  have "set (fold List.insert xs ys) = set xs \<union> set ys" for ys
    by (induction xs arbitrary: ys) auto
  then show ?thesis by (simp add: firsts_def)
qed

section \<open>Names and ports while a block is read\<close>

type_synonym host_view = "string list \<times> int list \<times> (string list \<times> int list) list"

definition host_view :: "pstate \<Rightarrow> host_view" where
  "host_view s = (map sn_name (p_serverNames s), map port_num (p_ports s), map host_entry (g_servers (ps_g s)))"

text \<open>A new entry goes in front, unless it is there already, the default at the end aside.\<close>

definition push :: "'a \<Rightarrow> 'a list \<Rightarrow> 'a list" where
  "push x xs = (if x \<in> set (butlast xs) then xs else x # xs)"

lemma fold_push: "fold push xs (ys @ [d]) = fold List.insert xs ys @ [d]"
  by (induction xs arbitrary: ys) (simp_all add: push_def List.insert_def flip: append_Cons)

lemma dupName_butlast: "dupName n sns = (n \<in> set (butlast (map sn_name sns)))"
  by (induction n sns rule: dupName.induct) auto

lemma dupPort_butlast: "dupPort n ps = (n \<in> set (butlast (map port_num ps)))"
  by (induction n ps rule: dupPort.induct) auto

lemma server_name_hosts:
  "f_server_name (Heap n) t s = Inr s' \<Longrightarrow> host_view s = (ns, ps, tbl) \<Longrightarrow> host_view s' = (push n ns, ps, tbl)"
  by (auto simp: f_server_name_def host_view_def push_def dupName_butlast res_simps split: if_splits)

lemma listen_hosts:
  assumes "exec_listen_option a s = Inr s'" "host_view s = (ns, ps, tbl)"
  shows "host_view s' = (fold push (listen_names a) ns, fold push (filter (\<lambda>n. 0 < n) (listen_ports a)) ps, tbl)"
  using assms
  by (cases a)
    (auto simp: f_listen_def f_tls_def host_view_def push_def dupName_butlast dupPort_butlast res_simps Let_def
      split: if_splits list.splits)

text \<open>The other directives.\<close>

lemma host_view_other:
  "p_serverNames s' = p_serverNames s \<Longrightarrow> p_ports s' = p_ports s \<Longrightarrow> g_servers (ps_g s') = g_servers (ps_g s) \<Longrightarrow>
   host_view s' = host_view s"
  by (simp add: host_view_def)

lemma scalar_hosts [simp]:
  "host_view (f_pid p s) = host_view s" "host_view (f_include q s) = host_view s"
  "host_view (f_default_type t s) = host_view s" "host_view (f_trace b s) = host_view s"
  "host_view (f_sendfile b s) = host_view s" "host_view (f_tcpnopush b s) = host_view s"
  "host_view (f_user u grp s) = host_view s" "host_view (f_server_tokens b s) = host_view s"
  "host_view (f_keepalive_timeout n s) = host_view s" "host_view (f_workerProcesses n s) = host_view s"
  "host_view (f_workerConnections n s) = host_view s" "host_view (f_autoindex b s) = host_view s"
  "host_view (f_indexFile i s) = host_view s" "host_view (f_ssl_certificate c s) = host_view s"
  "host_view (f_ssl_certificate_key c s) = host_view s" "host_view (f_upstreams name s) = host_view s"
  "host_view (f_protocol p s) = host_view s" "host_view (f_try_target p s) = host_view s"
  by (simp_all add: host_view_def f_pid_def f_include_def f_default_type_def f_trace_def f_sendfile_def
      f_tcpnopush_def f_user_def f_server_tokens_def f_keepalive_timeout_def f_workerProcesses_def
      f_workerConnections_def f_autoindex_def f_indexFile_def f_ssl_certificate_def f_protocol_def f_try_target_def
      f_ssl_certificate_key_def f_upstreams_def state_defs Let_def setUpstreamList_def split: option.split)

lemma fold_hosts: "(\<And>a s. host_view (f a s) = host_view s) \<Longrightarrow> host_view (fold f as s) = host_view s"
  by (induction as arbitrary: s) simp_all

lemma upstream_hosts [simp]: "host_view (exec_upstream u s) = host_view s"
proof -
  have "host_view (push_nodes n v s) = host_view s" for n v s
    by (induction n arbitrary: s) (simp_all add: host_view_def)
  then show ?thesis by (cases u) (simp add: f_upstream_def)
qed

lemma res_hosts:
  "f_access_log p t' s = Inr s' \<Longrightarrow> host_view s' = host_view s"
  "f_error_log p s = Inr s' \<Longrightarrow> host_view s' = host_view s"
  "exec_ssl d s = Inr s' \<Longrightarrow> host_view s' = host_view s"
  "exec_fcgi e s = Inr s' \<Longrightarrow> host_view s' = host_view s"
  "f_root r s = Inr s' \<Longrightarrow> host_view s' = host_view s"
  "f_expires x s = Inr s' \<Longrightarrow> host_view s' = host_view s"
  "f_location mt m s = Inr s' \<Longrightarrow> host_view s' = host_view s"
  "f_try_files s = Inr s' \<Longrightarrow> host_view s' = host_view s"
proof -
  show "f_access_log p t' s = Inr s' \<Longrightarrow> host_view s' = host_view s"
    "f_error_log p s = Inr s' \<Longrightarrow> host_view s' = host_view s"
    by (auto simp: f_access_log_def f_error_log_def host_view_def setAccessLog_def setErrorLog_def split: if_splits)
  show "exec_ssl d s = Inr s' \<Longrightarrow> host_view s' = host_view s" by (cases d) (auto simp: res_simps)
  show "exec_fcgi e s = Inr s' \<Longrightarrow> host_view s' = host_view s" by (cases e) (auto simp: res_simps)
qed (auto simp: host_view_def f_root_def f_expires_def f_location_def f_try_files_def res_simps Let_def
    split: list.splits option.splits)

lemma pass_hosts:
  "f_proxy_pass dns h p s = Inr s' \<Longrightarrow> host_view s' = host_view s"
  "f_fastcgi_pass dns h p s = Inr s' \<Longrightarrow> host_view s' = host_view s"
proof -
  have "attach_group ty i s = Inr s' \<Longrightarrow> host_view s' = host_view s" for ty i s s'
    by (auto simp: attach_group_def free_group_def host_view_def res_simps split: list.splits option.splits if_splits)
  then have "proxyPassToUpstreamGroup dns ty i s = Inr s' \<Longrightarrow> host_view s' = host_view s" for ty i
    unfolding proxyPassToUpstreamGroup_def attach_group_def [symmetric]
    by (fastforce simp: host_view_def res_simps Let_def split: if_splits)
  moreover have "proxyPassToHost dns ty h p s = Inr s' \<Longrightarrow> host_view s' = host_view s" for ty
    by (auto simp: proxyPassToHost_def host_view_def split: option.splits list.splits)
  ultimately show "f_proxy_pass dns h p s = Inr s' \<Longrightarrow> host_view s' = host_view s"
    "f_fastcgi_pass dns h p s = Inr s' \<Longrightarrow> host_view s' = host_view s"
    by (auto simp: f_proxy_pass_def f_fastcgi_pass_def res_simps split: option.splits)
qed

lemma location_hosts: "exec_location_directive dns a s = Inr s' \<Longrightarrow> host_view s' = host_view s"
  by (cases a) (auto dest!: res_hosts pass_hosts simp: fold_hosts)

lemma push_run:
  assumes run: "run_res act as s = Inr s'"
    and step: "\<And>a s s' ns ps tbl. act a s = Inr s' \<Longrightarrow> host_view s = (ns, ps, tbl) \<Longrightarrow>
      host_view s' = (fold push (f a) ns, fold push (h a) ps, tbl)"
    and start: "host_view s = (ns, ps, tbl)"
  shows "host_view s' = (fold push (concat (map f as)) ns, fold push (concat (map h as)) ps, tbl)"
  using run start
proof (induction as arbitrary: s ns ps)
  case (Cons a as)
  then obtain s1 where "act a s = Inr s1" "run_res act as s1 = Inr s'" by (auto simp: res_simps)
  with Cons.IH step Cons.prems(2) show ?case by fastforce
qed simp

lemma server_directive_hosts:
  assumes e: "exec_server_directive dns a s = Inr s'" and v: "host_view s = (ns, ps, tbl)"
  shows "host_view s' = (fold push (directive_names a) ns, fold push (directive_ports a) ps, tbl)"
proof -
  have same: ?thesis if "host_view s' = host_view s" "directive_names a = []" "directive_ports a = []"
    using that v by simp
  show ?thesis
  proof (cases a)
    case (S_server_name xs)
    with e have r: "run_res (\<lambda>(n, t). f_server_name (Heap n) t) xs s = Inr s'" by simp
    have "host_view s' = (fold push (concat (map (\<lambda>x. [fst x]) xs)) ns, fold push (concat (map (\<lambda>x. []) xs)) ps, tbl)"
      by (rule push_run [OF r _ v]) (auto dest: server_name_hosts)
    moreover have "concat (map (\<lambda>x. [fst x]) xs) = map fst xs" by (induction xs) simp_all
    moreover have "concat (map (\<lambda>x. []) xs) = ([] :: int list)" by (induction xs) simp_all
    ultimately show ?thesis using S_server_name by simp
  next
    case (S_listen os)
    with e have r: "run_res exec_listen_option os s = Inr s'" by simp
    have "filter (\<lambda>n. 0 < n) (concat (map listen_ports os)) =
        concat (map (\<lambda>x. filter (\<lambda>n. 0 < n) (listen_ports x)) os)" by (simp add: filter_concat comp_def)
    with push_run [OF r listen_hosts v] S_listen show ?thesis by simp
  next
    case (S_location t m ds)
    with e obtain s1 where r: "run_res (exec_location_directive dns) ds s = Inr s1" "f_location t m s1 = Inr s'"
      by (auto simp: res_simps)
    from r(1) have "host_view s1 = host_view s" by (rule run_view [rotated]) (rule location_hosts)
    with res_hosts(7) [OF r(2)] have "host_view s' = host_view s" by simp
    then show ?thesis using S_location by (intro same) simp_all
  qed (rule same; (use e in \<open>auto dest: res_hosts simp: fold_hosts\<close>)[1])+
qed

text \<open>At the end of a block the entries move to the server and the defaults stay.\<close>

lemma take_front_default:
  "take_list move_front xs = Inr (rest, taken) \<Longrightarrow> map f xs = ys @ [d] \<Longrightarrow>
   map f rest = [d] \<and> map f taken = or_default d (rev ys)"
proof -
  assume t: "take_list move_front xs = Inr (rest, taken)" and m: "map f xs = ys @ [d]"
  then obtain zs z where x: "xs = zs @ [z]" "map f zs = ys" "f z = d" by (auto simp: map_eq_append_conv)
  from t x(2,3) show ?thesis
    by (cases zs) (auto simp: take_front_eq x(1) or_default_def rev_map)
qed

definition clean :: "(string list \<times> int list) list \<Rightarrow> pstate \<Rightarrow> bool" where
  "clean tbl s = (host_view s = ([''*''], [8080], tbl))"

lemma f_server_hosts:
  assumes "f_server s = Inr s'" "host_view s = (ns @ [''*''], ps @ [8080], tbl)"
  shows "clean (tbl @ [(or_default ''*'' (rev ns), or_default 8080 (rev ps))]) s'"
proof -
  from assms(1) obtain sn names ifn files pt prts lc locs where
    t: "take_list move_front (p_serverNames s) = Inr (sn, names)" "take_list move_front (p_ports s) = Inr (pt, prts)"
    and s': "p_serverNames s' = sn" "p_ports s' = pt"
      "map host_entry (g_servers (ps_g s')) = map host_entry (g_servers (ps_g s)) @ [(map sn_name names, map port_num prts)]"
    by (auto simp: f_server_def res_simps Let_def setServerList_def host_entry_def split: if_splits)
  from assms(2) have v: "map sn_name (p_serverNames s) = ns @ [''*'']" "map port_num (p_ports s) = ps @ [8080]"
    "map host_entry (g_servers (ps_g s)) = tbl" by (simp_all add: host_view_def)
  from take_front_default [OF t(1) v(1)] take_front_default [OF t(2) v(2)] s' v(3) show ?thesis
    by (simp add: clean_def host_view_def)
qed

lemma http_directive_hosts:
  assumes "exec_http_directive dns a s = Inr s'" "clean tbl s"
  shows "clean (tbl @ map block_host (blocks_of [a])) s'"
proof -
  have same: ?thesis if "host_view s' = host_view s" "blocks_of [a] = []"
    using that assms(2) by (simp add: clean_def)
  show ?thesis
  proof (cases a)
    case (H_server ds)
    with assms(1) obtain s1 where r: "run_res (exec_server_directive dns) ds s = Inr s1" and f: "f_server s1 = Inr s'"
      by (auto simp: res_simps)
    from assms(2) have "host_view s = ([] @ [''*''], [] @ [8080], tbl)" by (simp add: clean_def)
    from push_run [OF r server_directive_hosts this]
    have "host_view s1 = (fold List.insert (concat (map directive_names ds)) [] @ [''*''],
        fold List.insert (concat (map directive_ports ds)) [] @ [8080], tbl)" by (simp only: fold_push)
    from f_server_hosts [OF f this] H_server show ?thesis by (simp add: block_host_def firsts_def)
  qed (rule same; (use assms(1) in \<open>auto dest: res_hosts simp: fold_hosts\<close>)[1])+
qed

lemma blocks_of_append: "blocks_of (xs @ ys) = blocks_of xs @ blocks_of ys"
  by (induction xs rule: blocks_of.induct) simp_all

lemma http_hosts:
  "run_res (exec_http_directive dns) hs s = Inr s' \<Longrightarrow> clean tbl s \<Longrightarrow>
   clean (tbl @ map block_host (blocks_of hs)) s'"
proof (induction hs arbitrary: s tbl)
  case (Cons a hs)
  then obtain s1 where e: "exec_http_directive dns a s = Inr s1" and r: "run_res (exec_http_directive dns) hs s1 = Inr s'"
    by (auto simp: res_simps)
  from Cons.IH [OF r http_directive_hosts [OF e Cons.prems(2)]] blocks_of_append [of "[a]" hs]
  show ?case by simp
qed simp

lemma main_directive_hosts: "exec_main_directive a s = Inr s' \<Longrightarrow> host_view s' = host_view s"
  by (cases a) (auto dest: res_hosts)

section \<open>Names and ports of the servers\<close>

lemma parseConfig_hosts:
  assumes "parseConfig env (Parsed c) g = Inr g'" "fresh_gstate g"
  shows "map host_entry (g_servers g') = hosts c"
proof -
  from assms obtain s where y: "yyparse (ce_resolve env) c (setup_defaults g) = Inr s"
    and g': "g_servers g' = g_servers (ps_g s)" by (rule parseConfig_servers)
  from y obtain s1 s2 where m: "run_res exec_main_directive (cfg_main c) (setup_defaults g) = Inr s1"
    and h: "run_res (exec_http_directive (ce_resolve env)) (cfg_http c) (fold f_workerConnections (cfg_events c) s1) = Inr s2"
    and s: "s = f_http s2" by (auto simp: yyparse_def res_simps)
  have "clean [] (setup_defaults g)"
    by (simp add: clean_def host_view_def setup_defaults_fields [OF assms(2)] default_name_def)
  moreover have "host_view s1 = host_view (setup_defaults g)" using m by (rule run_view [rotated]) (rule main_directive_hosts)
  ultimately have "clean [] (fold f_workerConnections (cfg_events c) s1)" by (simp add: clean_def fold_hosts)
  from http_hosts [OF h this] show ?thesis
    by (simp add: clean_def host_view_def hosts_def s f_http_def setServerList_def host_entry_def g')
qed

section \<open>The server of a request\<close>

lemma find_route:
  assumes "map host_entry ss = tbl" "ss \<noteq> []"
  shows "(case find (serves name n) ss of Some s \<Rightarrow> Some s | None \<Rightarrow> Some (hd ss)) = Some (ss ! route name n tbl)"
proof -
  let ?P = "\<lambda>(ns, ps). \<not> (name \<in> set ns \<and> n \<in> set ps)"
  have P: "?P \<circ> host_entry = (\<lambda>s. \<not> serves name n s)"
    by (auto simp: host_entry_def serves_def fun_eq_iff)
  have t: "length (takeWhile ?P tbl) = length (takeWhile (\<lambda>s. \<not> serves name n s) ss)"
    unfolding assms(1) [symmetric] by (simp only: takeWhile_map P length_map)
  have "find p ss = (if length (takeWhile (\<lambda>s. \<not> p s) ss) < length ss
      then Some (ss ! length (takeWhile (\<lambda>s. \<not> p s) ss)) else None)" for p
    by (induction ss) auto
  with t assms show ?thesis by (auto simp: route_def Let_def hd_conv_nth)
qed

lemma parseConfig_route:
  assumes "parseConfig env (Parsed c) g = Inr g'" "fresh_gstate g"
    and "CHR '':'' \<notin> set name" "0 \<le> n" "n < 2 ^ 31" "names_host name n (hd (snd (hd (hosts c)))) host"
  shows "map host_entry (g_servers g') = hosts c \<and>
    getServerForHost host g' = Inr (Some (g_servers g' ! route name n (hosts c))) \<and>
    route name n (hosts c) < length (g_servers g')"
proof -
  note h = parseConfig_hosts [OF assms(1,2)]
  have ne: "hosts c \<noteq> []" by (simp add: hosts_def)
  with h obtain s0 ss where s: "g_servers g' = s0 # ss" by (cases "g_servers g'") auto
  have "snd (hd (hosts c)) \<noteq> []"
    by (cases "blocks_of (cfg_http c)") (auto simp: hosts_def block_host_def or_default_def)
  with h s obtain p ps where p: "srv_ports s0 = p # ps" "port_num p = hd (snd (hd (hosts c)))"
    by (cases "srv_ports s0") (auto simp: host_entry_def simp flip: h)
  have "g_defaultServer g"
    using parseConfig_no_default_run [OF assms(2), of env "Parsed c"] assms(1) by fastforce
  with parseConfig_frame [OF assms(2,1)] have "g_defaultServer g'" by (simp add: g_frame_def)
  with getServerForHost_find [OF s p(1) assms(3-5)] assms(6) p(2) find_route [OF h, of name n] s
  have "getServerForHost host g' = Inr (Some (g_servers g' ! route name n (hosts c)))"
    by (cases "find (serves name n) (s0 # ss)") (simp_all del: find.simps)
  moreover have "route name n (hosts c) < length (hosts c)" using ne by (simp add: route_def Let_def)
  ultimately show ?thesis using h by (metis length_map)
qed

text \<open>C8: Virtual hosts mean what the configuration says. The servers of an accepted configuration are its
  \<open>server\<close> blocks in their order, each with the names of its \<open>server_name\<close> and \<open>listen\<close> directives and
  the ports of its \<open>listen\<close> directives, duplicates left out, \<open>*\<close> and 8080 where there are none; the server
  of the defaults is the last. A request for a name and a port gets the first server that has both, else
  the first block's, and a request without a port means the first port of the first block.\<close>

theorem virtual_hosting:
  assumes "parseConfig env (Parsed c) g = Inr g'" "fresh_gstate g"
    and "CHR '':'' \<notin> set name" "0 \<le> n" "n < 2 ^ 31" "names_host name n (hd (snd (hd (hosts c)))) host"
  shows "map host_entry (g_servers g') = hosts c \<and>
    getServerForHost host g' = Inr (Some (g_servers g' ! route name n (hosts c))) \<and>
    route name n (hosts c) < length (g_servers g')"
  using assms by (rule parseConfig_route)

section \<open>Two hosts\<close>

definition ex_two :: config where
  "ex_two = \<lparr>cfg_main = [M_pid ''/run/ogws.pid''], cfg_events = [],
     cfg_http = [
       H_server [S_server_name [(''a.org'', 0), (''a.org'', 0)], S_listen [O_port 80], S_root ''/a''],
       H_server [S_server_name [(''b.org'', 0)], S_listen [O_port 80], S_listen [O_name_port ''c.org'' 81], S_root ''/b'']]\<rparr>"

lemma ex_two_hosts:
  "hosts ex_two = [([''a.org''], [80]), ([''b.org'', ''c.org''], [80, 81]), ([''*''], [8080])]"
  by code_simp

lemma virtual_hosting_witness:
  "\<exists>g. parseConfig ex_env (Parsed ex_two) initial_state = Inr g \<and>
     getServerForHost ''c.org:81'' g = Inr (Some (g_servers g ! 1)) \<and>
     host_entry (g_servers g ! 1) = ([''b.org'', ''c.org''], [80, 81])"
proof -
  have "case parseConfig ex_env (Parsed ex_two) initial_state of Inl e \<Rightarrow> False | Inr g \<Rightarrow> True" by code_simp
  then obtain g where g: "parseConfig ex_env (Parsed ex_two) initial_state = Inr g" by (auto split: sum.splits)
  have n: "names_host ''c.org'' 81 (hd (snd (hd (hosts ex_two)))) ''c.org:81''"
    by (simp add: names_host_def fmt_d_def show_nat.simps digit_char_def)
  have r: "route ''c.org'' 81 (hosts ex_two) = 1" by (simp add: ex_two_hosts route_def)
  from virtual_hosting [OF g ex_fresh(1) _ _ _ n] r
  have "map host_entry (g_servers g) = hosts ex_two" "getServerForHost ''c.org:81'' g = Inr (Some (g_servers g ! 1))"
    "1 < length (g_servers g)" by simp_all
  moreover from this(1,3) have "host_entry (g_servers g ! 1) = hosts ex_two ! 1" by (metis nth_map)
  ultimately show ?thesis using g by (simp add: ex_two_hosts)
qed

end
