(* ===== verification/OG_Sites.thy ===== *)
theory OG_Sites
  imports OG_VHosts
begin

text \<open>
  Sites: what a server block that only serves files from a document root means, and the proof that the
  actions of the parser give its server exactly the location that it describes.
\<close>

section \<open>The site of a block\<close>

text \<open>What a block says about its location, in order: a root, or what paths match.\<close>

datatype site_event = Root_is string | Match_is int string

fun location_events :: "location_directive \<Rightarrow> site_event list" where
  "location_events (L_root r) = [Root_is r]"
| "location_events _ = []"

fun site_events :: "server_directive \<Rightarrow> site_event list" where
  "site_events (S_root r) = [Root_is r]"
| "site_events (S_location t m ls) = concat (map location_events ls) @ [Match_is t m]"
| "site_events _ = []"

abbreviation block_events :: "server_directive list \<Rightarrow> site_event list" where
  "block_events ds \<equiv> concat (map site_events ds)"

text \<open>A root comes first: a \<open>location\<close> block before it would change the default location, and with it
  all later servers.\<close>

fun root_first :: "site_event list \<Rightarrow> bool" where
  "root_first (Match_is t m # es) = False"
| "root_first _ = True"

fun file_location_directive :: "location_directive \<Rightarrow> bool" where
  "file_location_directive (L_proxy_pass pr h p) = False"
| "file_location_directive (L_fastcgi_pass h p) = False"
| "file_location_directive (L_expires e) = False"
| "file_location_directive L_expires_off = False"
| "file_location_directive (L_try_files ts) = False"
| "file_location_directive _ = True"

fun file_directive :: "server_directive \<Rightarrow> bool" where
  "file_directive (S_location t m ls) = list_all file_location_directive ls"
| "file_directive _ = True"

definition file_block :: "server_directive list \<Rightarrow> bool" where
  "file_block ds = (list_all file_directive ds \<and> root_first (block_events ds))"

definition file_config :: "config \<Rightarrow> bool" where
  "file_config c = list_all file_block (blocks_of (cfg_http c))"

text \<open>The last root and the last match count; paths match the prefix \<open>/\<close> otherwise.\<close>

fun roots_of :: "site_event list \<Rightarrow> string list" where
  "roots_of [] = []"
| "roots_of (Root_is r # es) = r # roots_of es"
| "roots_of (Match_is t m # es) = roots_of es"

fun matches_of :: "site_event list \<Rightarrow> (int \<times> string) list" where
  "matches_of [] = []"
| "matches_of (Root_is r # es) = matches_of es"
| "matches_of (Match_is t m # es) = (t, m) # matches_of es"

definition site_location :: "site_event list \<Rightarrow> location" where
  "site_location es =
     (if es = [] then default_location
      else default_location\<lparr>loc_root := Some (Heap (last (roots_of es))),
        loc_matchType := fst (last ((PREFIX_MATCH, ''/'') # matches_of es)),
        loc_match := snd (last ((PREFIX_MATCH, ''/'') # matches_of es)),
        loc_protocol := if matches_of es = [] then loc_protocol default_location else PROTOCOL_UNSET\<rparr>)"

definition sites :: "config \<Rightarrow> location list" where
  "sites c = map (\<lambda>ds. site_location (block_events ds)) (blocks_of (cfg_http c)) @ [default_location]"

section \<open>The pending location while a block is read\<close>

definition site_locations :: "site_event list \<Rightarrow> location list" where
  "site_locations es = (if es = [] then [default_location] else [site_location es, default_location])"

definition pending_site :: "site_event list \<Rightarrow> server list \<Rightarrow> pstate \<Rightarrow> bool" where
  "pending_site es srvs s =
     (p_locations s = site_locations es \<and> p_protocol s = PROTOCOL_UNSET \<and> g_servers (ps_g s) = srvs)"

lemma pending_site_view: "local_view s' = local_view s \<Longrightarrow> pending_site es srvs s \<Longrightarrow> pending_site es srvs s'"
  by (simp add: local_view_def pending_site_def)

lemma events_append [simp]:
  "roots_of (xs @ ys) = roots_of xs @ roots_of ys" "matches_of (xs @ ys) = matches_of xs @ matches_of ys"
  by (induction xs rule: roots_of.induct) simp_all

lemma root_first_append: "root_first (xs @ ys) \<Longrightarrow> root_first xs"
  by (cases xs rule: root_first.cases) simp_all

lemma roots_nonempty: "root_first es \<Longrightarrow> es \<noteq> [] \<Longrightarrow> roots_of es \<noteq> []"
  by (cases es rule: root_first.cases) simp_all

lemma doc_root_idem: "loc_type default_location OR TYPE_DOC_ROOT = loc_type default_location"
  by (simp add: default_location_def)

lemma root_event:
  assumes "f_root (Heap r) s = Inr s'" "pending_site es srvs s"
  shows "pending_site (es @ [Root_is r]) srvs s'"
  using assms
  by (cases "es = []")
    (auto simp: f_root_def pending_site_def site_locations_def site_location_def doc_root_idem res_simps,
      simp add: default_location_def)

lemma match_event:
  assumes "f_location t m s = Inr s'" "pending_site es srvs s" "root_first (es @ [Match_is t m])"
  shows "pending_site (es @ [Match_is t m]) srvs s'"
proof -
  from assms(3) have "es \<noteq> []" by auto
  with assms(1,2) show ?thesis
    by (auto simp: f_location_def pending_site_def site_locations_def site_location_def res_simps Let_def)
qed

lemma site_run:
  assumes "run_res act as s = Inr s'" "pending_site es srvs s" "root_first (es @ concat (map f as))"
    and step: "\<And>a es s s'. a \<in> set as \<Longrightarrow> act a s = Inr s' \<Longrightarrow> pending_site es srvs s \<Longrightarrow> root_first (es @ f a) \<Longrightarrow>
      pending_site (es @ f a) srvs s'"
  shows "pending_site (es @ concat (map f as)) srvs s'"
  using assms
proof (induction as arbitrary: es s)
  case (Cons a as)
  from Cons.prems(1) obtain s1 where a: "act a s = Inr s1" "run_res act as s1 = Inr s'" by (auto simp: res_simps)
  have "root_first (es @ f a)" using Cons.prems(3) root_first_append [of "es @ f a"] by simp
  from Cons.prems(4) [OF _ a(1) Cons.prems(2) this] have "pending_site (es @ f a) srvs s1" by simp
  with Cons.IH [OF a(2), of "es @ f a"] Cons.prems(3,4) show ?case by simp
qed simp

lemma location_sites:
  assumes "exec_location_directive dns a s = Inr s'" "file_location_directive a" "pending_site es srvs s"
  shows "pending_site (es @ location_events a) srvs s'"
proof (cases a)
  case (L_root r)
  with assms show ?thesis by (auto intro: root_event)
next
  case (L_fastcgi_param d)
  with assms(1) have "exec_fcgi d s = Inr s'" by simp
  from pending_site_view [OF res_view(7) [OF this] assms(3)] L_fastcgi_param show ?thesis by simp
next
  case (L_default_type t)
  with assms(1) have "s' = f_default_type t s" by simp
  with pending_site_view [of s' s] assms(3) L_default_type show ?thesis by simp
qed (use assms in auto)

lemma server_directive_sites:
  assumes "exec_server_directive dns a s = Inr s'" "file_directive a" "pending_site es srvs s"
    "root_first (es @ site_events a)"
  shows "pending_site (es @ site_events a) srvs s'"
proof -
  have same: ?thesis if "local_view s' = local_view s" "site_events a = []"
    using pending_site_view [OF that(1) assms(3)] that(2) by simp
  show ?thesis
  proof (cases a)
    case (S_root r)
    with assms show ?thesis by (auto intro: root_event)
  next
    case (S_location t m ls)
    with assms(1) obtain s1 where r: "run_res (exec_location_directive dns) ls s = Inr s1" and l: "f_location t m s1 = Inr s'"
      by (auto simp: res_simps)
    have rf: "root_first ((es @ concat (map location_events ls)) @ [Match_is t m])" using assms(4) S_location by simp
    have "pending_site (es @ concat (map location_events ls)) srvs s1"
      using assms(2) S_location
      by (intro site_run [OF r assms(3) root_first_append [OF rf]]) (auto simp: list_all_iff intro: location_sites)
    from match_event [OF l this rf] S_location show ?thesis by simp
  next
    case (S_server_name ns)
    with assms(1) have "run_res (\<lambda>(n, t). f_server_name (Heap n) t) ns s = Inr s'" by simp
    then have "local_view s' = local_view s" by (rule run_view [rotated]) (auto dest: res_view)
    then show ?thesis using S_server_name by (intro same) simp_all
  next
    case (S_listen os)
    with assms(1) have "run_res exec_listen_option os s = Inr s'" by simp
    then have "local_view s' = local_view s" by (rule run_view [rotated]) (rule listen_view)
    then show ?thesis using S_listen by (intro same) simp_all
  qed (rule same; (use assms(1) in \<open>auto dest: res_view simp: fold_view\<close>)[1])+
qed

section \<open>The locations of the servers\<close>

lemma f_server_sites:
  assumes "f_server s = Inr s'" "pending_site es srvs s"
  shows "\<exists>srv. srv_locations srv = [site_location es] \<and> pending_site [] (srvs @ [srv]) s'"
proof -
  have t: "take_list move_back (p_locations s) = Inr ([default_location], [site_location es])"
  proof -
    have "site_location [] = default_location" by (simp add: site_location_def)
    then have "take_list move_back (site_locations es) = Inr ([default_location], [site_location es])"
      by (simp add: site_locations_def take_back_eq)
    then show ?thesis using assms(2) by (simp add: pending_site_def)
  qed
  have r: "loc_root (site_location es) \<noteq> None" by (simp add: site_location_def default_location_def)
  have f: "fill_roots d [site_location es] = [site_location es]" for d using r by (auto simp: fill_roots_def)
  from assms(1) have "\<exists>srv. g_servers (ps_g s') = g_servers (ps_g s) @ [srv] \<and> srv_locations srv = [site_location es] \<and>
      p_locations s' = [default_location] \<and> p_protocol s' = p_protocol s"
    by (auto simp: f_server_def t f res_simps Let_def setServerList_def split: if_splits)
  with assms(2) show ?thesis by (auto simp: pending_site_def site_locations_def)
qed

definition between_blocks :: "location list \<Rightarrow> pstate \<Rightarrow> bool" where
  "between_blocks ls s = (\<exists>srvs. map srv_locations srvs = map (\<lambda>l. [l]) ls \<and> pending_site [] srvs s)"

lemma http_directive_sites:
  assumes "exec_http_directive dns a s = Inr s'" "list_all file_block (blocks_of [a])" "between_blocks ls s"
  shows "between_blocks (ls @ map (\<lambda>ds. site_location (block_events ds)) (blocks_of [a])) s'"
proof -
  from assms(3) obtain srvs where p: "map srv_locations srvs = map (\<lambda>l. [l]) ls" "pending_site [] srvs s"
    by (auto simp: between_blocks_def)
  have same: ?thesis if "local_view s' = local_view s" "blocks_of [a] = []"
    using pending_site_view [OF that(1) p(2)] p(1) that(2) by (auto simp: between_blocks_def)
  show ?thesis
  proof (cases a)
    case (H_server ds)
    with assms(1) obtain s1 where r: "run_res (exec_server_directive dns) ds s = Inr s1" and f: "f_server s1 = Inr s'"
      by (auto simp: res_simps)
    have b: "list_all file_directive ds" "root_first ([] @ block_events ds)"
      using assms(2) H_server by (simp_all add: file_block_def)
    have "pending_site ([] @ block_events ds) srvs s1"
      by (rule site_run [OF r p(2) b(2)]) (use b(1) in \<open>auto simp: list_all_iff intro: server_directive_sites\<close>)
    then have "pending_site (block_events ds) srvs s1" by simp
    from f_server_sites [OF f this] obtain srv where
      "srv_locations srv = [site_location (block_events ds)]" "pending_site [] (srvs @ [srv]) s'" by blast
    with p(1) H_server show ?thesis unfolding between_blocks_def by (intro exI [of _ "srvs @ [srv]"]) simp
  qed (rule same; (use assms(1) in \<open>auto dest: res_view simp: fold_view\<close>)[1])+
qed

lemma http_sites:
  "run_res (exec_http_directive dns) hs s = Inr s' \<Longrightarrow> list_all file_block (blocks_of hs) \<Longrightarrow> between_blocks ls s \<Longrightarrow>
   between_blocks (ls @ map (\<lambda>ds. site_location (block_events ds)) (blocks_of hs)) s'"
proof (induction hs arbitrary: s ls)
  case (Cons a hs)
  from Cons.prems(1) obtain s1 where e: "exec_http_directive dns a s = Inr s1"
    and r: "run_res (exec_http_directive dns) hs s1 = Inr s'" by (auto simp: res_simps)
  have b: "blocks_of (a # hs) = blocks_of [a] @ blocks_of hs" using blocks_of_append [of "[a]" hs] by simp
  with Cons.prems(2) have f: "list_all file_block (blocks_of [a])" "list_all file_block (blocks_of hs)" by simp_all
  from Cons.IH [OF r f(2) http_directive_sites [OF e f(1) Cons.prems(3)]] b show ?case by simp
qed simp

text \<open>Each server of an accepted configuration of file blocks has the location of its block.\<close>

lemma parseConfig_sites:
  assumes "parseConfig env (Parsed c) g = Inr g'" "fresh_gstate g" "file_config c"
  shows "map srv_locations (g_servers g') = map (\<lambda>l. [l]) (sites c)"
  using assms(1,2)
proof (rule parseConfig_servers)
  fix s assume y: "yyparse (ce_resolve env) c (setup_defaults g) = Inr s" and g': "g_servers g' = g_servers (ps_g s)"
  from y obtain s1 s2 where m: "run_res exec_main_directive (cfg_main c) (setup_defaults g) = Inr s1"
    and h: "run_res (exec_http_directive (ce_resolve env)) (cfg_http c) (fold f_workerConnections (cfg_events c) s1) = Inr s2"
    and s: "s = f_http s2" by (auto simp: yyparse_def res_simps)
  have "p_protocol (setup_defaults g) = PROTOCOL_UNSET"
    by (simp add: setup_defaults_def initial_pstate_def defaultType_def defaultIndexFile_def
        defaultLocation_def defaultServerName_def defaultPort_def defaultErrorLog_def defaultAccessLog_def)
  then have p: "pending_site [] [] (setup_defaults g)"
    by (simp add: pending_site_def site_locations_def setup_defaults_fields [OF assms(2)])
  have "local_view s1 = local_view (setup_defaults g)" using m by (rule run_view [rotated]) (rule main_view)
  then have "local_view (fold f_workerConnections (cfg_events c) s1) = local_view (setup_defaults g)"
    by (simp add: fold_view)
  from pending_site_view [OF this p] have "between_blocks [] (fold f_workerConnections (cfg_events c) s1)"
    by (auto simp: between_blocks_def)
  from http_sites [OF h _ this] assms(3)
  have "between_blocks (map (\<lambda>ds. site_location (block_events ds)) (blocks_of (cfg_http c))) s2"
    by (simp add: file_config_def)
  then show ?thesis
    by (auto simp: between_blocks_def pending_site_def site_locations_def sites_def g' s f_http_def setServerList_def)
qed

text \<open>Without a root in front, a \<open>location\<close> block changes the default location itself, so that every later
  server block inherits its pattern.\<close>

lemma location_changes_default:
  assumes "p_locations s = [d]" "loc_root d \<noteq> None" "f_location t m s = Inr s1" "f_server s1 = Inr s'"
  shows "p_locations s' = [d\<lparr>loc_matchType := t, loc_match := m, loc_protocol := p_protocol s\<rparr>]"
proof -
  from assms(1-3) have "p_locations s1 = [d\<lparr>loc_matchType := t, loc_match := m, loc_protocol := p_protocol s\<rparr>]"
    by (auto simp: f_location_def Let_def)
  with assms(4) show ?thesis by (auto simp: f_server_def take_back_eq res_simps Let_def split: if_splits)
qed

lemma location_changes_default_example:
  "case parseConfig ex_env (Parsed \<lparr>cfg_main = [M_pid ''/p''], cfg_events = [], cfg_http =
      [H_server [S_location PREFIX_MATCH ''/img/'' [L_expires ''1h'']], H_server [S_server_name [(''b.org'', 0)]]]\<rparr>)
      initial_state of
     Inl e \<Rightarrow> False | Inr g \<Rightarrow> map (map loc_match \<circ> srv_locations) (g_servers g) = [[''/img/''], [''/img/''], [''/img/'']]"
  by code_simp

section \<open>A request for a site\<close>

text \<open>Which paths a location takes without a regular expression.\<close>

definition plain_match :: "location \<Rightarrow> string \<Rightarrow> bool" where
  "plain_match l path =
     (loc_matchType l = PREFIX_MATCH \<and> prefix (loc_match l) path \<or> loc_matchType l = EQUAL_MATCH \<and> path = loc_match l)"

lemma site_location_flags:
  "\<not> has_flag (loc_type (site_location es)) TYPE_TRY_FILES" "\<not> has_flag (loc_type (site_location es)) TYPE_PROXY_PASS"
  "\<not> has_flag (loc_type (site_location es)) TYPE_FASTCGI_PASS"
  by (simp_all add: site_location_def default_location_def flag_simps)

lemma plain_match_located:
  assumes "srv_locations srv = [l]" "plain_match l path"
  shows "getDocRoot os srv path = Some l"
  using assms
  by (auto simp: getDocRoot_def plain_match_def cstr_simps match_defs)

text \<open>The server that a host header selects has the one location of the block that it names.\<close>

lemma site_of_host:
  assumes "parseConfig env (Parsed c) g0 = Inr g" "fresh_gstate g0" "file_config c"
    and "CHR '':'' \<notin> set name" "0 \<le> n" "n < 2 ^ 31" "names_host name n (hd (snd (hd (hosts c)))) host"
    and "i = route name n (hosts c)"
  shows "getServerForHost host g = Inr (Some (g_servers g ! i))" "g_servers g ! i \<in> set (g_servers g)"
    "srv_locations (g_servers g ! i) = [sites c ! i]" "sites c ! i \<in> range site_location"
proof -
  note v = parseConfig_route [OF assms(1,2,4-7)]
  show "getServerForHost host g = Inr (Some (g_servers g ! i))" "g_servers g ! i \<in> set (g_servers g)"
    using v by (simp_all add: assms(8))
  have l: "length (g_servers g) = length (sites c)"
    using arg_cong [OF parseConfig_sites [OF assms(1-3)], of length] by simp
  show "srv_locations (g_servers g ! i) = [sites c ! i]"
    using arg_cong [OF parseConfig_sites [OF assms(1-3)], of "\<lambda>xs. xs ! i"] v l by (simp add: assms(8))
  have "site_location [] = default_location" by (simp add: site_location_def)
  then have "set (sites c) \<subseteq> range site_location" by (auto simp: sites_def) (metis rangeI)
  with v l show "sites c ! i \<in> range site_location"
    by (metis assms(8) nth_mem subsetD)
qed

end
