(* ===== verification/Spec2Isabelle.thy ===== *)
theory Spec2Isabelle
  imports OG_ConfigProps OG_DispatchProps OG_Mime OG_Include OG_Socket OG_EventLoop OG_Process OG_Trace
    OG_TLS OG_Main OG_Accept OG_Service OG_Drain OG_Sites
begin

text \<open>
  \<^bold>\<open>The program.\<close> \<^verbatim>\<open>ogws\<close> is a web server in C. \<open>main\<close> (\<^verbatim>\<open>ogws.c\<close>) reads the command
  line (\<^verbatim>\<open>parseArgs.c\<close>), copies the configuration file with its \<open>include\<close> directives expanded
  (\<^verbatim>\<open>expandIncludeFiles.c\<close>), parses and checks it (\<^verbatim>\<open>og_ws.y\<close>, \<^verbatim>\<open>parseConfig.c\<close>) into the
  statics of \<^verbatim>\<open>serverState.c\<close>, reads the mime types (\<^verbatim>\<open>parseMimeTypes.c\<close>), detaches
  (\<^verbatim>\<open>daemonize.c\<close>) and forks one process per listening port and worker. A process runs the event
  loop of \<^verbatim>\<open>server.c\<close> or the accept loop and connection threads of \<^verbatim>\<open>tlsServer.c\<close>, on the
  socket functions of \<^verbatim>\<open>socket.c\<close>. A request is parsed and dispatched by \<^verbatim>\<open>processInput.c\<close>
  to a file (\<^verbatim>\<open>handleGetVerb.c\<close>), a directory listing (\<^verbatim>\<open>showDirectoryListing.c\<close>), a list of
  candidates (\<^verbatim>\<open>handleTryFiles.c\<close>), an upstream server (\<^verbatim>\<open>handleProxyPass.c\<close>,
  \<^verbatim>\<open>handleFastCGIPass.c\<close>, \<^verbatim>\<open>getUpstreamServer.c\<close>) or an error page
  (\<^verbatim>\<open>sendErrorResponse.c\<close>), and logged (\<^verbatim>\<open>log.c\<close>).

  \<^bold>\<open>How it is modelled.\<close> A C struct is a record, a chain of structs linked by \<open>next\<close> is a list in
  chain order, and a second pointer into a chain is a position in that list; the upstream nodes, which
  are shared between groups, are addresses into a store. A C string is a list of non-null characters,
  \<open>None\<close> a null pointer, and a pointer that may be a literal or the heap says which, since the code
  frees it. All statics are one record \<open>gstate\<close>. A function that may stop returns a sum type: \<open>Inl\<close>
  an exit with its code or an undefined operation (null dereference, access out of bounds, bad
  free, use after free), \<open>Inr\<close> its result. Handlers are functions from the statics to a list of
  actions (bytes sent, files sent, log lines, descriptors closed) and such a result. Integers are \<open>int\<close>
  with the wrap written out where a conversion can overflow, and words in \<open>OG_Socket\<close> and \<open>OG_Trace\<close>,
  where the width is what matters.

  \<^item> \<open>OG_Prelude\<close>, \<open>OG_CStrings\<close>: results and their sequencing, action families with an invariant, the
    string functions and formats of the C library that the code uses.
  \<^item> \<open>OG_Types\<close>, \<open>OG_State\<close>: the constants and structs of the headers; every static and every setter
    of \<^verbatim>\<open>serverState.c\<close>, with the contracts of a chain and of the connection registry as locales.
  \<^item> \<open>OG_Directives\<close>, \<open>OG_FastCGI\<close>, \<open>OG_ServerBlock\<close>, \<open>OG_Grammar\<close>: the directive functions of
    \<^verbatim>\<open>parseConfig.c\<close> on the lists under construction, and the actions of \<^verbatim>\<open>og_ws.y\<close> run over a
    parsed configuration. \<open>OG_ParseInv\<close> has the invariant of the parser state that every action keeps.
  \<^item> \<open>OG_Regex\<close>, \<open>OG_Lexer\<close>: regular expressions with their longest match, and the scanner
    \<^verbatim>\<open>og_ws.l\<close> as a list of rules. \<open>OG_Parser\<close>: the productions of \<^verbatim>\<open>og_ws.y\<close> as tables and the
    parser for them; \<open>OG_SyntaxError\<close>: the actions that run before a syntax error. \<open>OG_Accept\<close>: what the
    grammar derives, with the contract between a parser and its nonterminal as a locale that every
    nonterminal interprets.
  \<^item> \<open>OG_ConfigCheck\<close>, \<open>OG_ConfigProps\<close>: \<open>parseConfig\<close> with its checks and the opening of the logs, and
    what it guarantees: a complete configuration when it returns, and where it loses or breaks one. \<open>OG_Local\<close>:
    configurations that only serve files. \<open>OG_VHosts\<close>: which hosts a configuration names, and that requests
    for them reach their blocks. \<open>OG_Sites\<close>: the location that a block of document roots gives its server.
  \<^item> \<open>OG_Include\<close>, \<open>OG_Mime\<close>: the two other file formats.
  \<^item> \<open>OG_IO\<close>, \<open>OG_Response\<close>, \<open>OG_Upstream\<close>, \<open>OG_Request\<close>, \<open>OG_Dispatch\<close>: the request path, from the
    bytes received to the actions. \<open>OG_DispatchProps\<close> counts responses and follows a request for a file
    through; \<open>OG_Frame\<close> says what a request may change.
  \<^item> \<open>OG_Socket\<close>: the transfer loops over what successive system calls return. \<open>OG_EventLoop\<close>: the plain
    server, with a step relation for its loop and the invariant of its reachable states. \<open>OG_Service\<close>: what
    its clients see, as an automaton that its actions run. \<open>OG_TLS\<close>: the TLS server as an interleaving of
    accept loop and threads. \<open>OG_Drain\<close>: that no interleaving gets stuck. \<open>OG_Process\<close>, \<open>OG_Main\<close>:
    command line, daemon, signals, the distribution of ports, \<open>main\<close>. \<open>OG_Trace\<close>: the data dump.

  \<^bold>\<open>What the theorems show.\<close> Language: the scanner takes the longest match and gives every token the form
  of its type, the parser accepts exactly what the grammar derives, a written token list is read back; regular
  expression locations, \<open>fastcgi_split_path_info\<close> and servers named by an address cannot be configured
  the way they are meant. Configuration: an accepted one is complete, whatever the directives, and
  stays so; its virtual hosts and document roots are those of its blocks; the parser's losses (a second location, groups
  that pile up, the discarded default server) are stated as they are. Requests: the parser equals a reference parser on the text and inverts
  rendering; server, location and upstream are the ones that a simple specification names; every completed
  request gets one status line, its length headers are right, and paths stay inside their buffers.
  Processes: in every reachable state of the plain loop and of the TLS threads the registry is exact and
  the configuration the checked one; a plain server opens, answers and closes connections as an automaton
  says, and the threads of a TLS server can always all finish; the theorems of this file carry that from
  the command line and the text of the configuration to every process that is started, and for
  configurations that serve files to the bytes of a response.

  \<^bold>\<open>Parameters, bounds and fuel.\<close> The kernel, the file system, the resolver, the clock, the regular
  expression library and OpenSSL are functions or scripts of results that the definitions take. Loops
  over input are recursions on it. \<open>expandFile\<close> may run forever in C, so it takes the depth of nested
  calls as fuel, and a theorem says for exactly which files some depth is enough. Loops that wait for the
  kernel consume a script of its answers and say so when it is used up. The threads of the TLS server
  interleave at the accesses to shared data that a mutex protects; the handlers' accesses to the
  unprotected statics are any change of what \<open>request_view\<close> leaves out. Memory is not exhausted, and
  \<open>malloc\<close> does not fail.

  \<^bold>\<open>Not modelled.\<close> The tables and the stack that flex and bison generate: their meaning is modelled, the
  longest match and the derivation, with the actions in the order of their reductions. A text without null
  bytes is assumed behind the expansion of includes, which cuts lines at them. The functions of \<^verbatim>\<open>og_ws.y\<close>
  that test the grammar alone. What goes to the standard output and
  error for a reader only (\<open>doDebug\<close>, the debug prints of the directives, the help text), and
  \<open>showCerts\<close>, which nothing calls. The leaks of memory that change no behaviour. The count that
  \<open>SSL_read_ex\<close> leaves undefined when it fails.
\<close>

section \<open>From the command line to the processes\<close>

text \<open>C9: When \<open>main\<close> starts processes, everything they rely on is there: the configuration is
  complete and checked, no connection and no fragment is left over, \<open>-n\<close> was not given, every port
  that a server listens on has its \<open>worker_processes\<close> processes, of which there is at least one, and
  the pid file holds the number of the daemon.\<close>

theorem main_starts_processes:
  assumes "main n me opts operands = Some (as, Inr (rs, g))"
  shows "config_ready (me_cfg me) g \<and> g_clients g = [] \<and> no_fragments g \<and>
    CHR ''n'' \<notin> fst ` set opts \<and> 0 < getWorkerProcesses g \<and>
    (\<forall>p. procs_for p rs = (if listens g p then nat (getWorkerProcesses g) else 0)) \<and>
    (\<exists>f. getPidFile g = Some f \<and> written as f = Some (fmt_d (de_pid (me_daemon me)) @ [LF]))"
proof -
  note r = main_ready [OF assms]
  have w: "0 < getWorkerProcesses g" by (rule startProcesses_workers [OF r(5)])
  from r(6) obtain f where f: "getPidFile g = Some f"
    by (auto simp: daemonize_def split: sum.splits option.splits)
  show ?thesis
    using r(1-4) w startProcesses_run(1) [OF w r(5)] f daemonize_written [OF r(6) f] by blast
qed

text \<open>C10: Every process that \<open>main\<close> starts stays safe, whatever it is sent and in whatever order. A plain
  process that is still in its loop has the checked configuration and a registry with at most one entry
  per descriptor; so has a TLS process after any interleaving of its threads, and its context is alive
  and every thread at work finds its own connection.\<close>

theorem started_processes_safe:
  assumes "main n me opts operands = Some (as, Inr (rs, g))" "r \<in> set rs"
  shows "(\<not> pr_tls r \<longrightarrow>
      (\<forall>os ep le add ws bs g'. rounds_delivered (le_socket le) {} ws \<longrightarrow>
         server_main os ep le add ws (pr_portNum r) (pr_server r) g = (bs, Inr (Waiting, g')) \<longrightarrow>
         config_ready (me_cfg me) g' \<and> distinct (client_fds g') \<and> le_socket le \<notin> set (client_fds g'))) \<and>
    (pr_tls r \<longrightarrow>
      (\<forall>os sockFd ctx m ths sh.
         (tls_step os sockFd (pr_server r) ctx)\<^sup>*\<^sup>* (tls_init sockFd g) (m, ths, sh) \<longrightarrow>
         config_ready (me_cfg me) (ts_g sh) \<and> distinct (client_fds (ts_g sh)) \<and> 1 \<le> ts_refs sh \<and>
         (\<forall>(c, pc) \<in> set ths. is_registered pc \<longrightarrow> getClientConnection (cl_fd c) (ts_g sh) = Some c)))"
proof (intro conjI impI allI)
  note r = main_ready [OF assms(1)]
  {
    fix os ep le add ws bs g'
    assume d: "rounds_delivered (le_socket le) {} ws"
      and run: "server_main os ep le add ws (pr_portNum r) (pr_server r) g = (bs, Inr (Waiting, g'))"
    have "loop_inv (me_cfg me) (le_socket le) (g', conns)"
      if "(loop_step os (le_socket le) (pr_server r))\<^sup>*\<^sup>* (g, {}) (g', conns)" for conns
      using that by (rule loop_reach_inv) (simp add: loop_inv_def r client_fds_def)
    moreover from server_main_reach [OF run r(2) d]
    have "\<exists>conns. (loop_step os (le_socket le) (pr_server r))\<^sup>*\<^sup>* (g, {}) (g', conns)" .
    ultimately have "config_ready (me_cfg me) g' \<and> distinct (client_fds g') \<and>
        le_socket le \<notin> set (client_fds g')" by (auto simp: loop_inv_def)
    then show "config_ready (me_cfg me) g'" "distinct (client_fds g')" "le_socket le \<notin> set (client_fds g')"
      by blast+
  next
    fix os sockFd ctx m ths sh
    assume "(tls_step os sockFd (pr_server r) ctx)\<^sup>*\<^sup>* (tls_init sockFd g) (m, ths, sh)"
    from tls_reach_inv [OF this tls_init_inv [OF r(1,2)]]
    have inv: "tls_inv (me_cfg me) ctx sockFd (m, ths, sh)" .
    then show "config_ready (me_cfg me) (ts_g sh)" "1 \<le> ts_refs sh" by (simp_all add: tls_inv_def)
    show "distinct (client_fds (ts_g sh))" by (rule tls_inv_distinct(1) [OF inv])
    show "\<forall>(c, pc) \<in> set ths. is_registered pc \<longrightarrow> getClientConnection (cl_fd c) (ts_g sh) = Some c"
      using tls_inv_own_entry [OF inv] by blast
  }
qed


text \<open>C11: From the text of a configuration to the bytes of a response. Let the expanded configuration be one
  of server blocks that serve files, and \<open>main\<close> start processes for it. In the state they start from, a
  \<open>GET\<close> or \<open>HEAD\<close> request whose host header names a block, as \<open>route\<close> says, and whose path its location
  takes, is answered with the file at that path under the root of that block, when it is a readable plain
  file: header block, body exactly for \<open>GET\<close>, one line in the access log, and the state is as before.\<close>

theorem configured_file_served:
  assumes "main n me opts operands = Some (as, Inr (rs, g))"
    and "parseArgs (me_readable me) opts operands initial_state = Inr g0"
    and "expandIncludeFiles n (me_files me) (me_tmp me) g0 = Some (Inr t)"
    and "parse_text t = Some c" "file_config c"
    and "received \<noteq> []" "length received < BUFF_SIZE" "parse_request (input_buffer received) = Inr (Some pr)"
    and "pr_verb pr = ''GET'' \<or> pr_verb pr = ''HEAD''" "split_query (pr_path pr) = (path, query)"
    and "CHR '':'' \<notin> set name" "0 \<le> p" "p < 2 ^ 31" "names_host name p (hd (snd (hd (hosts c)))) (pr_host pr)"
    and "i = route name p (hosts c)" "plain_match (sites c ! i) path" "loc_root (sites c ! i) = Some root"
    and "file = join_path (cval root) path" "length (cval root) + length path \<le> 255"
    and "os_sane os" "os_stat os file = Some sb" "\<not> st_isDir sb" "os_open os file = fd" "fd \<noteq> -1"
    and "getMimeType g file = Inr mt" "length (fmt_s (getVersion g)) \<le> 100" "sz = to_int32 (int (os_fsize os fd))"
    and "length (access_line os (req\<lparr>req_path := Some path\<rparr>) (g_servers g ! i) (pr_verb pr) 200 sz) < BUFF_SIZE"
  shows "processInput os req received g =
    (Send (req_clientFd req) (req_ssl req)
        (file_headers (fmt_s (getVersion g)) (time_of os RESPONSE_FORMAT) mt sz) #
      (if pr_verb pr = ''GET''
       then [SendFile (req_clientFd req) (req_ssl req) fd (os_fsize os fd)] else []) @
      [WriteLog (access_log_fd g (g_servers g ! i))
         (access_line os (req\<lparr>req_path := Some path\<rparr>) (g_servers g ! i) (pr_verb pr) 200 sz), Close fd],
      Inr ((), g))"
proof -
  from assms(1) obtain g2 where c: "parseConfig (me_cfg me) (Parsed c) g0 = Inr g2"
    and m: "main_run me g2 = (as, Inr (rs, g))"
    by (rule main_parts) (use assms(2-4) in \<open>simp add: parse_result_def\<close>)
  from m have "parseMimeTypes (me_files me) g2 = Inr g" by (rule main_run_parts)
  then obtain ms where g: "g = g2\<lparr>g_mimeTypes := ms\<rparr>" using parseMimeTypes_keeps by blast
  note site = site_of_host [OF c parseArgs_fresh(1) [OF assms(2)] assms(5,11-15)]
  have h: "getServerForHost (pr_host pr) g = Inr (Some (g_servers g ! i))"
  proof -
    have "g_servers g = g_servers g2" "g_defaultServer g = g_defaultServer g2" by (simp_all add: g)
    then have "getServerForHost (pr_host pr) g = getServerForHost (pr_host pr) g2"
      unfolding getServerForHost_def by (simp only:)
    with site(1) show ?thesis by (simp add: g)
  qed
  have s: "g_servers g ! i \<in> set (g_servers g)" using site(2) by (simp add: g)
  have d: "getDocRoot os (g_servers g ! i) path = Some (sites c ! i)"
    using plain_match_located [OF site(3) assms(16)] by (simp add: g)
  from site(4) obtain es where "sites c ! i = site_location es" by blast
  then have f: "\<not> has_flag (loc_type (sites c ! i)) TYPE_TRY_FILES" "\<not> has_flag (loc_type (sites c ! i)) TYPE_PROXY_PASS"
    "\<not> has_flag (loc_type (sites c ! i)) TYPE_FASTCGI_PASS" by (simp_all add: site_location_flags)
  show ?thesis
    by (rule get_serves_file_run [OF assms(6-10) h ready_live [OF main_ready(1) [OF assms(1)] s] assms(20) d
        assms(17,19) f assms(18,21-28)])
qed

section \<open>A concrete start\<close>

definition ex_main :: main_env where
  "ex_main = \<lparr>me_readable = (\<lambda>p. True),
     me_files = (\<lambda>p. if p = ''/c/ogws.conf'' then Some ex_text
       else if p = ''/c/mime.types'' then Some ''types {}'' else None),
     me_tmp = True, me_cfg = ex_env,
     me_daemon = ex_daemon\<lparr>de_pid := 7\<rparr>, me_forks = [True, True, True, True]\<rparr>"

definition ex_args :: gstate where
  "ex_args = (case parseArgs (\<lambda>p. True) [] [''/c/ogws.conf''] initial_state of Inr g \<Rightarrow> g | Inl e \<Rightarrow> initial_state)"

lemma ex_main_parts:
  "parseArgs (me_readable ex_main) [] [''/c/ogws.conf''] initial_state = Inr ex_args"
  "expandIncludeFiles 1 (me_files ex_main) (me_tmp ex_main) ex_args = Some (Inr ex_text)"
  by code_simp+

lemma ex_main_env: "me_cfg ex_main = ex_env"
  by (simp add: ex_main_def)

lemma ex_main_eval:
  assumes "case parseConfig ex_env (Parsed ex_parsed) ex_args of
      Inl e \<Rightarrow> False
    | Inr g2 \<Rightarrow> (case main_run ex_main g2 of
        (as, b) \<Rightarrow> (case b of Inl e \<Rightarrow> False | Inr (rs, g) \<Rightarrow> P rs g))"
  shows "\<exists>as rs g. main 1 ex_main [] [''/c/ogws.conf''] = Some (as, Inr (rs, g)) \<and> P rs g"
proof -
  from assms obtain g2 where c: "parseConfig ex_env (Parsed ex_parsed) ex_args = Inr g2"
    and i: "case main_run ex_main g2 of (as, b) \<Rightarrow> (case b of Inl e \<Rightarrow> False | Inr (rs, g) \<Rightarrow> P rs g)"
    by (cases "parseConfig ex_env (Parsed ex_parsed) ex_args") simp_all
  obtain as b where m: "main_run ex_main g2 = (as, b)" by (rule prod.exhaust)
  with i have b: "case b of Inl e \<Rightarrow> False | Inr (rs, g) \<Rightarrow> P rs g" by (simp only: prod.case)
  from b m obtain rs g where r: "main_run ex_main g2 = (as, Inr (rs, g))" "P rs g" by (cases b) auto
  have "main 1 ex_main [] [''/c/ogws.conf''] = Some (as, Inr (rs, g))"
    by (simp only: main_def ex_main_parts parse_result_def ex_text_parsed ex_main_env c r(1) option.case sum.case)
  with r(2) show ?thesis by blast
qed

lemma ex_main_run: "\<exists>as rs g. main 1 ex_main [] [''/c/ogws.conf''] = Some (as, Inr (rs, g)) \<and> length rs = 1 \<and>
    \<not> pr_tls (hd rs)"
  by (rule ex_main_eval) code_simp

lemma main_starts_processes_witness:
  "\<exists>as rs g. main 1 ex_main [] [''/c/ogws.conf''] = Some (as, Inr (rs, g)) \<and> length rs = 1 \<and>
     config_ready ex_env g"
proof -
  from ex_main_run obtain as rs g where r: "main 1 ex_main [] [''/c/ogws.conf''] = Some (as, Inr (rs, g))"
    "length rs = 1" by blast
  from main_starts_processes [OF r(1)] r show ?thesis by (auto simp: ex_main_def)
qed

lemma started_processes_safe_witness:
  "\<exists>as rs g bs g'. main 1 ex_main [] [''/c/ogws.conf''] = Some (as, Inr (rs, g)) \<and>
     server_main ex_os 4 ex_listen True [] (pr_portNum (hd rs)) (pr_server (hd rs)) g =
       (bs, Inr (Waiting, g')) \<and> config_ready ex_env g'"
proof -
  from ex_main_run obtain as rs g where r: "main 1 ex_main [] [''/c/ogws.conf''] = Some (as, Inr (rs, g))"
    and l: "length rs = 1" "\<not> pr_tls (hd rs)" by blast
  have m: "hd rs \<in> set rs" using l by (cases rs) auto
  obtain bs where run: "server_main ex_os 4 ex_listen True [] (pr_portNum (hd rs)) (pr_server (hd rs)) g =
      (bs, Inr (Waiting, g))"
    by (simp add: server_main_def epollCreate_def createBindAndListen_def ex_listen_def io_simps Let_def
        bind_io_assoc)
  moreover have "me_cfg ex_main = ex_env" by (simp add: ex_main_def)
  moreover have "rounds_delivered (le_socket ex_listen) {} []" by simp
  ultimately have "config_ready ex_env g"
    using started_processes_safe [OF r m] l(2) run by metis
  with r run show ?thesis by blast
qed


text \<open>A request for a file of the second server.\<close>

definition ex_site_get :: string where
  "ex_site_get = ''GET /a.txt HTTP/1.1'' @ crlf @ ''Host: b.org:8080'' @ crlf @ crlf"

lemma ex_main_site: "\<exists>as rs g. main 1 ex_main [] [''/c/ogws.conf''] = Some (as, Inr (rs, g)) \<and>
    getMimeType g ''/srv/a.txt'' = Inr ''text/plain'' \<and> length (fmt_s (getVersion g)) \<le> 100 \<and>
    host_entry (g_servers g ! 1) = ([''b.org''], [8080])"
  by (rule ex_main_eval) code_simp

lemma configured_file_served_witness:
  "\<exists>as rs g bs. main 1 ex_main [] [''/c/ogws.conf''] = Some (as, Inr (rs, g)) \<and>
     processInput ex_os (new_request ex_srv 7 False) ex_site_get g = (bs, Inr ((), g)) \<and>
     SendFile 7 False 9 5 \<in> set bs"
proof -
  from ex_main_site obtain as rs g where r: "main 1 ex_main [] [''/c/ogws.conf''] = Some (as, Inr (rs, g))"
    and mt: "getMimeType g ''/srv/a.txt'' = Inr ''text/plain''" and v: "length (fmt_s (getVersion g)) \<le> 100"
    and e: "host_entry (g_servers g ! 1) = ([''b.org''], [8080])" by blast
  let ?pr = "\<lparr>pr_verb = ''GET'', pr_path = ''/a.txt'', pr_protocol = ''HTTP/1.1'', pr_host = ''b.org:8080''\<rparr>"
  let ?r = "new_request ex_srv 7 False"
  have "reference_parse ex_site_get = Inr (Some ?pr)" by code_simp
  then have p: "parse_request (input_buffer ex_site_get) = Inr (Some ?pr)"
    by (subst parse_request_eq) (simp_all add: ex_site_get_def crlf_def BUFF_SIZE_def)
  have len: "ex_site_get \<noteq> []" "length ex_site_get < BUFF_SIZE"
    by (simp_all add: ex_site_get_def crlf_def BUFF_SIZE_def)
  have q: "split_query (pr_path ?pr) = (''/a.txt'', None)" "file_config ex_parsed" by code_simp+
  have n: "names_host ''b.org'' 8080 (hd (snd (hd (hosts ex_parsed)))) (pr_host ?pr)"
    by (simp add: names_host_def fmt_d_def show_nat.simps digit_char_def)
  have i: "1 = route ''b.org'' 8080 (hosts ex_parsed)" by code_simp
  have l: "plain_match (sites ex_parsed ! 1) ''/a.txt''" "loc_root (sites ex_parsed ! 1) = Some (Heap ''/srv'')"
    by code_simp+
  have st: "os_stat ex_os ''/srv/a.txt'' = Some \<lparr>st_isDir = False, st_size = 5\<rparr>" "os_open ex_os ''/srv/a.txt'' = 9"
    by (simp_all add: ex_os_def)
  have f: "''/srv/a.txt'' = join_path (cval (Heap ''/srv'')) ''/a.txt''" by (simp add: join_path_def)
  from e have "length (access_line ex_os (?r\<lparr>req_path := Some ''/a.txt''\<rparr>) (g_servers g ! 1) (pr_verb ?pr) 200 5) < BUFF_SIZE"
    by (cases "srv_names (g_servers g ! 1)") (simp_all add: host_entry_def ex_line_defs new_request_def)
  note fits = this
  have sz: "5 = to_int32 (int (os_fsize ex_os 9))" by (simp add: ex_os_def to_int32_id)
  have t: "pr_verb ?pr = ''GET'' \<or> pr_verb ?pr = ''HEAD''" "CHR '':'' \<notin> set ''b.org''" "(0 :: int) \<le> 8080" "(8080 :: int) < 2 ^ 31"
    "length (cval (Heap ''/srv'')) + length ''/a.txt'' \<le> 255" "\<not> st_isDir \<lparr>st_isDir = False, st_size = 5\<rparr>" "(9 :: int) \<noteq> -1"
    by simp_all
  note served = configured_file_served [OF r ex_main_parts(1) ex_main_parts(2) ex_text_parsed q(2) len p t(1) q(1) t(2-4) n i l f
      t(5) ex_sane st(1) t(6) st(2) t(7) mt v sz fits]
  have "SendFile 7 False 9 5 \<in> set (fst (processInput ex_os ?r ex_site_get g))"
    unfolding served by (simp add: new_request_def ex_os_def)
  with r served show ?thesis by (metis fst_conv)
qed

end
